(* ===== verification/Prelude.thy ===== *)
theory Prelude
  imports Main
begin

text \<open>
  Shared vocabulary of the development: what a SQL table is, what the statements
  \<open>SELECT\<close>, \<open>UPDATE ... WHERE\<close> and \<open>INSERT ... ON CONFLICT\<close> do to one, and the way a call
  over a connection can fail. A table is the list of its rows in scan order. The lemmas
  here are about these list operations only; the theories of the store use them through
  the collection \<open>table_simps\<close>.
\<close>

named_theorems table_simps \<open>rewrite rules for tables as lists of rows\<close>
named_theorems go_defs \<open>definitions of small helpers that proofs unfold\<close>

subsection \<open>Tables\<close>

text \<open>\<open>UPDATE t SET f WHERE P\<close>: every row that satisfies the condition is replaced.\<close>

definition update_where :: "('r \<Rightarrow> bool) \<Rightarrow> ('r \<Rightarrow> 'r) \<Rightarrow> 'r list \<Rightarrow> 'r list" where
  "update_where P f rs = map (\<lambda>r. if P r then f r else r) rs"

text \<open>\<open>SELECT ... WHERE k = x\<close> on a column with a unique index: the row, if there is one.\<close>

definition select_by :: "('r \<Rightarrow> 'k) \<Rightarrow> 'k \<Rightarrow> 'r list \<Rightarrow> 'r option" where
  "select_by k x rs = List.find (\<lambda>r. k r = x) rs"

text \<open>A unique index on the column \<open>k\<close>.\<close>

definition unique_on :: "('r \<Rightarrow> 'k) \<Rightarrow> 'r list \<Rightarrow> bool" where
  "unique_on k rs = distinct (map k rs)"

text \<open>\<open>ORDER BY k LIMIT 1\<close>: the first row, in scan order, whose key is least.\<close>

fun first_by :: "('r \<Rightarrow> 'k::linorder) \<Rightarrow> 'r list \<Rightarrow> 'r option" where
  "first_by k [] = None"
| "first_by k (r # rs) =
     (case first_by k rs of
        None \<Rightarrow> Some r
      | Some r' \<Rightarrow> if k r \<le> k r' then Some r else Some r')"

text \<open>\<open>NULLIF(s, '')\<close>, and \<open>COALESCE(a, b)\<close> for a nullable first argument.\<close>

definition nullif_empty :: "string \<Rightarrow> string option" where
  "nullif_empty s = (if s = [] then None else Some s)"

definition coalesce :: "'a option \<Rightarrow> 'a option \<Rightarrow> 'a option" where
  "coalesce a b = (case a of None \<Rightarrow> b | Some x \<Rightarrow> Some x)"

subsection \<open>Calls over a connection\<close>

text \<open>
  A statement sent over the connection runs and is answered; or it fails before it had
  any effect; or it takes effect and the answer is lost (a connection that breaks after
  the commit). The client sees an error in the last two cases and cannot tell them apart.
\<close>

datatype fault = NoFault | FaultBefore string | FaultAfter string

fun db_call :: "fault \<Rightarrow> ('s \<Rightarrow> ('e + 'a) \<times> 's) \<Rightarrow> (string \<Rightarrow> 'e) \<Rightarrow> 's \<Rightarrow> ('e + 'a) \<times> 's" where
  "db_call NoFault f mk s = f s"
| "db_call (FaultBefore e) f mk s = (Inl (mk e), s)"
| "db_call (FaultAfter e) f mk s = (Inl (mk e), snd (f s))"

text \<open>Whether the statement of a call took effect.\<close>

fun takes_effect :: "fault \<Rightarrow> bool" where
  "takes_effect (FaultBefore m) = False"
| "takes_effect flt = True"

subsection \<open>Facts about tables\<close>

lemma update_where_Nil [simp]: "update_where P f [] = []"
  by (simp add: update_where_def)

lemma update_where_Cons [simp]:
  "update_where P f (r # rs) = (if P r then f r else r) # update_where P f rs"
  by (simp add: update_where_def)

lemma length_update_where [simp]: "length (update_where P f rs) = length rs"
  by (simp add: update_where_def)

lemma set_update_where: "set (update_where P f rs) = (\<lambda>r. if P r then f r else r) ` set rs"
  by (simp add: update_where_def)

lemma map_update_where:
  "(\<And>r. P r \<Longrightarrow> g (f r) = g r) \<Longrightarrow> map g (update_where P f rs) = map g rs"
  by (simp add: update_where_def)

lemma image_update_where:
  "(\<And>r. P r \<Longrightarrow> g (f r) = g r) \<Longrightarrow> g ` set (update_where P f rs) = g ` set rs"
  by (metis list.set_map map_update_where)

lemma update_where_none: "(\<And>r. r \<in> set rs \<Longrightarrow> \<not> P r) \<Longrightarrow> update_where P f rs = rs"
  by (induction rs) auto

lemma update_where_fuse:
  "(\<And>r. P r \<Longrightarrow> P (f r)) \<Longrightarrow> update_where P g (update_where P f rs) = update_where P (g \<circ> f) rs"
  by (induction rs) auto

lemma unique_on_update_where:
  "(\<And>r. P r \<Longrightarrow> k (f r) = k r) \<Longrightarrow> unique_on k (update_where P f rs) = unique_on k rs"
  by (simp add: unique_on_def map_update_where)

lemma unique_on_append1 [table_simps]:
  "unique_on k (rs @ [r]) \<longleftrightarrow> unique_on k rs \<and> k r \<notin> k ` set rs"
  by (auto simp: unique_on_def)

lemma unique_on_Nil [simp]: "unique_on k []"
  by (simp add: unique_on_def)

lemma unique_onD:
  "unique_on k rs \<Longrightarrow> r \<in> set rs \<Longrightarrow> r' \<in> set rs \<Longrightarrow> k r = k r' \<Longrightarrow> r = r'"
  by (induction rs) (auto simp: unique_on_def rev_image_eqI)

lemma select_by_Nil [simp]: "select_by k x [] = None"
  by (simp add: select_by_def)

lemma select_by_Cons [simp]:
  "select_by k x (r # rs) = (if k r = x then Some r else select_by k x rs)"
  by (simp add: select_by_def)

lemma select_by_None: "select_by k x rs = None \<longleftrightarrow> x \<notin> k ` set rs"
  by (induction rs) auto

lemma select_by_SomeD: "select_by k x rs = Some r \<Longrightarrow> r \<in> set rs \<and> k r = x"
  by (induction rs) (auto split: if_splits)

lemma select_by_mem: "unique_on k rs \<Longrightarrow> r \<in> set rs \<Longrightarrow> select_by k (k r) rs = Some r"
  by (induction rs) (auto simp: unique_on_def rev_image_eqI)

lemma select_by_append1 [table_simps]:
  "select_by k x (rs @ [r]) =
     (case select_by k x rs of None \<Rightarrow> (if k r = x then Some r else None) | Some r' \<Rightarrow> Some r')"
  by (induction rs) auto

lemma select_by_update_where:
  assumes "\<And>r. P r \<Longrightarrow> k (f r) = k r"
  shows "select_by k x (update_where P f rs) =
    map_option (\<lambda>r. if P r then f r else r) (select_by k x rs)"
  using assms by (induction rs) auto

lemma select_by_update_key [table_simps]:
  assumes "\<And>r. k (f r) = k r"
  shows "select_by k x (update_where (\<lambda>r. k r = y) f rs) =
    (if x = y then map_option f (select_by k x rs) else select_by k x rs)"
  using assms by (induction rs) auto

lemma first_by_None [simp]: "first_by k rs = None \<longleftrightarrow> rs = []"
  by (cases rs) (auto split: option.splits if_splits)

lemma first_by_SomeD:
  "first_by k rs = Some r \<Longrightarrow> r \<in> set rs \<and> (\<forall>r' \<in> set rs. k r \<le> k r')"
proof (induction rs arbitrary: r)
  case Nil
  then show ?case by simp
next
  case (Cons a rs)
  show ?case
  proof (cases "first_by k rs")
    case None
    with Cons.prems show ?thesis by simp
  next
    case (Some b)
    with Cons.IH have "b \<in> set rs" "\<forall>r' \<in> set rs. k b \<le> k r'" by auto
    with Some Cons.prems show ?thesis by (force split: if_splits)
  qed
qed

lemma coalesce_simps [simp]: "coalesce None b = b" "coalesce (Some x) b = Some x"
  by (simp_all add: coalesce_def)

lemma nullif_empty_Some [simp]: "nullif_empty s = Some t \<longleftrightarrow> s = t \<and> t \<noteq> []"
  by (auto simp: nullif_empty_def)

lemma nullif_empty_None [simp]: "nullif_empty s = None \<longleftrightarrow> s = []"
  by (auto simp: nullif_empty_def)

text \<open>Whatever the fault, the state after a call is the one before it or the one the statement makes.\<close>

lemma db_call_state: "snd (db_call flt f mk s) = s \<or> snd (db_call flt f mk s) = snd (f s)"
  by (cases flt) auto

lemma db_call_pres: "I s \<Longrightarrow> (I s \<Longrightarrow> I (snd (f s))) \<Longrightarrow> I (snd (db_call flt f mk s))"
  by (cases flt) auto

lemma db_call_Inr: "db_call flt f mk s = (Inr a, s') \<Longrightarrow> f s = (Inr a, s')"
  by (cases flt) auto

lemma update_where_cong:
  "(\<And>x. x \<in> set rs \<Longrightarrow> P x \<Longrightarrow> f x = g x) \<Longrightarrow> update_where P f rs = update_where P g rs"
  by (simp add: update_where_def)

lemma unique_on_filter: "unique_on k rs \<Longrightarrow> unique_on k (filter P rs)"
  by (simp add: unique_on_def distinct_map_filter)

lemma unique_on_sorted [simp]: "unique_on k (sort_key f rs) \<longleftrightarrow> unique_on k rs"
  by (simp add: unique_on_def distinct_map)

lemma first_by_sort: "first_by k rs = (case sort_key k rs of [] \<Rightarrow> None | r # _ \<Rightarrow> Some r)"
proof (induction rs)
  case (Cons a rs)
  then show ?case by (cases "sort_key k rs") auto
qed simp

end
