(* ===== verification/Go_Strings.thy ===== *)
theory Go_Strings
  imports Prelude
begin

text \<open>
  Go strings are byte sequences (\<open>string\<close>, a list of 8-bit characters), read as UTF-8 where
  the language or its library looks at characters. This theory models what the program uses
  of package \<open>strings\<close> and of the decoding rules: a malformed byte is the replacement
  character of width one, \<open>ToUpper\<close> has a byte-wise path for ASCII strings and maps the
  characters of all others, and \<open>TrimSpace\<close> removes Unicode white space at both ends. The
  case tables beyond ASCII, and the quoting of the verb \<open>%q\<close>, which depends on the table of
  printable characters, are the parameter \<open>unicode\<close>.
\<close>

type_synonym rune = nat

record unicode =
  uni_upper :: "rune \<Rightarrow> rune"
  uni_lower :: "rune \<Rightarrow> rune"
  go_quote :: "string \<Rightarrow> string"

definition RuneError :: rune where
  "RuneError = 65533"

definition byte :: "char \<Rightarrow> nat" where
  [simp]: "byte c = of_char c"

definition chr :: "nat \<Rightarrow> char" where
  [simp]: "chr n = char_of n"

definition in_range :: "nat \<Rightarrow> nat \<Rightarrow> char \<Rightarrow> bool" where
  [simp]: "in_range lo hi c \<longleftrightarrow> lo \<le> byte c \<and> byte c \<le> hi"

subsection \<open>Decoding and encoding\<close>

text \<open>
  The first character of \<open>c # cs\<close> and the number of further bytes it takes. The bounds on
  the second byte exclude overlong forms, surrogates and values above 0x10FFFF.
\<close>

definition decode1 :: "char \<Rightarrow> string \<Rightarrow> rune \<times> nat" where
  "decode1 c cs =
     (let b = byte c in
      if b < 128 then (b, 0)
      else if b < 194 \<or> 244 < b then (RuneError, 0)
      else if b < 224 then
        (case cs of
           c1 # _ \<Rightarrow> if in_range 128 191 c1 then (b mod 32 * 64 + byte c1 mod 64, 1) else (RuneError, 0)
         | _ \<Rightarrow> (RuneError, 0))
      else if b < 240 then
        (case cs of
           c1 # c2 # _ \<Rightarrow>
             if in_range (if b = 224 then 160 else 128) (if b = 237 then 159 else 191) c1 \<and> in_range 128 191 c2
             then (b mod 16 * 4096 + byte c1 mod 64 * 64 + byte c2 mod 64, 2) else (RuneError, 0)
         | _ \<Rightarrow> (RuneError, 0))
      else
        (case cs of
           c1 # c2 # c3 # _ \<Rightarrow>
             if in_range (if b = 240 then 144 else 128) (if b = 244 then 143 else 191) c1
                \<and> in_range 128 191 c2 \<and> in_range 128 191 c3
             then (b mod 8 * 262144 + byte c1 mod 64 * 4096 + byte c2 mod 64 * 64 + byte c3 mod 64, 3)
             else (RuneError, 0)
         | _ \<Rightarrow> (RuneError, 0)))"

text \<open>The characters of a string, each with the bytes it was read from.\<close>

fun chunks :: "string \<Rightarrow> (rune \<times> string) list" where
  "chunks [] = []"
| "chunks (c # cs) =
     (let (r, n) = decode1 c cs in (r, c # take n cs) # chunks (drop n cs))"

definition runes :: "string \<Rightarrow> rune list" where
  "runes s = map fst (chunks s)"

definition valid_rune :: "rune \<Rightarrow> bool" where
  "valid_rune r \<longleftrightarrow> r < 55296 \<or> (57344 \<le> r \<and> r < 1114112)"

definition encode1 :: "rune \<Rightarrow> string" where
  "encode1 r0 =
     (let r = (if valid_rune r0 then r0 else RuneError) in
      if r < 128 then [chr r]
      else if r < 2048 then [chr (192 + r div 64), chr (128 + r mod 64)]
      else if r < 65536 then
        [chr (224 + r div 4096), chr (128 + r div 64 mod 64), chr (128 + r mod 64)]
      else
        [chr (240 + r div 262144), chr (128 + r div 4096 mod 64),
         chr (128 + r div 64 mod 64), chr (128 + r mod 64)])"

definition encode :: "rune list \<Rightarrow> string" where
  "encode rs = concat (map encode1 rs)"

subsection \<open>Case and white space\<close>

definition is_ascii :: "string \<Rightarrow> bool" where
  "is_ascii s \<longleftrightarrow> list_all (\<lambda>c. byte c < 128) s"

text \<open>\<open>unicode.ToUpper\<close> and \<open>unicode.ToLower\<close>: computed up to 127, from the tables above.\<close>

definition upper_rune :: "unicode \<Rightarrow> rune \<Rightarrow> rune" where
  "upper_rune U r = (if r < 128 then (if 97 \<le> r \<and> r \<le> 122 then r - 32 else r) else uni_upper U r)"

definition lower_rune :: "unicode \<Rightarrow> rune \<Rightarrow> rune" where
  "lower_rune U r = (if r < 128 then (if 65 \<le> r \<and> r \<le> 90 then r + 32 else r) else uni_lower U r)"

definition upper_byte :: "char \<Rightarrow> char" where
  "upper_byte c = (if 97 \<le> byte c \<and> byte c \<le> 122 then chr (byte c - 32) else c)"

definition lower_byte :: "char \<Rightarrow> char" where
  "lower_byte c = (if 65 \<le> byte c \<and> byte c \<le> 90 then chr (byte c + 32) else c)"

definition ToUpper :: "unicode \<Rightarrow> string \<Rightarrow> string" where
  "ToUpper U s =
     (if is_ascii s then map upper_byte s else encode (map (upper_rune U) (runes s)))"

definition ToLower :: "unicode \<Rightarrow> string \<Rightarrow> string" where
  "ToLower U s =
     (if is_ascii s then map lower_byte s else encode (map (lower_rune U) (runes s)))"

definition IsSpace :: "rune \<Rightarrow> bool" where
  "IsSpace r \<longleftrightarrow>
     (9 \<le> r \<and> r \<le> 13) \<or> r = 32 \<or> r = 133 \<or> r = 160 \<or> r = 5760 \<or> (8192 \<le> r \<and> r \<le> 8202)
     \<or> r = 8232 \<or> r = 8233 \<or> r = 8239 \<or> r = 8287 \<or> r = 12288"

definition TrimSpace :: "string \<Rightarrow> string" where
  "TrimSpace s =
     (let keep = dropWhile (\<lambda>p. IsSpace (fst p)) (chunks s);
          keep' = rev (dropWhile (\<lambda>p. IsSpace (fst p)) (rev keep))
      in concat (map snd keep'))"

text \<open>\<open>strings.Contains(s, sub)\<close> and \<open>strings.TrimRight(s, "/")\<close> with a one-character cutset.\<close>

fun Contains :: "string \<Rightarrow> string \<Rightarrow> bool" where
  "Contains [] sub = (sub = [])"
| "Contains (c # cs) sub = (take (length sub) (c # cs) = sub \<or> Contains cs sub)"

definition TrimRight1 :: "char \<Rightarrow> string \<Rightarrow> string" where
  "TrimRight1 c s = rev (dropWhile (\<lambda>d. d = c) (rev s))"

text \<open>
  What Unicode documents about the case tables: the upper case of a character is a
  character, upper-casing twice changes nothing more, and no character becomes white space.
\<close>

definition unicode_ok :: "unicode \<Rightarrow> bool" where
  "unicode_ok U \<longleftrightarrow>
     (\<forall>r. valid_rune r \<longrightarrow> valid_rune (upper_rune U r)
        \<and> upper_rune U (upper_rune U r) = upper_rune U r
        \<and> (IsSpace (upper_rune U r) \<longrightarrow> IsSpace r))"

text \<open>A string with no white space at either end.\<close>

definition trimmed :: "rune list \<Rightarrow> bool" where
  "trimmed rs \<longleftrightarrow> rs = [] \<or> \<not> IsSpace (hd rs) \<and> \<not> IsSpace (last rs)"

text \<open>White space among the ASCII bytes.\<close>

definition space_byte :: "char \<Rightarrow> bool" where
  "space_byte c \<longleftrightarrow> IsSpace (byte c)"

subsection \<open>Decoding facts\<close>

lemma decode1_ascii [simp]: "of_char c < (128::nat) \<Longrightarrow> decode1 c cs = (of_char c, 0)"
  by (simp add: decode1_def)

lemma decode1_width: "decode1 c cs = (r, n) \<Longrightarrow> n \<le> length cs"
  by (auto simp: decode1_def Let_def split: if_splits list.splits)

lemma concat_chunks [simp]: "concat (map snd (chunks s)) = s"
proof (induction s rule: chunks.induct)
  case (2 c cs)
  then show ?case by (cases "decode1 c cs") (auto simp: Let_def)
qed simp

lemma chunks_ascii: "is_ascii s \<Longrightarrow> chunks s = map (\<lambda>c. (of_char c, [c])) s"
  by (induction s) (auto simp: is_ascii_def)

lemma decode1_prefix:
  assumes "decode1 c (p @ q) = (r, n)" and "n \<le> length p"
  shows "decode1 c p = (r, n)"
proof -
  consider "p = []" | a where "p = [a]" | a b where "p = [a, b]" | a b d p' where "p = a # b # d # p'"
    by (metis list.exhaust)
  then show ?thesis
  proof cases
    case 1
    with assms show ?thesis unfolding decode1_def Let_def
      by (auto simp del: byte_def in_range_def split: if_split_asm list.splits)
  next
    case 2
    with assms show ?thesis unfolding decode1_def Let_def
      by (auto simp del: byte_def in_range_def split: if_split_asm list.splits)
  next
    case 3
    with assms show ?thesis unfolding decode1_def Let_def
      by (auto simp del: byte_def in_range_def split: if_split_asm list.splits)
  next
    case 4
    then have "decode1 c (p @ q) = decode1 c p"
      by (simp only: decode1_def list.case append_Cons)
    with assms show ?thesis by simp
  qed
qed

lemma chunks_take: "chunks (concat (map snd (take k (chunks s)))) = take k (chunks s)"
proof (induction s arbitrary: k rule: chunks.induct)
  case (2 c cs)
  obtain r n where d: "decode1 c cs = (r, n)" by fastforce
  show ?case
  proof (cases k)
    case (Suc j)
    let ?rest = "concat (map snd (take j (chunks (drop n cs))))"
    have split: "drop n cs = ?rest @ concat (map snd (drop j (chunks (drop n cs))))"
      by (metis append_take_drop_id concat_append concat_chunks map_append)
    have n: "n \<le> length cs" using d by (rule decode1_width)
    have "cs = (take n cs @ ?rest) @ concat (map snd (drop j (chunks (drop n cs))))"
      using split by (metis append.assoc append_take_drop_id)
    then have "decode1 c (take n cs @ ?rest) = (r, n)"
      using d n by (metis decode1_prefix length_append length_take min.absorb2 trans_le_add1 order_refl)
    then show ?thesis
      using Suc d n 2 [OF _ refl] by (simp add: d)
  qed simp
qed simp

lemma chunks_drop: "chunks (concat (map snd (drop k (chunks s)))) = drop k (chunks s)"
proof (induction s arbitrary: k rule: chunks.induct)
  case (2 c cs)
  obtain r n where d: "decode1 c cs = (r, n)" by fastforce
  then show ?case
    using 2 [of "(r, n)" r n] concat_chunks [of "c # cs"] by (cases k) (auto simp del: concat_chunks)
qed simp
lemma add_mult_mod: "(a::nat) < m \<Longrightarrow> (k * m + a) mod m = a"
  by simp

lemma digits64_3: "(r::nat) = r div 4096 * 4096 + r div 64 mod 64 * 64 + r mod 64"
proof -
  have "r div 64 * 64 + r mod 64 = r" by (rule div_mult_mod_eq)
  moreover have "r div 4096 * 64 + r div 64 mod 64 = r div 64"
    using div_mult_mod_eq [of "r div 64" 64] by (simp add: div_mult2_eq [symmetric])
  ultimately show ?thesis by linarith
qed

lemma digits64_4: "(r::nat) = r div 262144 * 262144 + r div 4096 mod 64 * 4096 + r div 64 mod 64 * 64 + r mod 64"
proof -
  have "r div 262144 * 64 + r div 4096 mod 64 = r div 4096"
    using div_mult_mod_eq [of "r div 4096" 64] by (simp add: div_mult2_eq [symmetric])
  then show ?thesis using digits64_3 [of r] by linarith
qed

lemma decode1_two:
  assumes "2 \<le> a" "a < 32" "b < 64"
  shows "decode1 (char_of (192 + a)) (char_of (128 + b) # s) = (a * 64 + b, 1)"
proof -
  have "(192 + a) mod 32 = a" "(128 + b) mod 64 = b"
    using assms add_mult_mod [of a 32 6] add_mult_mod [of b 64 2] by simp_all
  then show ?thesis using assms by (simp add: decode1_def Let_def)
qed

lemma decode1_three:
  assumes "a < 16" "b < 64" "c < 64" "a = 0 \<Longrightarrow> 32 \<le> b" "a = 13 \<Longrightarrow> b < 32"
  shows "decode1 (char_of (224 + a)) (char_of (128 + b) # char_of (128 + c) # s) = (a * 4096 + b * 64 + c, 2)"
proof -
  have "(224 + a) mod 16 = a" "(128 + b) mod 64 = b" "(128 + c) mod 64 = c"
    using assms add_mult_mod [of a 16 14] add_mult_mod [of _ 64 2] by simp_all
  then show ?thesis using assms by (auto simp: decode1_def Let_def)
qed

lemma decode1_four:
  assumes "a < 5" "b < 64" "c < 64" "d < 64" "a = 0 \<Longrightarrow> 16 \<le> b" "a = 4 \<Longrightarrow> b < 16"
  shows "decode1 (char_of (240 + a)) (char_of (128 + b) # char_of (128 + c) # char_of (128 + d) # s)
    = (a * 262144 + b * 4096 + c * 64 + d, 3)"
proof -
  have "(240 + a) mod 8 = a" "(128 + b) mod 64 = b" "(128 + c) mod 64 = c" "(128 + d) mod 64 = d"
    using assms add_mult_mod [of a 8 30] add_mult_mod [of _ 64 2] by simp_all
  then show ?thesis using assms by (auto simp: decode1_def Let_def)
qed

lemma decode1_encode1:
  assumes "valid_rune r"
  shows "\<exists>c cs. encode1 r = c # cs \<and> decode1 c (cs @ s) = (r, length cs)"
proof -
  consider "r < 128" | "128 \<le> r" "r < 2048" | "2048 \<le> r" "r < 65536" | "65536 \<le> r"
    by linarith
  then show ?thesis
  proof cases
    case 1
    with assms show ?thesis by (simp add: encode1_def decode1_def)
  next
    case 2
    have "2 \<le> r div 64" "r div 64 < 32" using 2 by auto
    then show ?thesis using 2 assms decode1_two [of "r div 64" "r mod 64" s]
      by (simp add: encode1_def)
  next
    case 3
    define a where "a = r div 4096"
    define b where "b = r div 64 mod 64"
    define c where "c = r mod 64"
    have r: "r = a * 4096 + b * 64 + c" and bc: "b < 64" "c < 64"
      unfolding a_def b_def c_def by (rule digits64_3, simp_all)
    have "a < 16" "a = 0 \<Longrightarrow> 32 \<le> b" "a = 13 \<Longrightarrow> b < 32"
      using 3 r bc assms unfolding valid_rune_def by linarith+
    then have "decode1 (char_of (224 + a)) (char_of (128 + b) # char_of (128 + c) # s) = (r, 2)"
      using decode1_three bc r by simp
    then show ?thesis
      using 3 assms by (simp add: encode1_def a_def b_def c_def)
  next
    case 4
    define a where "a = r div 262144"
    define b where "b = r div 4096 mod 64"
    define c where "c = r div 64 mod 64"
    define d where "d = r mod 64"
    have r: "r = a * 262144 + b * 4096 + c * 64 + d" and bc: "b < 64" "c < 64" "d < 64"
      unfolding a_def b_def c_def d_def by (rule digits64_4, simp_all)
    have "a < 5" "a = 0 \<Longrightarrow> 16 \<le> b" "a = 4 \<Longrightarrow> b < 16"
      using 4 r bc assms unfolding valid_rune_def by linarith+
    then have "decode1 (char_of (240 + a)) (char_of (128 + b) # char_of (128 + c) # char_of (128 + d) # s)
      = (r, 3)"
      using decode1_four bc r by simp
    then show ?thesis
      using 4 assms by (simp add: encode1_def a_def b_def c_def d_def)
  qed
qed
lemma chunks_encode:
  assumes "\<forall>r \<in> set rs. valid_rune r"
  shows "chunks (encode rs) = map (\<lambda>r. (r, encode1 r)) rs"
  using assms
proof (induction rs)
  case (Cons r rs)
  from Cons.prems have "valid_rune r" by simp
  then obtain c cs where e: "encode1 r = c # cs" and d: "decode1 c (cs @ encode rs) = (r, length cs)"
    using decode1_encode1 by blast
  from e d Cons show ?case by (simp add: encode_def)
qed (simp add: encode_def)

lemma runes_encode: "\<forall>r \<in> set rs. valid_rune r \<Longrightarrow> runes (encode rs) = rs"
  by (simp add: runes_def chunks_encode o_def)

lemma mod64_less: "n mod 64 < (64::nat)"
  by simp

lemma mod64_cont: "128 \<le> n \<Longrightarrow> n \<le> 191 \<Longrightarrow> n mod 64 = n - (128::nat)"
  using add_mult_mod [of "n - 128" 64 2] by simp

lemma three_byte_valid:
  assumes b: "224 \<le> b" "b < 240" and "u < 64" "v < 64" "b = 237 \<Longrightarrow> u < 32"
  shows "valid_rune ((b - 224) * 4096 + u * 64 + v)"
proof -
  obtain x where x: "b = 224 + x" using b le_Suc_ex by blast
  consider "x \<le> 12" | "x = 13" | "14 \<le> x" by linarith
  then show ?thesis
    using assms x unfolding valid_rune_def by cases simp_all
qed

lemma decode1_3D:
  assumes "decode1 c cs = (r, n)" and b: "224 \<le> byte c" "byte c < 240" and "r \<noteq> RuneError"
  shows "\<exists>u v. u < 64 \<and> v < 64 \<and> r = (byte c - 224) * 4096 + u * 64 + v
    \<and> (byte c = 224 \<longrightarrow> 32 \<le> u) \<and> (byte c = 237 \<longrightarrow> u < 32)"
proof -
  from assms obtain c1 c2 where
    r: "r = byte c mod 16 * 4096 + byte c1 mod 64 * 64 + byte c2 mod 64" and
    c1: "in_range (if byte c = 224 then 160 else 128) (if byte c = 237 then 159 else 191) c1"
    unfolding decode1_def Let_def by (force simp del: byte_def in_range_def split: list.splits if_split_asm)
  have "byte c mod 16 = byte c - 224" using b add_mult_mod [of "byte c - 224" 16 14] by simp
  moreover have "byte c = 237 \<Longrightarrow> byte c1 mod 64 < 32" "byte c = 224 \<Longrightarrow> 32 \<le> byte c1 mod 64"
    using c1 mod64_cont [of "byte c1"] by auto
  ultimately show ?thesis using r mod64_less by metis
qed

lemma decode1_4D:
  assumes "decode1 c cs = (r, n)" and b: "240 \<le> byte c" "byte c \<le> 244" and "r \<noteq> RuneError"
  shows "\<exists>u v w. u < 64 \<and> v < 64 \<and> w < 64 \<and> r = (byte c - 240) * 262144 + u * 4096 + v * 64 + w
    \<and> (byte c = 240 \<longrightarrow> 16 \<le> u) \<and> (byte c = 244 \<longrightarrow> u < 16)"
proof -
  from assms obtain c1 c2 c3 where
    r: "r = byte c mod 8 * 262144 + byte c1 mod 64 * 4096 + byte c2 mod 64 * 64 + byte c3 mod 64" and
    c1: "in_range (if byte c = 240 then 144 else 128) (if byte c = 244 then 143 else 191) c1"
    unfolding decode1_def Let_def by (force simp del: byte_def in_range_def split: list.splits if_split_asm)
  have "byte c mod 8 = byte c - 240" using b add_mult_mod [of "byte c - 240" 8 30] by simp
  moreover have "byte c = 244 \<Longrightarrow> byte c1 mod 64 < 16" "byte c = 240 \<Longrightarrow> 16 \<le> byte c1 mod 64"
    using c1 mod64_cont [of "byte c1"] by auto
  ultimately show ?thesis using r mod64_less by metis
qed

lemma decode1_valid3:
  assumes "decode1 c cs = (r, n)" and b: "224 \<le> byte c" "byte c < 240"
  shows "valid_rune r"
proof (cases "r = RuneError")
  case False
  with assms show ?thesis using decode1_3D three_byte_valid by (metis (no_types))
qed (simp add: valid_rune_def RuneError_def)

lemma decode1_valid4:
  assumes "decode1 c cs = (r, n)" and b: "240 \<le> byte c" "byte c \<le> 244"
  shows "valid_rune r"
proof (cases "r = RuneError")
  case False
  obtain x where x: "byte c = 240 + x" using b(1) le_Suc_ex by blast
  obtain u v w where uvw: "u < 64" "v < 64" "w < 64" "r = (byte c - 240) * 262144 + u * 4096 + v * 64 + w"
    "byte c = 240 \<longrightarrow> 16 \<le> u" "byte c = 244 \<longrightarrow> u < 16"
    using decode1_4D [OF assms False] by blast
  consider "x = 0" | "1 \<le> x" "x \<le> 3" | "x = 4" using b x by linarith
  then show ?thesis using uvw x unfolding valid_rune_def by cases simp_all
qed (simp add: valid_rune_def RuneError_def)

lemma decode1_nonascii:
  assumes "\<not> byte c < 128" and d: "decode1 c cs = (r, n)"
  shows "128 \<le> r"
proof (cases "r = RuneError")
  case False
  consider "byte c < 194 \<or> 244 < byte c" | "194 \<le> byte c" "byte c < 224"
    | "224 \<le> byte c" "byte c < 240" | "240 \<le> byte c" "byte c \<le> 244" by linarith
  then show ?thesis
  proof cases
    case 1
    with assms False show ?thesis unfolding decode1_def Let_def
      by (auto simp del: byte_def in_range_def)
  next
    case 2
    have "byte c mod 32 = byte c - 192" using 2 add_mult_mod [of "byte c - 192" 32 6] by simp
    then have "128 \<le> byte c mod 32 * 64 + x" for x using 2 by linarith
    with assms 2 False show ?thesis unfolding decode1_def Let_def
      by (auto simp del: byte_def in_range_def split: list.splits if_split_asm)
  next
    case 3
    with decode1_3D [OF d _ _ False] show ?thesis by (cases "byte c = 224") auto
  next
    case 4
    with decode1_4D [OF d _ _ False] show ?thesis by (cases "byte c = 240") auto
  qed
qed (simp add: RuneError_def)

lemma decode1_valid:
  assumes d: "decode1 c cs = (r, n)"
  shows "valid_rune r"
proof -
  have "byte c < 256" by simp
  consider "byte c < 224 \<or> 244 < byte c" | "224 \<le> byte c" "byte c < 240" | "240 \<le> byte c" "byte c \<le> 244"
    by linarith
  then show ?thesis
  proof cases
    case 1
    have "r = RuneError \<or> r < 2048"
    proof (cases "byte c < 128 \<or> 194 \<le> byte c \<and> byte c < 224")
      case True
      have "byte c mod 32 * 64 + byte d mod 64 < 2048" for d
        using mod64_less [of "byte d"] mod_less_divisor [of 32 "byte c"] by linarith
      with d True show ?thesis unfolding decode1_def Let_def
        by (auto simp del: byte_def in_range_def split: list.splits if_split_asm)
    next
      case False
      with d 1 show ?thesis unfolding decode1_def Let_def
        by (auto simp del: byte_def in_range_def split: if_split_asm)
    qed
    then show ?thesis by (auto simp: valid_rune_def RuneError_def)
  qed (use d decode1_valid3 decode1_valid4 in blast)+
qed

lemma chunks_valid: "p \<in> set (chunks s) \<Longrightarrow> valid_rune (fst p)"
proof (induction s rule: chunks.induct)
  case (2 c cs)
  obtain r n where "decode1 c cs = (r, n)" by fastforce
  with 2 show ?case by (auto dest: decode1_valid)
qed simp

lemma runes_valid: "\<forall>r \<in> set (runes s). valid_rune r"
  by (auto simp: runes_def dest: chunks_valid)

lemma chunks_TrimSpace:
  "chunks (TrimSpace s) =
     rev (dropWhile (\<lambda>p. IsSpace (fst p)) (rev (dropWhile (\<lambda>p. IsSpace (fst p)) (chunks s))))"
proof -
  let ?P = "\<lambda>p. IsSpace (fst p)"
  define m where "m = length (takeWhile ?P (chunks s))"
  define s' where "s' = concat (map snd (drop m (chunks s)))"
  have d: "dropWhile ?P (chunks s) = chunks s'"
    by (simp add: s'_def m_def chunks_drop dropWhile_eq_drop)
  define k where "k = length (chunks s') - length (takeWhile ?P (rev (chunks s')))"
  have "rev (dropWhile ?P (rev (chunks s'))) = take k (chunks s')"
    by (simp add: k_def dropWhile_eq_drop rev_drop)
  then show ?thesis by (simp add: TrimSpace_def d chunks_take)
qed

lemma trimmed_TrimSpace: "trimmed (runes (TrimSpace s))"
proof -
  let ?P = "\<lambda>p. IsSpace (fst p)"
  define ys where "ys = dropWhile ?P (chunks s)"
  define zs where "zs = rev (dropWhile ?P (rev ys))"
  have "ys = zs @ rev (takeWhile ?P (rev ys))"
    unfolding zs_def by (metis rev_append rev_rev_ident takeWhile_dropWhile_id)
  then have "zs \<noteq> [] \<Longrightarrow> hd zs = hd ys \<and> ys \<noteq> []"
    by (metis append_is_Nil_conv hd_append2)
  moreover have "ys \<noteq> [] \<Longrightarrow> \<not> ?P (hd ys)" unfolding ys_def by (rule hd_dropWhile)
  moreover have "zs \<noteq> [] \<Longrightarrow> \<not> ?P (last zs)"
    unfolding zs_def last_rev by (rule hd_dropWhile) simp
  moreover have "runes (TrimSpace s) = map fst zs"
    by (simp only: runes_def chunks_TrimSpace zs_def ys_def)
  ultimately show ?thesis
    by (cases "zs = []") (simp_all add: trimmed_def hd_map last_map)
qed

lemma TrimSpace_trimmed: "trimmed (runes s) \<Longrightarrow> TrimSpace s = s"
proof (cases "chunks s")
  case Nil
  then show ?thesis using concat_chunks [of s] by (simp add: TrimSpace_def)
next
  case (Cons p ps)
  assume "trimmed (runes s)"
  then have h: "\<not> IsSpace (fst p)" and l: "\<not> IsSpace (fst (last (p # ps)))"
    using Cons by (auto simp: trimmed_def runes_def last_map split: if_splits)
  from h have "dropWhile (\<lambda>p. IsSpace (fst p)) (chunks s) = p # ps" using Cons by simp
  moreover have "dropWhile (\<lambda>p. IsSpace (fst p)) (rev (p # ps)) = rev (p # ps)"
    using l by (metis dropWhile_eq_self_iff hd_rev)
  ultimately show ?thesis using concat_chunks [of s] Cons by (simp add: TrimSpace_def del: rev.simps)
qed

lemma TrimSpace_idem: "TrimSpace (TrimSpace s) = TrimSpace s"
  by (simp add: TrimSpace_trimmed trimmed_TrimSpace)


text \<open>Upper-casing: once is enough, and it adds no white space.\<close>

lemma upper_rune_ascii: "byte c < 128 \<Longrightarrow> upper_rune U (byte c) = byte (upper_byte c)"
  by (auto simp: upper_rune_def upper_byte_def)

lemma is_ascii_upper: "is_ascii s \<Longrightarrow> is_ascii (map upper_byte s)"
  by (auto simp: is_ascii_def list_all_iff upper_byte_def)

lemma upper_byte_idem: "upper_byte (upper_byte c) = upper_byte c"
  by (auto simp: upper_byte_def)

lemma runes_ascii: "is_ascii s \<Longrightarrow> runes s = map byte s"
  by (simp add: runes_def chunks_ascii)

lemma runes_ToUpper:
  assumes "unicode_ok U"
  shows "runes (ToUpper U s) = map (upper_rune U) (runes s)"
proof (cases "is_ascii s")
  case True
  then have "list_all (\<lambda>c. byte c < 128) s" by (simp add: is_ascii_def)
  then have "map (byte \<circ> upper_byte) s = map (upper_rune U \<circ> byte) s"
    by (induction s) (simp_all add: upper_rune_ascii del: byte_def)
  with True show ?thesis by (simp add: ToUpper_def runes_ascii is_ascii_upper del: byte_def)
next
  case False
  have "\<forall>r \<in> set (map (upper_rune U) (runes s)). valid_rune r"
    using assms runes_valid [of s] by (auto simp: unicode_ok_def)
  with False show ?thesis by (simp add: ToUpper_def runes_encode)
qed

lemma encode_ascii: "is_ascii s \<Longrightarrow> encode (map byte s) = s"
  by (induction s) (auto simp: is_ascii_def encode_def encode1_def valid_rune_def)

lemma ToUpper_idem:
  assumes "unicode_ok U"
  shows "ToUpper U (ToUpper U s) = ToUpper U s"
proof -
  let ?t = "ToUpper U s"
  have r: "map (upper_rune U) (runes ?t) = runes ?t"
    using assms runes_valid [of s] by (auto simp: runes_ToUpper unicode_ok_def)
  show ?thesis
  proof (cases "is_ascii s")
    case True
    then show ?thesis by (simp add: ToUpper_def is_ascii_upper upper_byte_idem)
  next
    case False
    then have e: "?t = encode (runes ?t)"
      using runes_ToUpper [OF assms, of s] by (simp add: ToUpper_def)
    show ?thesis
    proof (cases "is_ascii ?t")
      case True
      then have "\<forall>c \<in> set ?t. byte (upper_byte c) = byte c"
        using r upper_rune_ascii by (fastforce simp: runes_ascii is_ascii_def list_all_iff)
      then have "map upper_byte ?t = ?t" by (simp add: map_idI)
      with True show ?thesis by (simp add: ToUpper_def [of U ?t])
    next
      case False
      then show ?thesis using e r by (simp add: ToUpper_def [of U ?t])
    qed
  qed
qed

lemma trimmed_upper:
  assumes "unicode_ok U" and "\<forall>r \<in> set rs. valid_rune r" and "trimmed rs"
  shows "trimmed (map (upper_rune U) rs)"
  using assms by (cases "rs = []") (auto simp: trimmed_def hd_map last_map unicode_ok_def)

lemma ToUpper_TrimSpace_idem:
  assumes "unicode_ok U"
  shows "ToUpper U (TrimSpace (ToUpper U (TrimSpace s))) = ToUpper U (TrimSpace s)"
proof -
  have "trimmed (runes (ToUpper U (TrimSpace s)))"
    using assms by (simp add: runes_ToUpper trimmed_upper runes_valid trimmed_TrimSpace)
  then show ?thesis using assms by (simp add: TrimSpace_trimmed ToUpper_idem)
qed

subsection \<open>Evaluation on ASCII strings\<close>

lemma dropWhile_map_fst: "dropWhile (\<lambda>p. P (fst p)) (map (\<lambda>c. (f c, [c])) s) = map (\<lambda>c. (f c, [c])) (dropWhile (\<lambda>c. P (f c)) s)"
  by (induction s) auto

lemma concat_singletons: "concat (map (snd \<circ> (\<lambda>c. (f c, [c]))) s) = s"
  by (induction s) auto

lemma TrimSpace_ascii:
  assumes "is_ascii s"
  shows "TrimSpace s = rev (dropWhile space_byte (rev (dropWhile space_byte s)))"
proof -
  let ?g = "\<lambda>c::char. (of_char c :: nat, [c])"
  have d: "dropWhile (\<lambda>p. IsSpace (fst p)) (map ?g t) = map ?g (dropWhile space_byte t)" for t
    by (simp add: dropWhile_map_fst space_byte_def [abs_def])
  have "TrimSpace s = concat (map (snd \<circ> ?g) (rev (dropWhile space_byte (rev (dropWhile space_byte s)))))"
    using assms by (simp only: TrimSpace_def Let_def chunks_ascii d rev_map map_map)
  then show ?thesis by (simp only: concat_singletons)
qed

lemma is_ascii_append [simp]: "is_ascii (s @ t) \<longleftrightarrow> is_ascii s \<and> is_ascii t"
  by (simp add: is_ascii_def)

lemma TrimSpace_no_ends:
  assumes "is_ascii (c # s @ [d])" "\<not> space_byte c" "\<not> space_byte d"
  shows "TrimSpace (c # s @ [d]) = c # s @ [d]"
  using assms by (simp add: TrimSpace_ascii)

lemmas string_eval = TrimSpace_ascii is_ascii_def space_byte_def IsSpace_def ToUpper_def ToLower_def
  upper_byte_def lower_byte_def runes_ascii char_of_def bit_0

end
