(* ===== verification/Go_Base.thy ===== *)
theory Go_Base
  imports Complex_Main Go_Strings
begin

text \<open>
  Values the program passes around that the language provides: errors with their wrapping
  chains, and 64-bit floats as far as the program compares them.
\<close>

subsection \<open>Errors\<close>

text \<open>
  The error values that occur: the driver's "no rows", an error of the database or the
  connection, the context's error, a provider error (\<open>llm.APIError\<close>), a permanent failure
  (\<open>queue.Permanent\<close>), \<open>fmt.Errorf("p%w", e)\<close>, and a plain text error.
\<close>

datatype go_error =
    ErrNoRows
  | PgError string
  | CtxError
  | APIError int bool string
  | Permanent go_error
  | Wrap string go_error
  | ErrText string

text \<open>The method \<open>Error()\<close>.\<close>

fun Error :: "go_error \<Rightarrow> string" where
  "Error ErrNoRows = ''no rows in result set''"
| "Error (PgError m) = m"
| "Error CtxError = ''context canceled''"
| "Error (APIError code r m) = m"
| "Error (Permanent e) = Error e"
| "Error (Wrap p e) = p @ Error e"
| "Error (ErrText m) = m"

text \<open>\<open>Unwrap()\<close>, and the chain \<open>errors.AsType\<close> walks.\<close>

fun unwrap_chain :: "go_error \<Rightarrow> go_error list" where
  "unwrap_chain (Permanent e) = Permanent e # unwrap_chain e"
| "unwrap_chain (Wrap p e) = Wrap p e # unwrap_chain e"
| "unwrap_chain e = [e]"

subsection \<open>Floating point\<close>

datatype float64 = NaN | NegInf | Fin rat | PosInf

fun flt_less :: "float64 \<Rightarrow> float64 \<Rightarrow> bool" where
  "flt_less NaN y = False"
| "flt_less x NaN = False"
| "flt_less NegInf y = (y \<noteq> NegInf)"
| "flt_less x NegInf = False"
| "flt_less PosInf y = False"
| "flt_less x PosInf = True"
| "flt_less (Fin a) (Fin b) = (a < b)"

end
