(* ===== verification/Go_Time.thy ===== *)
theory Go_Time
  imports Go_Base
begin

text \<open>
  The part of package \<open>time\<close> the program parses vendor timestamps with: \<open>time.Parse\<close> on
  layouts built from a four-digit year, two-digit month and day, hour, minute, second and
  a numeric zone. A layout is the list of the literal text before each field and the field,
  as \<open>nextStdChunk\<close> cuts it. A time is an instant: seconds since 1970-01-01 UTC and
  nanoseconds, so \<open>UTC()\<close> does not change it.
\<close>

record gotime =
  unix_sec :: int
  nanosec :: nat

datatype std =
    StdLongYear | StdZeroMonth | StdZeroDay | StdHour | StdZeroMinute | StdZeroSecond
  | StdISO8601ColonTZ | StdNumColonTZ

type_synonym layout = "(string \<times> std) list"

text \<open>\<open>zone_off\<close> is \<open>None\<close> until a zone field was read; \<open>Z\<close> is the offset 0.\<close>

record fields =
  year :: nat
  month :: nat
  day :: nat
  hour :: nat
  minute :: nat
  second :: nat
  nsec :: nat
  zone_off :: "int option"

definition is_digit :: "char \<Rightarrow> bool" where
  "is_digit c \<longleftrightarrow> 48 \<le> byte c \<and> byte c \<le> 57"

definition digit_val :: "char \<Rightarrow> nat" where
  "digit_val c = byte c - 48"

definition num :: "string \<Rightarrow> nat" where
  "num ds = foldl (\<lambda>n c. 10 * n + digit_val c) 0 ds"

text \<open>One or two digits; exactly two when \<open>fixed\<close>.\<close>

fun getnum :: "bool \<Rightarrow> string \<Rightarrow> (nat \<times> string) option" where
  "getnum fixed [] = None"
| "getnum fixed [c] = (if is_digit c \<and> \<not> fixed then Some (digit_val c, []) else None)"
| "getnum fixed (c # d # cs) =
     (if \<not> is_digit c then None
      else if is_digit d then Some (digit_val c * 10 + digit_val d, cs)
      else if fixed then None else Some (digit_val c, d # cs))"

text \<open>Literal text of the layout; a space stands for any run of spaces.\<close>

function skip :: "string \<Rightarrow> string \<Rightarrow> string option" where
  "skip [] v = Some v"
| "skip (p # ps) v =
     (if p = CHR '' '' then
        (if v \<noteq> [] \<and> hd v \<noteq> CHR '' '' then None
         else skip (dropWhile (\<lambda>c. c = CHR '' '') ps) (dropWhile (\<lambda>c. c = CHR '' '') v))
      else (case v of [] \<Rightarrow> None | x # xs \<Rightarrow> if x = p then skip ps xs else None))"
  by pat_completeness auto
termination
  by (relation "measure (\<lambda>(ps, v). length ps)") (auto simp: less_Suc_eq_le length_dropWhile_le)

text \<open>A fraction after the seconds is accepted though the layout has none; nine digits count.\<close>

definition parse_frac :: "string \<Rightarrow> nat \<times> string" where
  "parse_frac v =
     (case v of
        s # c # cs \<Rightarrow>
          if (s = CHR ''.'' \<or> s = CHR '','') \<and> is_digit c
          then (let ds = takeWhile is_digit (c # cs); ds9 = take 9 ds
                in (num ds9 * 10 ^ (9 - length ds9), dropWhile is_digit (c # cs)))
          else (0, v)
      | _ \<Rightarrow> (0, v))"

definition parse_offset :: "string \<Rightarrow> (int \<times> string) option" where
  "parse_offset v =
     (case v of
        sg # h1 # h2 # col # m1 # m2 # rest \<Rightarrow>
          if col \<noteq> CHR '':'' then None
          else (case (getnum True [h1, h2], getnum True [m1, m2]) of
                  (Some (hr, _), Some (mm, _)) \<Rightarrow>
                    if 24 < hr \<or> 60 < mm then None
                    else if sg = CHR ''+'' then Some (int (hr * 60 + mm) * 60, rest)
                    else if sg = CHR ''-'' then Some (- (int (hr * 60 + mm) * 60), rest)
                    else None
                | _ \<Rightarrow> None)
      | _ \<Rightarrow> None)"

fun parse_std :: "std \<Rightarrow> fields \<Rightarrow> string \<Rightarrow> (fields \<times> string) option" where
  "parse_std StdLongYear p v =
     (if length v < 4 \<or> \<not> list_all is_digit (take 4 v) then None
      else Some (p\<lparr>year := num (take 4 v)\<rparr>, drop 4 v))"
| "parse_std StdZeroMonth p v =
     (case getnum True v of None \<Rightarrow> None
      | Some (n, v') \<Rightarrow> if n = 0 \<or> 12 < n then None else Some (p\<lparr>month := n\<rparr>, v'))"
| "parse_std StdZeroDay p v =
     (case getnum True v of None \<Rightarrow> None | Some (n, v') \<Rightarrow> Some (p\<lparr>day := n\<rparr>, v'))"
| "parse_std StdHour p v =
     (case getnum False v of None \<Rightarrow> None
      | Some (n, v') \<Rightarrow> if 24 \<le> n then None else Some (p\<lparr>hour := n\<rparr>, v'))"
| "parse_std StdZeroMinute p v =
     (case getnum True v of None \<Rightarrow> None
      | Some (n, v') \<Rightarrow> if 60 \<le> n then None else Some (p\<lparr>minute := n\<rparr>, v'))"
| "parse_std StdZeroSecond p v =
     (case getnum True v of None \<Rightarrow> None
      | Some (n, v') \<Rightarrow>
          if 60 \<le> n then None
          else (let (ns, v'') = parse_frac v' in Some (p\<lparr>second := n, nsec := ns\<rparr>, v'')))"
| "parse_std StdISO8601ColonTZ p v =
     (if v \<noteq> [] \<and> hd v = CHR ''Z'' then Some (p\<lparr>zone_off := Some 0\<rparr>, tl v)
      else (case parse_offset v of None \<Rightarrow> None | Some (off, v') \<Rightarrow> Some (p\<lparr>zone_off := Some off\<rparr>, v')))"
| "parse_std StdNumColonTZ p v =
     (case parse_offset v of None \<Rightarrow> None | Some (off, v') \<Rightarrow> Some (p\<lparr>zone_off := Some off\<rparr>, v'))"

fun parse_fields :: "layout \<Rightarrow> fields \<Rightarrow> string \<Rightarrow> fields option" where
  "parse_fields [] p v = (if v = [] then Some p else None)"
| "parse_fields ((prefix, f) # rest) p v =
     (case skip prefix v of None \<Rightarrow> None
      | Some v' \<Rightarrow> (case parse_std f p v' of None \<Rightarrow> None
          | Some (p', v'') \<Rightarrow> parse_fields rest p' v''))"

subsection \<open>The calendar\<close>

definition is_leap :: "nat \<Rightarrow> bool" where
  "is_leap y \<longleftrightarrow> y mod 4 = 0 \<and> (y mod 100 \<noteq> 0 \<or> y mod 400 = 0)"

definition days_in :: "nat \<Rightarrow> nat \<Rightarrow> nat" where
  "days_in m y =
     (if m = 2 then (if is_leap y then 29 else 28)
      else if m = 4 \<or> m = 6 \<or> m = 9 \<or> m = 11 then 30 else 31)"

definition days_before :: "nat \<Rightarrow> nat" where
  "days_before m = [0, 31, 59, 90, 120, 151, 181, 212, 243, 273, 304, 334] ! (m - 1)"

definition days_since_1970 :: "nat \<Rightarrow> nat \<Rightarrow> nat \<Rightarrow> int" where
  "days_since_1970 y m d =
     (let z = int y - 1 in
      365 * (int y - 1970) + (z div 4 - z div 100 + z div 400 - 477)
      + int (days_before m) + (if 2 < m \<and> is_leap y then 1 else 0) + int d - 1)"

definition civil_sec :: "nat \<Rightarrow> nat \<Rightarrow> nat \<Rightarrow> nat \<Rightarrow> nat \<Rightarrow> nat \<Rightarrow> int" where
  "civil_sec y mo d h mi s =
     days_since_1970 y mo d * 86400 + int h * 3600 + int mi * 60 + int s"

definition no_fields :: fields where
  "no_fields = \<lparr>year = 0, month = 0, day = 0, hour = 0, minute = 0, second = 0, nsec = 0, zone_off = None\<rparr>"

definition time_Parse :: "layout \<Rightarrow> string \<Rightarrow> gotime option" where
  "time_Parse l v =
     (case parse_fields l no_fields v of None \<Rightarrow> None
      | Some p \<Rightarrow>
          if day p < 1 \<or> days_in (month p) (year p) < day p then None
          else Some \<lparr>unix_sec =
                 civil_sec (year p) (month p) (day p) (hour p) (minute p) (second p)
                 - (case zone_off p of None \<Rightarrow> 0 | Some off \<Rightarrow> off),
               nanosec = nsec p\<rparr>)"

text \<open>Two decimal digits, for writing timestamps in statements.\<close>

definition dig :: "nat \<Rightarrow> char" where
  "dig n = chr (48 + n)"

definition two :: "nat \<Rightarrow> string" where
  "two n = [dig (n div 10), dig (n mod 10)]"

definition four :: "nat \<Rightarrow> string" where
  "four n = two (n div 100) @ two (n mod 100)"

subsection \<open>Digits\<close>

lemma is_digit_dig: "n < 10 \<Longrightarrow> is_digit (dig n)"
  by (simp add: is_digit_def dig_def)

lemma digit_val_dig: "n < 10 \<Longrightarrow> digit_val (dig n) = n"
  by (simp add: digit_val_def dig_def)

lemma getnum_two: "n < 100 \<Longrightarrow> getnum fixed (two n @ v) = Some (n, v)"
  by (simp add: two_def is_digit_dig digit_val_dig)

lemma num_four: "n < 10000 \<Longrightarrow> num (four n) = n"
proof -
  assume n: "n < 10000"
  have "n = n div 100 * 100 + n mod 100" by simp
  moreover have "n div 100 = n div 100 div 10 * 10 + n div 100 mod 10" by simp
  moreover have "n mod 100 = n mod 100 div 10 * 10 + n mod 100 mod 10" by simp
  ultimately show ?thesis
    using n by (simp add: num_def four_def two_def digit_val_dig)
qed

lemma list_all_four: "n < 10000 \<Longrightarrow> list_all is_digit (four n)"
  by (simp add: four_def two_def is_digit_dig)

lemma length_four [simp]: "length (four n) = 4"
  by (simp add: four_def two_def)

lemma parse_year: "n < 10000 \<Longrightarrow> parse_std StdLongYear p (four n @ v) = Some (p\<lparr>year := n\<rparr>, v)"
  by (simp add: num_four list_all_four)

subsection \<open>Fields and dates\<close>

lemma byte_dig: "n < 10 \<Longrightarrow> byte (dig n) = 48 + n"
  by (simp add: dig_def)

lemma is_ascii_two: "n < 100 \<Longrightarrow> is_ascii (two n)"
  by (simp add: is_ascii_def two_def byte_dig del: byte_def) linarith

lemma space_byte_dig: "n < 10 \<Longrightarrow> \<not> space_byte (dig n)"
  by (auto simp: space_byte_def IsSpace_def byte_dig simp del: byte_def)

lemma getnum_dig: "n < 100 \<Longrightarrow> getnum fixed (dig (n div 10) # dig (n mod 10) # v) = Some (n, v)"
  using getnum_two [of n fixed v] by (simp add: two_def)

lemma parse_offset_two:
  assumes "oh \<le> 24" "om \<le> 60"
  shows "parse_offset (''+'' @ two oh @ '':'' @ two om) = Some (int oh * 3600 + int om * 60, [])"
    and "parse_offset (''-'' @ two oh @ '':'' @ two om) = Some (- (int oh * 3600 + int om * 60), [])"
  using assms by (simp_all add: parse_offset_def two_def getnum_dig del: getnum.simps)

lemma parse_frac_none: "v = [] \<or> hd v \<noteq> CHR ''.'' \<and> hd v \<noteq> CHR '','' \<Longrightarrow> parse_frac v = (0, v)"
  by (auto simp: parse_frac_def split: list.splits)

lemma days_in_le: "days_in m y \<le> 31"
  by (simp add: days_in_def)

text \<open>The day count is the calendar's: consecutive days, months and years follow each other.\<close>

lemma days_since_1970_anchor: "days_since_1970 1970 1 1 = 0"
  by (simp add: days_since_1970_def days_before_def)

lemma days_since_1970_day: "days_since_1970 y m (Suc d) = days_since_1970 y m d + 1"
  by (simp add: days_since_1970_def Let_def)

lemma days_before_Suc:
  assumes "1 \<le> m" "m < 12"
  shows "int (days_before (Suc m)) + (if 2 < Suc m \<and> is_leap y then 1 else 0) =
    int (days_before m) + (if 2 < m \<and> is_leap y then 1 else 0) + int (days_in m y)"
proof -
  have "m \<in> set [1..<12]" using assms by simp
  then have "m = 1 \<or> m = 2 \<or> m = 3 \<or> m = 4 \<or> m = 5 \<or> m = 6 \<or> m = 7 \<or> m = 8 \<or> m = 9 \<or> m = 10 \<or> m = 11"
    by (simp add: upt_rec eval_nat_numeral del: set_upt)
  then show ?thesis by (elim disjE) (simp_all add: days_before_def days_in_def)
qed

lemma days_since_1970_month:
  assumes "1 \<le> m" "m < 12"
  shows "days_since_1970 y (Suc m) 1 = days_since_1970 y m (days_in m y) + 1"
  using days_before_Suc [OF assms, of y] unfolding days_since_1970_def Let_def by linarith

lemma div_step:
  assumes k: "0 < (k::int)"
  shows "(z + 1) div k = z div k + (if (z + 1) mod k = 0 then 1 else 0)"
proof -
  define q r where "q = (z + 1) div k" and "r = (z + 1) mod k"
  have e: "z + 1 = k * q + r" and r: "0 \<le> r" "r < k" using k by (simp_all add: q_def r_def)
  have "z div k = (if r = 0 then q - 1 else q)"
  proof (cases "r = 0")
    case True
    with e have "z = k * (q - 1) + (k - 1)" by (simp add: algebra_simps)
    then show ?thesis using True k by (simp add: int_div_pos_eq [of z k "q - 1" "k - 1"])
  next
    case False
    with e r have "z = k * q + (r - 1)" "0 \<le> r - 1" "r - 1 < k" by auto
    then show ?thesis using False int_div_pos_eq by auto
  qed
  then show ?thesis by (simp add: q_def r_def)
qed

lemma nat_mod_0: "y mod numeral k = (0::nat) \<longleftrightarrow> int y mod numeral k = 0"
  by (metis of_nat_0_eq_iff of_nat_mod of_nat_numeral)

lemma leap_sum:
  fixes a b c :: int
  assumes "a' = a + (if A then 1 else 0)" "b' = b + (if B then 1 else 0)" "c' = c + (if C then 1 else 0)"
    and "C \<Longrightarrow> B" "B \<Longrightarrow> A"
  shows "a' - b' + c' = a - b + c + (if A \<and> (\<not> B \<or> C) then 1 else 0)"
  using assms by (cases A; cases B; cases C) simp_all

lemma days_since_1970_year: "days_since_1970 (Suc y) 1 1 = days_since_1970 y 12 31 + 1"
proof -
  define z where "z = int y - 1"
  have y: "int y = z + 1" by (simp add: z_def)
  have leap: "is_leap y \<longleftrightarrow> (z + 1) mod 4 = 0 \<and> ((z + 1) mod 100 \<noteq> 0 \<or> (z + 1) mod 400 = 0)"
    unfolding is_leap_def y [symmetric] nat_mod_0 by simp
  have m: "(z + 1) mod 400 = 0 \<Longrightarrow> (z + 1) mod 100 = 0" "(z + 1) mod 100 = 0 \<Longrightarrow> (z + 1) mod 4 = 0"
    using dvd_trans [of 100 400 "z + 1"] dvd_trans [of 4 100 "z + 1"] by (auto simp: mod_eq_0_iff_dvd)
  have "days_since_1970 (Suc y) 1 1 =
      365 * (z + 2 - 1970) + ((z + 1) div 4 - (z + 1) div 100 + (z + 1) div 400 - 477)"
    by (simp add: days_since_1970_def days_before_def y Let_def add.commute)
  moreover have "days_since_1970 y 12 31 + 1 =
      365 * (z + 2 - 1970) + (z div 4 - z div 100 + z div 400 - 477) + (if is_leap y then 1 else 0)"
    by (simp add: days_since_1970_def days_before_def y)
  moreover have "(z + 1) div 4 - (z + 1) div 100 + (z + 1) div 400
      = z div 4 - z div 100 + z div 400 + (if is_leap y then 1 else 0)"
    unfolding leap by (rule leap_sum [OF div_step div_step div_step]) (use m in simp_all)
  ultimately show ?thesis by linarith
qed

lemmas time_eval = time_Parse_def no_fields_def is_digit_def digit_val_def num_def parse_frac_def
  parse_offset_def days_in_def is_leap_def civil_sec_def days_since_1970_def days_before_def

end
