(* ===== verification/Domain_Model.thy ===== *)
theory Domain_Model
  imports Go_Time
begin

text \<open>
  Package \<open>model\<close>: the domain types and the two lifecycles. A shipment's states are linearly
  ordered by rank; an invoice's moves are a transition table. Both are maps keyed by the
  state's name, as in the source; a missing key of the rank map reads as 0.
\<close>

abbreviation ClassShipment :: string where "ClassShipment \<equiv> ''SHIPMENT''"
abbreviation ClassInvoice :: string where "ClassInvoice \<equiv> ''INVOICE''"
abbreviation ClassUnclassified :: string where "ClassUnclassified \<equiv> ''UNCLASSIFIED''"

abbreviation StatePickedUp :: string where "StatePickedUp \<equiv> ''PICKED_UP''"
abbreviation StateInTransit :: string where "StateInTransit \<equiv> ''IN_TRANSIT''"
abbreviation StateOutForDelivery :: string where "StateOutForDelivery \<equiv> ''OUT_FOR_DELIVERY''"
abbreviation StateDelivered :: string where "StateDelivered \<equiv> ''DELIVERED''"

abbreviation StateIssued :: string where "StateIssued \<equiv> ''ISSUED''"
abbreviation StatePaid :: string where "StatePaid \<equiv> ''PAID''"
abbreviation StateVoided :: string where "StateVoided \<equiv> ''VOIDED''"
abbreviation StateRefunded :: string where "StateRefunded \<equiv> ''REFUNDED''"

definition shipmentRank :: "string \<rightharpoonup> int" where
  "shipmentRank =
     [StatePickedUp \<mapsto> 1, StateInTransit \<mapsto> 2, StateOutForDelivery \<mapsto> 3, StateDelivered \<mapsto> 4]"

definition ShipmentRank :: "string \<Rightarrow> int" where
  "ShipmentRank state = (case shipmentRank state of None \<Rightarrow> 0 | Some r \<Rightarrow> r)"

definition invoiceTransitions :: "string \<rightharpoonup> string list" where
  "invoiceTransitions =
     [StateIssued \<mapsto> [StatePaid, StateVoided], StatePaid \<mapsto> [StateRefunded],
      StateVoided \<mapsto> [], StateRefunded \<mapsto> []]"

definition InvoiceTransitionAllowed :: "string \<Rightarrow> string \<Rightarrow> bool" where
  "InvoiceTransitionAllowed from to =
     (case invoiceTransitions from of None \<Rightarrow> False | Some ts \<Rightarrow> List.member ts to)"

definition IsShipmentState :: "string \<Rightarrow> bool" where
  "IsShipmentState s = (shipmentRank s \<noteq> None)"

definition IsInvoiceState :: "string \<Rightarrow> bool" where
  "IsInvoiceState s = (invoiceTransitions s \<noteq> None)"

datatype RawStatus = StatusPending | StatusProcessing | StatusProcessed | StatusFailed

type_synonym bytes = string

record RawEvent =
  re_ID :: string
  re_Payload :: bytes
  re_Attempts :: int

record Normalized =
  n_Classification :: string
  n_EntityKey :: string
  n_CanonicalState :: string
  n_EventTime :: "gotime option"
  n_AmountMinor :: "int option"
  n_Currency :: string
  n_VendorStateText :: string
  n_Confidence :: float64

text \<open>A timestamp of the database, in microseconds since 1970-01-01 UTC.\<close>

type_synonym timestamptz = int

record Entity =
  e_EntityKey :: string
  e_Type :: string
  e_CurrentState :: string
  e_CurrentRank :: int
  e_LastEventTime :: "timestamptz option"
  e_AmountMinor :: "int option"
  e_Currency :: "string option"
  e_UpdatedAt :: timestamptz

subsection \<open>The lifecycles\<close>

definition shipment_states :: "string list" where
  "shipment_states = [StatePickedUp, StateInTransit, StateOutForDelivery, StateDelivered]"

definition invoice_states :: "string list" where
  "invoice_states = [StateIssued, StatePaid, StateVoided, StateRefunded]"

lemma IsShipmentState_iff: "IsShipmentState s \<longleftrightarrow> s \<in> set shipment_states"
  by (auto simp: IsShipmentState_def shipmentRank_def shipment_states_def split: if_splits)

lemma IsInvoiceState_iff: "IsInvoiceState s \<longleftrightarrow> s \<in> set invoice_states"
  by (auto simp: IsInvoiceState_def invoiceTransitions_def invoice_states_def split: if_splits)

lemma ShipmentRank_values:
  "ShipmentRank StatePickedUp = 1" "ShipmentRank StateInTransit = 2"
  "ShipmentRank StateOutForDelivery = 3" "ShipmentRank StateDelivered = 4"
  by (simp_all add: ShipmentRank_def shipmentRank_def)

lemma ShipmentRank_range: "IsShipmentState s \<Longrightarrow> 1 \<le> ShipmentRank s \<and> ShipmentRank s \<le> 4"
  by (auto simp: IsShipmentState_iff shipment_states_def ShipmentRank_values)

lemma ShipmentRank_unknown: "\<not> IsShipmentState s \<Longrightarrow> ShipmentRank s = 0"
  by (simp add: IsShipmentState_def ShipmentRank_def)

lemma ShipmentRank_inj:
  "IsShipmentState s \<Longrightarrow> IsShipmentState t \<Longrightarrow> ShipmentRank s = ShipmentRank t \<Longrightarrow> s = t"
  by (auto simp: IsShipmentState_iff shipment_states_def ShipmentRank_values)

lemma lifecycles_disjoint: "IsShipmentState s \<Longrightarrow> \<not> IsInvoiceState s"
  by (auto simp: IsShipmentState_iff IsInvoiceState_iff shipment_states_def invoice_states_def)

lemma InvoiceTransitionAllowed_iff:
  "InvoiceTransitionAllowed from to \<longleftrightarrow>
     from = StateIssued \<and> (to = StatePaid \<or> to = StateVoided) \<or> from = StatePaid \<and> to = StateRefunded"
  by (auto simp: InvoiceTransitionAllowed_def invoiceTransitions_def)

lemma InvoiceTransitionAllowed_states:
  "InvoiceTransitionAllowed from to \<Longrightarrow> IsInvoiceState from \<and> IsInvoiceState to"
  by (auto simp: InvoiceTransitionAllowed_iff IsInvoiceState_iff invoice_states_def)

lemma InvoiceTransitionAllowed_irrefl: "\<not> InvoiceTransitionAllowed s s"
  by (auto simp: InvoiceTransitionAllowed_iff)

end
