(* ===== verification/LLM_Client.thy ===== *)
theory LLM_Client
  imports Domain_Model
begin

text \<open>
  Package \<open>llm\<close>, the boundary: the record a provider returns, the audit data around it, and
  the classification of errors. A client is a function from the payload to a result or an
  error; providers are modelled in their own theories.
\<close>

record Response =
  r_Classification :: string
  r_EntityKey :: string
  r_CanonicalState :: string
  r_EventTime :: string
  r_AmountMinor :: "int option"
  r_Currency :: string
  r_VendorStateText :: string
  r_Confidence :: float64

record Result =
  res_Response :: Response
  res_Model :: string
  res_PromptVer :: string

type_synonym Client = "bytes \<Rightarrow> go_error + Result"

text \<open>\<open>Retryable\<close>: the flag of the first provider error in the chain; any other error is retried.\<close>

fun as_api_error :: "go_error list \<Rightarrow> bool option" where
  "as_api_error [] = None"
| "as_api_error (e # es) = (case e of APIError code r m \<Rightarrow> Some r | _ \<Rightarrow> as_api_error es)"

definition Retryable :: "go_error \<Rightarrow> bool" where
  "Retryable err = (case as_api_error (unwrap_chain err) of Some r \<Rightarrow> r | None \<Rightarrow> True)"

lemma Retryable_APIError [simp]: "Retryable (APIError code r m) = r"
  by (simp add: Retryable_def)

lemma Retryable_Wrap [simp]: "Retryable (Wrap p e) = Retryable e"
  by (simp add: Retryable_def)

end
