(* ===== verification/Normalize.thy ===== *)
theory Normalize
  imports LLM_Client
begin

text \<open>
  Package \<open>normalize\<close>: the gate between a model's answer and the database. \<open>Apply\<close> returns a
  fact or an error; the theory shows what every accepted fact satisfies (\<open>wf_fact\<close>), exactly
  which answers are rejected, that keys are canonical, that money is kept or dropped as a
  pair, and that timestamps are read as the instant they denote.
\<close>

record Normalizer =
  MinConfidence :: float64

definition New :: "float64 \<Rightarrow> Normalizer" where
  "New minConfidence = \<lparr>MinConfidence = minConfidence\<rparr>"

definition CanonicalKey :: "unicode \<Rightarrow> string \<Rightarrow> string" where
  "CanonicalKey U s = ToUpper U (TrimSpace s)"

definition isAlpha :: "string \<Rightarrow> bool" where
  "isAlpha s = list_all (\<lambda>r. \<not> (r < 65 \<or> r > 90)) (runes s)"

definition sanitizeMoney :: "unicode \<Rightarrow> int option \<Rightarrow> string \<Rightarrow> int option \<times> string" where
  "sanitizeMoney U amount currency =
     (let cur = ToUpper U (TrimSpace currency) in
      case amount of
        None \<Rightarrow> (None, '''')
      | Some a \<Rightarrow> if a < 0 \<or> length cur \<noteq> 3 \<or> \<not> isAlpha cur then (None, '''') else (Some a, cur))"

definition date_layout :: layout where
  "date_layout = [('''', StdLongYear), (''-'', StdZeroMonth), (''-'', StdZeroDay)]"

definition clock_layout :: "string \<Rightarrow> layout" where
  "clock_layout sep = [(sep, StdHour), ('':'', StdZeroMinute), ('':'', StdZeroSecond)]"

definition eventTimeLayouts :: "layout list" where
  "eventTimeLayouts =
     [date_layout @ clock_layout ''T'' @ [('''', StdISO8601ColonTZ)],
      date_layout @ clock_layout '' '' @ [('''', StdISO8601ColonTZ)],
      date_layout @ clock_layout '' '' @ [('''', StdNumColonTZ)],
      date_layout @ clock_layout ''T'',
      date_layout @ clock_layout '' '',
      date_layout]"

fun try_layouts :: "layout list \<Rightarrow> string \<Rightarrow> gotime option" where
  "try_layouts [] s = None"
| "try_layouts (l # ls) s =
     (case time_Parse l s of Some t \<Rightarrow> Some t | None \<Rightarrow> try_layouts ls s)"

definition parseEventTime :: "string \<Rightarrow> gotime option" where
  "parseEventTime s0 =
     (let s = TrimSpace s0 in if s = '''' then None else try_layouts eventTimeLayouts s)"

definition Apply :: "unicode \<Rightarrow> Normalizer \<Rightarrow> Response \<Rightarrow> go_error + Normalized" where
  "Apply U n r =
     (let class0 = ToUpper U (TrimSpace (r_Classification r));
          class = (if class0 \<noteq> ClassUnclassified \<and> flt_less (r_Confidence r) (MinConfidence n)
                   then ClassUnclassified else class0);
          out = \<lparr>n_Classification = class, n_EntityKey = '''', n_CanonicalState = '''',
                 n_EventTime = parseEventTime (r_EventTime r), n_AmountMinor = None, n_Currency = '''',
                 n_VendorStateText = TrimSpace (r_VendorStateText r), n_Confidence = r_Confidence r\<rparr>
      in if class = ClassUnclassified then Inr out
         else if class = ClassShipment then
           (let state = ToUpper U (TrimSpace (r_CanonicalState r)) in
            if \<not> IsShipmentState state then
              Inl (ErrText (''shipment canonical_state '' @ go_quote U (r_CanonicalState r) @ '' not recognized''))
            else
              (let key = CanonicalKey U (r_EntityKey r) in
               if key = '''' then Inl (ErrText ''shipment missing entity_key'')
               else Inr (out\<lparr>n_CanonicalState := state, n_EntityKey := key\<rparr>)))
         else if class = ClassInvoice then
           (let state = ToUpper U (TrimSpace (r_CanonicalState r)) in
            if \<not> IsInvoiceState state then
              Inl (ErrText (''invoice canonical_state '' @ go_quote U (r_CanonicalState r) @ '' not recognized''))
            else
              (let key = CanonicalKey U (r_EntityKey r) in
               if key = '''' then Inl (ErrText ''invoice missing entity_key'')
               else
                 (let (amt, cur) = sanitizeMoney U (r_AmountMinor r) (r_Currency r)
                  in Inr (out\<lparr>n_CanonicalState := state, n_EntityKey := key,
                               n_AmountMinor := amt, n_Currency := cur\<rparr>))))
         else Inl (ErrText (''unknown classification '' @ go_quote U (r_Classification r))))"

subsection \<open>Well-formed facts\<close>

text \<open>An amount and a currency come together, the amount is not negative, the currency is three capitals.\<close>

definition money_ok :: "int option \<Rightarrow> string \<Rightarrow> bool" where
  "money_ok amt cur =
     (case amt of
        None \<Rightarrow> cur = ''''
      | Some a \<Rightarrow> 0 \<le> a \<and> length cur = 3 \<and> list_all (\<lambda>c. 65 \<le> byte c \<and> byte c \<le> 90) cur)"

definition wf_fact :: "unicode \<Rightarrow> Normalized \<Rightarrow> bool" where
  "wf_fact U n \<longleftrightarrow>
     (if n_Classification n = ClassUnclassified then
        n_EntityKey n = '''' \<and> n_CanonicalState n = '''' \<and> n_AmountMinor n = None \<and> n_Currency n = ''''
      else
        n_EntityKey n \<noteq> '''' \<and> CanonicalKey U (n_EntityKey n) = n_EntityKey n
        \<and> (n_Classification n = ClassShipment \<and> IsShipmentState (n_CanonicalState n)
             \<and> n_AmountMinor n = None \<and> n_Currency n = ''''
           \<or> n_Classification n = ClassInvoice \<and> IsInvoiceState (n_CanonicalState n)
             \<and> money_ok (n_AmountMinor n) (n_Currency n)))"

text \<open>The class an answer is treated as: what it says, unless its confidence is below the floor.\<close>

definition effective_class :: "unicode \<Rightarrow> Normalizer \<Rightarrow> Response \<Rightarrow> string" where
  "effective_class U n r =
     (let class0 = ToUpper U (TrimSpace (r_Classification r)) in
      if flt_less (r_Confidence r) (MinConfidence n) then ClassUnclassified else class0)"

text \<open>An RFC 3339 timestamp with a numeric offset.\<close>

definition rfc3339 :: "nat \<Rightarrow> nat \<Rightarrow> nat \<Rightarrow> nat \<Rightarrow> nat \<Rightarrow> nat \<Rightarrow> bool \<Rightarrow> nat \<Rightarrow> nat \<Rightarrow> string" where
  "rfc3339 y mo d h mi s east oh om =
     four y @ ''-'' @ two mo @ ''-'' @ two d @ ''T'' @ two h @ '':'' @ two mi @ '':'' @ two s
     @ (if east then ''+'' else ''-'') @ two oh @ '':'' @ two om"

text \<open>Tables that know one letter beyond ASCII, and an answer a provider gives, for the examples.\<close>

definition demo_unicode :: unicode where
  "demo_unicode = \<lparr>uni_upper = (\<lambda>r. if r = 233 then 201 else r), uni_lower = (\<lambda>r. if r = 201 then 233 else r),
     go_quote = (\<lambda>s. CHR 0x22 # s @ [CHR 0x22])\<rparr>"

definition demo_invoice :: Response where
  "demo_invoice = \<lparr>r_Classification = '' invoice'', r_EntityKey = ''gfp-inv-1 '', r_CanonicalState = ''paid'',
     r_EventTime = ''2026-04-22 18:47:11+02:00'', r_AmountMinor = Some 2435075, r_Currency = ''eur'',
     r_VendorStateText = ''settled in full'', r_Confidence = Fin (9 / 10)\<rparr>"

definition demo_fact :: Normalized where
  "demo_fact = \<lparr>n_Classification = ClassInvoice, n_EntityKey = ''GFP-INV-1'', n_CanonicalState = StatePaid,
     n_EventTime = Some \<lparr>unix_sec = 1776876431, nanosec = 0\<rparr>, n_AmountMinor = Some 2435075,
     n_Currency = ''EUR'', n_VendorStateText = ''settled in full'', n_Confidence = Fin (9 / 10)\<rparr>"

lemmas layout_eval = parseEventTime_def eventTimeLayouts_def date_layout_def clock_layout_def

lemma CanonicalKey_idem: "unicode_ok U \<Longrightarrow> CanonicalKey U (CanonicalKey U s) = CanonicalKey U s"
  unfolding CanonicalKey_def by (rule ToUpper_TrimSpace_idem)

text \<open>Three bytes that decode to capital letters are three capital letters.\<close>

lemma isAlpha_bytes:
  assumes "isAlpha s"
  shows "list_all (\<lambda>c. 65 \<le> byte c \<and> byte c \<le> 90) s"
  using assms
proof (induction s rule: chunks.induct)
  case (2 c cs)
  obtain r n where d: "decode1 c cs = (r, n)" by fastforce
  with "2.prems" have r: "65 \<le> r" "r \<le> 90" by (auto simp: isAlpha_def runes_def)
  have c: "byte c < 128"
  proof (rule ccontr)
    assume "\<not> byte c < 128"
    then have "128 \<le> r" using d by (rule decode1_nonascii)
    with r show False by simp
  qed
  then have n: "r = byte c \<and> n = 0" using d by simp
  with "2.prems" d have "isAlpha cs" by (simp add: isAlpha_def runes_def)
  with "2.IH" [of "(r, n)" r n] d n r show ?case by simp
qed simp

lemma sanitizeMoney_ok: "sanitizeMoney U a c = (amt, cur) \<Longrightarrow> money_ok amt cur"
  by (auto simp: sanitizeMoney_def money_ok_def Let_def dest: isAlpha_bytes split: option.splits if_splits)

lemma effective_class_eq:
  "effective_class U n r =
     (let class0 = ToUpper U (TrimSpace (r_Classification r)) in
      if class0 \<noteq> ClassUnclassified \<and> flt_less (r_Confidence r) (MinConfidence n)
      then ClassUnclassified else class0)"
  by (auto simp: effective_class_def Let_def)

text \<open>The cases of \<open>Apply\<close>, one per branch of the switch.\<close>

lemma Apply_class:
  "Apply U n r = Inr out \<Longrightarrow>
   effective_class U n r \<in> {ClassUnclassified, ClassShipment, ClassInvoice}"
  by (auto simp: Apply_def effective_class_eq Let_def split: if_splits)

lemma Apply_cases:
  assumes "Apply U n r = Inr out"
  obtains (unclassified) "effective_class U n r = ClassUnclassified" "n_Classification out = ClassUnclassified"
      "n_EntityKey out = ''''" "n_CanonicalState out = ''''" "n_AmountMinor out = None" "n_Currency out = ''''"
  | (shipment) "effective_class U n r = ClassShipment" "n_Classification out = ClassShipment"
      "IsShipmentState (n_CanonicalState out)" "n_EntityKey out = CanonicalKey U (r_EntityKey r)"
      "n_EntityKey out \<noteq> ''''" "n_AmountMinor out = None" "n_Currency out = ''''"
  | (invoice) "effective_class U n r = ClassInvoice" "n_Classification out = ClassInvoice"
      "IsInvoiceState (n_CanonicalState out)" "n_EntityKey out = CanonicalKey U (r_EntityKey r)"
      "n_EntityKey out \<noteq> ''''"
      "sanitizeMoney U (r_AmountMinor r) (r_Currency r) = (n_AmountMinor out, n_Currency out)"
proof -
  consider "effective_class U n r = ClassUnclassified" | "effective_class U n r = ClassShipment"
    | "effective_class U n r = ClassInvoice"
    using Apply_class [OF assms] by blast
  then show thesis
  proof cases
    case 1
    show thesis by (rule unclassified) (use assms 1 in \<open>auto simp: Apply_def effective_class_eq Let_def split: if_splits\<close>)
  next
    case 2
    show thesis
      by (rule shipment) (use assms 2 in \<open>auto simp: Apply_def effective_class_eq Let_def split: if_splits\<close>)
  next
    case 3
    show thesis
      by (rule invoice)
        (use assms 3 in \<open>auto simp: Apply_def effective_class_eq Let_def split: if_splits prod.splits\<close>)
  qed
qed
lemma trim_rfc3339:
  assumes "y < 10000" "mo \<le> 12" "d \<le> 31" "h < 24" "mi < 60" "s < 60" "oh \<le> 24" "om \<le> 60"
  shows "TrimSpace (rfc3339 y mo d h mi s east oh om) = rfc3339 y mo d h mi s east oh om"
proof -
  let ?t = "rfc3339 y mo d h mi s east oh om"
  have "is_ascii (two mo)" "is_ascii (two d)" "is_ascii (two h)" "is_ascii (two mi)" "is_ascii (two s)"
    "is_ascii (two oh)" "is_ascii (two om)" "is_ascii (two (y div 100))" "is_ascii (two (y mod 100))"
    using assms by (simp_all add: is_ascii_two)
  moreover have "is_ascii ''-''" "is_ascii ''T''" "is_ascii '':''" "is_ascii ''+''" by (simp_all add: is_ascii_def)
  ultimately have a: "is_ascii ?t" by (simp only: rfc3339_def four_def is_ascii_append if_split simp_thms)
  have "\<exists>rest. ?t = dig (y div 100 div 10) # rest @ [dig (om mod 10)]"
    by (simp add: rfc3339_def four_def two_def)
  with a show ?thesis using assms TrimSpace_no_ends space_byte_dig by force
qed

lemma try_layouts_hd: "ls \<noteq> [] \<Longrightarrow> time_Parse (hd ls) s = Some t \<Longrightarrow> try_layouts ls s = Some t"
  by (cases ls) simp_all

lemma eventTimeLayouts_nonempty [simp]: "eventTimeLayouts \<noteq> []"
  by (simp add: eventTimeLayouts_def)

lemma parse_date:
  assumes "y < 10000" "1 \<le> mo" "mo \<le> 12" "d \<le> 31"
  shows "parse_fields (date_layout @ rest) p (four y @ ''-'' @ two mo @ ''-'' @ two d @ v) =
    parse_fields rest (p\<lparr>year := y, month := mo, day := d\<rparr>) v"
  using assms by (simp add: date_layout_def parse_year getnum_two del: parse_std.simps(1) getnum.simps)

lemma parse_clock:
  assumes "h < 24" "mi < 60" "s < 60" "v = [] \<or> hd v \<noteq> CHR ''.'' \<and> hd v \<noteq> CHR '',''"
  shows "parse_fields (clock_layout ''T'' @ rest) p (''T'' @ two h @ '':'' @ two mi @ '':'' @ two s @ v) =
    parse_fields rest (p\<lparr>hour := h, minute := mi, second := s, nsec := 0\<rparr>) v"
  using assms by (simp add: clock_layout_def getnum_two parse_frac_none del: getnum.simps)

lemma demo_unicode_ok: "unicode_ok demo_unicode"
  by (auto simp: unicode_ok_def demo_unicode_def upper_rune_def valid_rune_def IsSpace_def)

lemma demo_time: "parseEventTime ''2026-04-22 18:47:11+02:00'' = Some \<lparr>unix_sec = 1776876431, nanosec = 0\<rparr>"
  by (simp add: string_eval time_eval layout_eval)

lemma demo_invoice_apply: "Apply demo_unicode (New (Fin (3 / 5))) demo_invoice = Inr demo_fact"
  by (simp add: Apply_def demo_invoice_def demo_fact_def New_def string_eval demo_time CanonicalKey_def
     sanitizeMoney_def isAlpha_def IsInvoiceState_iff invoice_states_def)

lemma Apply_wf:
  assumes "unicode_ok U" and "Apply U n r = Inr out"
  shows "wf_fact U out"
  using assms(2)
proof (cases rule: Apply_cases)
  case unclassified
  then show ?thesis by (simp add: wf_fact_def)
next
  case shipment
  then show ?thesis using assms(1) by (simp add: wf_fact_def CanonicalKey_idem)
next
  case invoice
  then show ?thesis using assms(1) by (simp add: wf_fact_def CanonicalKey_idem sanitizeMoney_ok)
qed

text \<open>The class of an accepted answer passes the check of the facts table.\<close>

lemma Apply_known_class:
  "Apply U n r = Inr out \<Longrightarrow> n_Classification out \<in> {ClassShipment, ClassInvoice, ClassUnclassified}"
  by (erule Apply_cases) simp_all

subsection \<open>Properties of the gate\<close>

text \<open>
  C14: an answer the gate lets through is a well-formed fact: its class is one of the three, a
  shipment or invoice has a non-empty canonical key and a state of its own lifecycle, money is
  present only on invoices and only as a coherent pair, and an UNCLASSIFIED fact carries no
  entity, state or money. Its class is the one the answer states unless its confidence is
  below the floor.
\<close>

theorem Apply_well_formed:
  assumes "unicode_ok U" and "Apply U n r = Inr out"
  shows "wf_fact U out \<and> n_Classification out = effective_class U n r"
  using Apply_wf [OF assms] assms(2) by (auto elim: Apply_cases)

theorem Apply_well_formed_witness:
  "unicode_ok demo_unicode \<and> Apply demo_unicode (New (Fin (3 / 5))) demo_invoice = Inr demo_fact
   \<and> wf_fact demo_unicode demo_fact"
  using Apply_well_formed [OF demo_unicode_ok demo_invoice_apply] demo_unicode_ok demo_invoice_apply by blast

text \<open>
  C33: the gate rejects an answer exactly when it is a shipment or an invoice whose state is not of
  its lifecycle or whose key is blank, or when its class is none of the three; in particular an
  answer below the confidence floor is never rejected.
\<close>

theorem Apply_rejects_exactly:
  "(\<exists>e. Apply U n r = Inl e) \<longleftrightarrow>
     (let class = effective_class U n r; state = ToUpper U (TrimSpace (r_CanonicalState r));
          key = CanonicalKey U (r_EntityKey r)
      in (class = ClassShipment \<longrightarrow> \<not> IsShipmentState state \<or> key = '''')
         \<and> (class = ClassInvoice \<longrightarrow> \<not> IsInvoiceState state \<or> key = '''')
         \<and> class \<noteq> ClassUnclassified)"
  unfolding Apply_def effective_class_eq Let_def by (auto split: prod.split)

theorem Apply_rejects_exactly_witness:
  "\<exists>e. Apply demo_unicode (New (Fin (3 / 5))) (demo_invoice\<lparr>r_CanonicalState := ''DELIVERED''\<rparr>) = Inl e"
  unfolding Apply_rejects_exactly
  by (simp add: demo_invoice_def New_def effective_class_def string_eval
      IsInvoiceState_iff invoice_states_def)

text \<open>
  An RFC 3339 timestamp with a numeric offset is read as the instant it denotes: the civil
  time it shows, moved to UTC by its offset, whatever the (valid) date, time and offset.
\<close>

theorem parseEventTime_rfc3339:
  assumes "y < 10000" "1 \<le> mo" "mo \<le> 12" "1 \<le> d" "d \<le> days_in mo y"
    and "h < 24" "mi < 60" "s < 60" "oh \<le> 24" "om \<le> 60"
  shows "parseEventTime (rfc3339 y mo d h mi s east oh om) =
    Some \<lparr>unix_sec = civil_sec y mo d h mi s - (if east then 1 else - 1) * (int oh * 3600 + int om * 60),
          nanosec = 0\<rparr>"
proof -
  let ?t = "rfc3339 y mo d h mi s east oh om"
  have d: "d \<le> 31" using assms days_in_le [of mo y] by simp
  have "time_Parse (hd eventTimeLayouts) ?t =
    Some \<lparr>unix_sec = civil_sec y mo d h mi s - (if east then 1 else - 1) * (int oh * 3600 + int om * 60),
          nanosec = 0\<rparr>"
    unfolding rfc3339_def time_Parse_def using assms d
    by (simp add: eventTimeLayouts_def parse_date parse_clock parse_offset_two no_fields_def
        del: append_assoc append.simps)
  moreover have "?t \<noteq> ''''" by (simp add: rfc3339_def four_def two_def)
  ultimately show ?thesis
    using trim_rfc3339 [of y mo d h mi s oh om east] assms d
    by (simp add: parseEventTime_def try_layouts_hd [of eventTimeLayouts])
qed

theorem parseEventTime_rfc3339_witness:
  "parseEventTime (rfc3339 2026 4 21 22 47 0 True 8 0) = Some \<lparr>unix_sec = 1776782820, nanosec = 0\<rparr>"
  using parseEventTime_rfc3339 [of 2026 4 21 22 47 0 8 0 True]
  by (simp add: days_in_def civil_sec_def days_since_1970_def days_before_def is_leap_def)

text \<open>
  Canonicalising a key is idempotent, so a key read back from the store and looked up
  through the same function is found under itself, and spellings that canonicalise alike name
  the same entity.
\<close>

theorem CanonicalKey_idempotent:
  "unicode_ok U \<Longrightarrow> CanonicalKey U (CanonicalKey U s) = CanonicalKey U s"
  by (rule CanonicalKey_idem)

theorem CanonicalKey_idempotent_witness:
  "CanonicalKey demo_unicode (CanonicalKey demo_unicode '' maeu240498712 '') = ''MAEU240498712''"
  unfolding CanonicalKey_idempotent [OF demo_unicode_ok] by (simp add: CanonicalKey_def string_eval)

end
