(* ===== verification/Store.thy ===== *)
theory Store
  imports Normalize
begin

text \<open>
  Package \<open>store\<close> and the schema of \<open>migrations/0001_init.sql\<close>: the three tables as lists of
  rows, and one definition per repository method. Each SQL statement is a function on the
  database that returns what the driver's \<open>Scan\<close> or \<open>Exec\<close> returns, with the table's unique
  indexes, its foreign key and its checks written out; a method is the composition of its
  statements under \<open>db_call\<close>, so every call can fail before or after it took effect. Every
  statement, and the transaction of \<open>ApplyInvoice\<close>, is one atomic step, as the database makes
  it: an upsert and an update hold their row lock, \<open>SELECT ... FOR UPDATE\<close> holds it to the
  commit, and where that select finds no row a competing insert makes the transaction's own
  insert fail with a unique violation, a fault of that statement.
  The columns no statement reads back (\<open>normalized_events.id\<close>, \<open>entities.created_at\<close>) are left
  out. What the database and its driver compute is the parameter \<open>pg\<close>.
\<close>

record pg =
  jsonb :: "bytes \<Rightarrow> bytes"
  pg_time :: "gotime \<Rightarrow> timestamptz"
  real4 :: "float64 \<Rightarrow> float64"
  make_interval :: "int \<Rightarrow> int"
  uuid_in :: "string \<Rightarrow> string"

record raw_row =
  rr_id :: string
  rr_payload_hash :: string
  rr_raw_payload :: bytes
  rr_source :: "string option"
  rr_status :: RawStatus
  rr_attempts :: int
  rr_error :: "string option"
  rr_lease_until :: "timestamptz option"
  rr_received_at :: timestamptz

record norm_row =
  nr_raw_event_id :: string
  nr_classification :: string
  nr_entity_key :: "string option"
  nr_canonical_state :: "string option"
  nr_event_time :: "timestamptz option"
  nr_amount_minor :: "int option"
  nr_currency :: "string option"
  nr_vendor_state_text :: "string option"
  nr_confidence :: float64
  nr_llm_model :: string
  nr_prompt_version :: string
  nr_created_at :: timestamptz

record db =
  raw_events :: "raw_row list"
  normalized_events :: "norm_row list"
  entities :: "Entity list"

type_synonym 'a outcome = "(go_error + 'a) \<times> db"

definition empty_db :: db where
  "empty_db = \<lparr>raw_events = [], normalized_events = [], entities = []\<rparr>"

subsection \<open>raw.go\<close>

definition new_raw :: "pg \<Rightarrow> timestamptz \<Rightarrow> string \<Rightarrow> string \<Rightarrow> bytes \<Rightarrow> string \<Rightarrow> raw_row" where
  "new_raw P now new_id hash payload source =
     \<lparr>rr_id = new_id, rr_payload_hash = hash, rr_raw_payload = jsonb P payload,
      rr_source = nullif_empty source, rr_status = StatusPending, rr_attempts = 0, rr_error = None,
      rr_lease_until = None, rr_received_at = now\<rparr>"

text \<open>
  \<open>INSERT ... ON CONFLICT (payload_hash) DO NOTHING RETURNING id\<close>; \<open>new_id\<close> is the value of
  \<open>gen_random_uuid()\<close>, and one that is taken violates the primary key.
\<close>

definition insert_raw_stmt ::
  "pg \<Rightarrow> timestamptz \<Rightarrow> string \<Rightarrow> string \<Rightarrow> bytes \<Rightarrow> string \<Rightarrow> db \<Rightarrow> string outcome" where
  "insert_raw_stmt P now new_id hash payload source d =
     (if hash \<in> rr_payload_hash ` set (raw_events d) then (Inl ErrNoRows, d)
      else if new_id \<in> rr_id ` set (raw_events d) then
        (Inl (PgError ''duplicate key value violates unique constraint raw_events_pkey''), d)
      else (Inr new_id, d\<lparr>raw_events := raw_events d @ [new_raw P now new_id hash payload source]\<rparr>))"

definition select_id_stmt :: "string \<Rightarrow> db \<Rightarrow> string outcome" where
  "select_id_stmt hash d =
     (case select_by rr_payload_hash hash (raw_events d) of
        None \<Rightarrow> (Inl ErrNoRows, d) | Some r \<Rightarrow> (Inr (rr_id r), d))"

definition InsertRaw ::
  "pg \<Rightarrow> fault \<Rightarrow> fault \<Rightarrow> timestamptz \<Rightarrow> string \<Rightarrow> string \<Rightarrow> bytes \<Rightarrow> string \<Rightarrow> db \<Rightarrow> (string \<times> bool) outcome" where
  "InsertRaw P f1 f2 now new_id hash payload source d =
     (case db_call f1 (insert_raw_stmt P now new_id hash payload source) PgError d of
        (Inr eid, d') \<Rightarrow> (Inr (eid, True), d')
      | (Inl e, d') \<Rightarrow>
          if e \<noteq> ErrNoRows then (Inl e, d')
          else (case db_call f2 (select_id_stmt hash) PgError d' of
                  (Inr eid, d'') \<Rightarrow> (Inr (eid, False), d'')
                | (Inl e', d'') \<Rightarrow> (Inl e', d'')))"

text \<open>\<open>status = 'PENDING' OR (status = 'PROCESSING' AND lease_until < now())\<close>; NULL is not less.\<close>

definition claimable :: "timestamptz \<Rightarrow> raw_row \<Rightarrow> bool" where
  "claimable now r \<longleftrightarrow>
     rr_status r = StatusPending
     \<or> rr_status r = StatusProcessing
       \<and> (case rr_lease_until r of None \<Rightarrow> False | Some t \<Rightarrow> t < now)"

definition claimed :: "pg \<Rightarrow> timestamptz \<Rightarrow> int \<Rightarrow> raw_row \<Rightarrow> raw_row" where
  "claimed P now lease r =
     r\<lparr>rr_status := StatusProcessing, rr_attempts := rr_attempts r + 1,
        rr_lease_until := Some (now + make_interval P lease)\<rparr>"

text \<open>\<open>locked\<close>: the rows other transactions hold at that moment, which \<open>SKIP LOCKED\<close> passes over.
  The column \<open>attempts\<close> is a 32-bit \<open>INTEGER\<close>.\<close>

definition claim_stmt :: "pg \<Rightarrow> timestamptz \<Rightarrow> int \<Rightarrow> string list \<Rightarrow> db \<Rightarrow> RawEvent outcome" where
  "claim_stmt P now lease locked d =
     (case first_by rr_received_at
             (filter (\<lambda>r. claimable now r \<and> rr_id r \<notin> set locked) (raw_events d)) of
        None \<Rightarrow> (Inl ErrNoRows, d)
      | Some r \<Rightarrow>
          if rr_attempts r \<ge> 2147483647 then (Inl (PgError ''integer out of range''), d)
          else
            (Inr \<lparr>re_ID = rr_id r, re_Payload = rr_raw_payload r, re_Attempts = rr_attempts r + 1\<rparr>,
             d\<lparr>raw_events := update_where (\<lambda>r'. rr_id r' = rr_id r) (claimed P now lease) (raw_events d)\<rparr>))"

definition Store_Claim ::
  "pg \<Rightarrow> fault \<Rightarrow> timestamptz \<Rightarrow> int \<Rightarrow> string list \<Rightarrow> db \<Rightarrow> RawEvent option outcome" where
  "Store_Claim P f now lease locked d =
     (case db_call f (claim_stmt P now lease locked) PgError d of
        (Inr e, d') \<Rightarrow> (Inr (Some e), d')
      | (Inl e, d') \<Rightarrow> if e = ErrNoRows then (Inr None, d') else (Inl e, d'))"

definition update_raw :: "string \<Rightarrow> (raw_row \<Rightarrow> raw_row) \<Rightarrow> db \<Rightarrow> unit outcome" where
  "update_raw eid f d =
     (Inr (), d\<lparr>raw_events := update_where (\<lambda>r. rr_id r = eid) f (raw_events d)\<rparr>)"

definition MarkProcessed :: "fault \<Rightarrow> string \<Rightarrow> db \<Rightarrow> unit outcome" where
  "MarkProcessed f eid d =
     db_call f (update_raw eid
       (\<lambda>r. r\<lparr>rr_status := StatusProcessed, rr_error := None, rr_lease_until := None\<rparr>)) PgError d"

definition dead_letter :: "string \<Rightarrow> raw_row \<Rightarrow> raw_row" where
  "dead_letter reason r =
     r\<lparr>rr_status := StatusFailed, rr_error := Some reason, rr_lease_until := None\<rparr>"

definition RetryOrFail ::
  "pg \<Rightarrow> fault \<Rightarrow> timestamptz \<Rightarrow> string \<Rightarrow> int \<Rightarrow> int \<Rightarrow> int \<Rightarrow> string \<Rightarrow> db \<Rightarrow> unit outcome" where
  "RetryOrFail P f now eid attempts maxAttempts backoff reason d =
     (if attempts \<ge> maxAttempts then db_call f (update_raw eid (dead_letter reason)) PgError d
      else db_call f (update_raw eid
             (\<lambda>r. r\<lparr>rr_error := Some reason, rr_lease_until := Some (now + make_interval P backoff)\<rparr>))
             PgError d)"

definition Store_Fail :: "fault \<Rightarrow> string \<Rightarrow> string \<Rightarrow> db \<Rightarrow> unit outcome" where
  "Store_Fail f eid reason d = db_call f (update_raw eid (dead_letter reason)) PgError d"

record EventView =
  ev_ID :: string
  ev_Status :: RawStatus
  ev_Attempts :: int
  ev_Error :: "string option"
  ev_Classification :: "string option"
  ev_EntityKey :: "string option"
  ev_CanonicalState :: "string option"
  ev_Confidence :: "float64 option"
  ev_ReceivedAt :: timestamptz
  ev_ProcessedAt :: "timestamptz option"

definition event_view :: "raw_row \<Rightarrow> norm_row option \<Rightarrow> EventView" where
  "event_view r n =
     \<lparr>ev_ID = rr_id r, ev_Status = rr_status r, ev_Attempts = rr_attempts r, ev_Error = rr_error r,
      ev_Classification = map_option nr_classification n, ev_EntityKey = Option.bind n nr_entity_key,
      ev_CanonicalState = Option.bind n nr_canonical_state, ev_Confidence = map_option nr_confidence n,
      ev_ReceivedAt = rr_received_at r, ev_ProcessedAt = map_option nr_created_at n\<rparr>"

definition get_event_stmt :: "pg \<Rightarrow> string \<Rightarrow> db \<Rightarrow> EventView outcome" where
  "get_event_stmt P eid d =
     (case select_by rr_id (uuid_in P eid) (raw_events d) of
        None \<Rightarrow> (Inl ErrNoRows, d)
      | Some r \<Rightarrow> (Inr (event_view r (select_by nr_raw_event_id (rr_id r) (normalized_events d))), d))"

definition GetEvent :: "pg \<Rightarrow> fault \<Rightarrow> string \<Rightarrow> db \<Rightarrow> EventView option outcome" where
  "GetEvent P f eid d =
     (case db_call f (get_event_stmt P eid) PgError d of
        (Inr v, d') \<Rightarrow> (Inr (Some v), d')
      | (Inl e, d') \<Rightarrow> if e = ErrNoRows then (Inr None, d') else (Inl e, d'))"

subsection \<open>normalized.go\<close>

definition new_norm ::
  "pg \<Rightarrow> timestamptz \<Rightarrow> string \<Rightarrow> Normalized \<Rightarrow> string \<Rightarrow> string \<Rightarrow> norm_row" where
  "new_norm P now rawID n llmModel promptVersion =
     \<lparr>nr_raw_event_id = rawID, nr_classification = n_Classification n,
      nr_entity_key = nullif_empty (n_EntityKey n),
      nr_canonical_state = nullif_empty (n_CanonicalState n),
      nr_event_time = map_option (pg_time P) (n_EventTime n), nr_amount_minor = n_AmountMinor n,
      nr_currency = nullif_empty (n_Currency n), nr_vendor_state_text = nullif_empty (n_VendorStateText n),
      nr_confidence = real4 P (n_Confidence n), nr_llm_model = llmModel,
      nr_prompt_version = promptVersion, nr_created_at = now\<rparr>"

definition insert_normalized_stmt :: "norm_row \<Rightarrow> db \<Rightarrow> unit outcome" where
  "insert_normalized_stmt row d =
     (if nr_classification row \<notin> {ClassShipment, ClassInvoice, ClassUnclassified} then
        (Inl (PgError ''check constraint normalized_events_classification_check''), d)
      else if nr_raw_event_id row \<in> nr_raw_event_id ` set (normalized_events d) then (Inr (), d)
      else if nr_raw_event_id row \<notin> rr_id ` set (raw_events d) then
        (Inl (PgError ''foreign key constraint normalized_events_raw_event_id_fkey''), d)
      else (Inr (), d\<lparr>normalized_events := normalized_events d @ [row]\<rparr>))"

definition InsertNormalized ::
  "pg \<Rightarrow> fault \<Rightarrow> timestamptz \<Rightarrow> string \<Rightarrow> Normalized \<Rightarrow> string \<Rightarrow> string \<Rightarrow> db \<Rightarrow> unit outcome" where
  "InsertNormalized P f now rawID n llmModel promptVersion d =
     db_call f (insert_normalized_stmt (new_norm P now rawID n llmModel promptVersion)) PgError d"

subsection \<open>entity.go\<close>

definition upsert_shipment ::
  "timestamptz \<Rightarrow> string \<Rightarrow> string \<Rightarrow> int \<Rightarrow> timestamptz option \<Rightarrow> db \<Rightarrow> unit outcome" where
  "upsert_shipment now key state rank et d =
     (case select_by e_EntityKey key (entities d) of
        None \<Rightarrow>
          (Inr (), d\<lparr>entities := entities d @
             [\<lparr>e_EntityKey = key, e_Type = ClassShipment, e_CurrentState = state, e_CurrentRank = rank,
               e_LastEventTime = et, e_AmountMinor = None, e_Currency = None, e_UpdatedAt = now\<rparr>]\<rparr>)
      | Some _ \<Rightarrow>
          (Inr (), d\<lparr>entities := update_where (\<lambda>e. e_EntityKey e = key \<and> e_CurrentRank e < rank)
             (\<lambda>e. e\<lparr>e_CurrentState := state, e_CurrentRank := rank, e_LastEventTime := et,
                     e_UpdatedAt := now\<rparr>) (entities d)\<rparr>))"

definition ApplyShipment ::
  "pg \<Rightarrow> fault \<Rightarrow> timestamptz \<Rightarrow> string \<Rightarrow> string \<Rightarrow> int \<Rightarrow> gotime option \<Rightarrow> db \<Rightarrow> unit outcome" where
  "ApplyShipment P f now key state rank eventTime d =
     db_call f (upsert_shipment now key state rank (map_option (pg_time P) eventTime)) PgError d"

definition new_invoice ::
  "timestamptz \<Rightarrow> string \<Rightarrow> string \<Rightarrow> timestamptz option \<Rightarrow> int option \<Rightarrow> string \<Rightarrow> Entity" where
  "new_invoice now key state et amountMinor currency =
     \<lparr>e_EntityKey = key, e_Type = ClassInvoice, e_CurrentState = state, e_CurrentRank = 0,
      e_LastEventTime = et, e_AmountMinor = amountMinor, e_Currency = nullif_empty currency,
      e_UpdatedAt = now\<rparr>"

definition advance_invoice ::
  "timestamptz \<Rightarrow> string \<Rightarrow> timestamptz option \<Rightarrow> int option \<Rightarrow> string \<Rightarrow> Entity \<Rightarrow> Entity" where
  "advance_invoice now state et amountMinor currency e =
     e\<lparr>e_CurrentState := state, e_LastEventTime := et,
        e_AmountMinor := coalesce amountMinor (e_AmountMinor e),
        e_Currency := coalesce (nullif_empty currency) (e_Currency e), e_UpdatedAt := now\<rparr>"

text \<open>The error a statement inside a transaction returns; the deferred rollback undoes the rest.\<close>

fun tx_error :: "fault \<Rightarrow> go_error option" where
  "tx_error NoFault = None"
| "tx_error (FaultBefore m) = Some (PgError m)"
| "tx_error (FaultAfter m) = Some (PgError m)"

text \<open>
  The faults of \<open>Begin\<close>, of the select, of the write and of the commit. A commit can fail
  before or after it took effect; any other error leaves the database as it was.
\<close>

definition ApplyInvoice ::
  "pg \<Rightarrow> fault \<Rightarrow> fault \<Rightarrow> fault \<Rightarrow> fault \<Rightarrow> timestamptz \<Rightarrow> string \<Rightarrow> string \<Rightarrow> gotime option
     \<Rightarrow> int option \<Rightarrow> string \<Rightarrow> db \<Rightarrow> unit outcome" where
  "ApplyInvoice P fb fs fw fc now key state eventTime amountMinor currency d =
     (let et = map_option (pg_time P) eventTime;
          commit = (\<lambda>d'. db_call fc (\<lambda>_. (Inr (), d')) PgError d)
      in case tx_error fb of Some e \<Rightarrow> (Inl e, d)
       | None \<Rightarrow> (case tx_error fs of Some e \<Rightarrow> (Inl e, d)
       | None \<Rightarrow> (case select_by e_EntityKey key (entities d) of
           None \<Rightarrow> (case tx_error fw of Some e \<Rightarrow> (Inl e, d)
             | None \<Rightarrow> commit (d\<lparr>entities := entities d @ [new_invoice now key state et amountMinor currency]\<rparr>))
         | Some row \<Rightarrow>
             if \<not> InvoiceTransitionAllowed (e_CurrentState row) state then commit d
             else (case tx_error fw of Some e \<Rightarrow> (Inl e, d)
               | None \<Rightarrow> commit (d\<lparr>entities := update_where (\<lambda>e. e_EntityKey e = key)
                   (advance_invoice now state et amountMinor currency) (entities d)\<rparr>)))))"

definition get_entity_stmt :: "string \<Rightarrow> db \<Rightarrow> Entity outcome" where
  "get_entity_stmt key d =
     (case select_by e_EntityKey key (entities d) of None \<Rightarrow> (Inl ErrNoRows, d) | Some e \<Rightarrow> (Inr e, d))"

definition GetEntity :: "fault \<Rightarrow> string \<Rightarrow> db \<Rightarrow> Entity option outcome" where
  "GetEntity f key d =
     (case db_call f (get_entity_stmt key) PgError d of
        (Inr v, d') \<Rightarrow> (Inr (Some v), d')
      | (Inl e, d') \<Rightarrow> if e = ErrNoRows then (Inr None, d') else (Inl e, d'))"

text \<open>\<open>Ping\<close> touches no table.\<close>

definition Ping :: "fault \<Rightarrow> db \<Rightarrow> unit outcome" where
  "Ping f d = db_call f (\<lambda>d. (Inr (), d)) PgError d"

text \<open>A concrete database of the examples: what it and its driver compute.\<close>

definition demo_pg :: pg where
  "demo_pg = \<lparr>jsonb = (\<lambda>b. b), pg_time = (\<lambda>t. unix_sec t * 1000000 + int (nanosec t) div 1000),
     real4 = (\<lambda>x. x), make_interval = (\<lambda>ns. ns div 1000), uuid_in = map lower_byte\<rparr>"

end
