(* ===== verification/Store_Inv.thy ===== *)
theory Store_Inv
  imports Store "HOL-Library.Sublist"
begin

text \<open>
  What every repository method keeps: the integrity of the tables (\<open>db_ok\<close>: primary keys, the
  unique payload hash, one fact per raw event, the foreign key) and the direction the data
  moves in (\<open>evolves\<close>: raw payloads and facts are append-only, an entity never disappears,
  never changes its type and never loses rank). The contract is the locale \<open>durable_op\<close>; its
  interpretations below discharge it for each method, whatever faults the calls meet.
\<close>

definition db_ok :: "db \<Rightarrow> bool" where
  "db_ok d \<longleftrightarrow>
     unique_on rr_id (raw_events d) \<and> unique_on rr_payload_hash (raw_events d)
     \<and> unique_on nr_raw_event_id (normalized_events d) \<and> unique_on e_EntityKey (entities d)
     \<and> nr_raw_event_id ` set (normalized_events d) \<subseteq> rr_id ` set (raw_events d)"

text \<open>The columns of a raw event that no statement updates.\<close>

definition raw_core :: "raw_row \<Rightarrow> string \<times> string \<times> bytes \<times> string option \<times> timestamptz" where
  "raw_core r = (rr_id r, rr_payload_hash r, rr_raw_payload r, rr_source r, rr_received_at r)"

definition entities_advance :: "Entity list \<Rightarrow> Entity list \<Rightarrow> bool" where
  "entities_advance es es' \<longleftrightarrow>
     (\<forall>key e. select_by e_EntityKey key es = Some e \<longrightarrow>
        (\<exists>e'. select_by e_EntityKey key es' = Some e' \<and> e_Type e' = e_Type e
              \<and> e_CurrentRank e \<le> e_CurrentRank e'))"

definition evolves :: "db \<Rightarrow> db \<Rightarrow> bool" where
  "evolves d d' \<longleftrightarrow>
     prefix (map raw_core (raw_events d)) (map raw_core (raw_events d'))
     \<and> prefix (normalized_events d) (normalized_events d')
     \<and> entities_advance (entities d) (entities d')"

lemma entities_advance_refl [simp]: "entities_advance es es"
  by (simp add: entities_advance_def)

lemma entities_advance_trans:
  "entities_advance es es' \<Longrightarrow> entities_advance es' es'' \<Longrightarrow> entities_advance es es''"
  unfolding entities_advance_def by (metis order_trans)

lemma evolves_refl [simp]: "evolves d d"
  by (simp add: evolves_def)

lemma evolves_trans [trans]: "evolves d d' \<Longrightarrow> evolves d' d'' \<Longrightarrow> evolves d d''"
  by (auto simp: evolves_def intro: entities_advance_trans prefix_order.trans)

locale durable_op =
  fixes opn :: "db \<Rightarrow> 'a \<times> db"
  assumes keeps_ok: "db_ok d \<Longrightarrow> db_ok (snd (opn d))"
    and advances: "evolves d (snd (opn d))"
begin

lemma fact_stays: "n \<in> set (normalized_events d) \<Longrightarrow> n \<in> set (normalized_events (snd (opn d)))"
  using advances [of d] by (auto simp: evolves_def dest: set_mono_prefix)

lemma core_stays:
  "c \<in> raw_core ` set (raw_events d) \<Longrightarrow> c \<in> raw_core ` set (raw_events (snd (opn d)))"
  using advances [of d] set_mono_prefix unfolding evolves_def by (metis list.set_map subsetD)

lemma rank_stays:
  "select_by e_EntityKey key (entities d) = Some e \<Longrightarrow>
   \<exists>e'. select_by e_EntityKey key (entities (snd (opn d))) = Some e'
     \<and> e_Type e' = e_Type e \<and> e_CurrentRank e \<le> e_CurrentRank e'"
  using advances [of d] by (auto simp: evolves_def entities_advance_def)

end

text \<open>Composition: a call under faults, a continuation that depends on the result.\<close>

lemma durable_same: "(\<And>d. snd (opn d) = d) \<Longrightarrow> durable_op opn"
  by unfold_locales simp_all

lemma durable_db_call: "durable_op f \<Longrightarrow> durable_op (db_call flt f mk)"
proof -
  assume f: "durable_op f"
  show ?thesis
  proof unfold_locales
    fix d :: db
    show "db_ok d \<Longrightarrow> db_ok (snd (db_call flt f mk d))"
      using db_call_state [of flt f mk d] durable_op.keeps_ok [OF f, of d] by auto
    show "evolves d (snd (db_call flt f mk d))"
      using db_call_state [of flt f mk d] durable_op.advances [OF f, of d] by auto
  qed
qed

lemma durable_bind:
  assumes f: "durable_op f" and g: "\<And>a. durable_op (g a)"
  shows "durable_op (\<lambda>d. case f d of (a, d') \<Rightarrow> g a d')"
proof unfold_locales
  fix d :: db
  obtain a d' where fd: "f d = (a, d')" by fastforce
  show "db_ok d \<Longrightarrow> db_ok (snd (case f d of (a, d') \<Rightarrow> g a d'))"
    using durable_op.keeps_ok [OF f, of d] durable_op.keeps_ok [OF g, of d' a] fd by simp
  show "evolves d (snd (case f d of (a, d') \<Rightarrow> g a d'))"
    using durable_op.advances [OF f, of d] durable_op.advances [OF g, of d' a] fd
    by (auto intro: evolves_trans)
qed

subsection \<open>Statements on raw events\<close>

lemma evolves_raw_update:
  assumes "\<And>r. raw_core (f r) = raw_core r"
  shows "evolves d (d\<lparr>raw_events := update_where Q f (raw_events d)\<rparr>)"
  using assms by (simp add: evolves_def map_update_where)

lemma db_ok_raw_update:
  assumes core: "\<And>r. raw_core (f r) = raw_core r" and "db_ok d"
  shows "db_ok (d\<lparr>raw_events := update_where Q f (raw_events d)\<rparr>)"
proof -
  have "rr_id (f r) = rr_id r" "rr_payload_hash (f r) = rr_payload_hash r" for r
    using core [of r] by (simp_all add: raw_core_def)
  moreover from this have "rr_id ` set (update_where Q f (raw_events d)) = rr_id ` set (raw_events d)"
    by (metis (mono_tags, lifting) list.set_map map_update_where)
  ultimately show ?thesis
    using assms(2) by (simp add: db_ok_def unique_on_update_where)
qed

lemma durable_update_raw: "(\<And>r. raw_core (f r) = raw_core r) \<Longrightarrow> durable_op (update_raw eid f)"
  by unfold_locales (simp_all add: update_raw_def db_ok_raw_update evolves_raw_update)

lemma durable_insert_raw: "durable_op (insert_raw_stmt P now nid hash payload source)"
proof unfold_locales
  fix d :: db
  show "db_ok d \<Longrightarrow> db_ok (snd (insert_raw_stmt P now nid hash payload source d))"
    by (auto simp: insert_raw_stmt_def db_ok_def table_simps new_raw_def)
  show "evolves d (snd (insert_raw_stmt P now nid hash payload source d))"
    by (simp add: insert_raw_stmt_def evolves_def)
qed

lemma durable_claim: "durable_op (claim_stmt P now lease locked)"
proof -
  have "raw_core (claimed P now lease r) = raw_core r" for r
    by (simp add: claimed_def raw_core_def)
  then show ?thesis
    by unfold_locales
      (simp_all add: claim_stmt_def db_ok_raw_update evolves_raw_update split: option.splits)
qed

text \<open>Statements that read change nothing, under any fault.\<close>

lemma db_call_read: "(\<And>d. snd (f d) = d) \<Longrightarrow> snd (db_call flt f mk d) = d"
  using db_call_state [of flt f mk d] by auto

lemma durable_cong: "durable_op g \<Longrightarrow> (\<And>d. snd (f d) = snd (g d)) \<Longrightarrow> durable_op f"
  by (simp add: durable_op_def)

lemma select_id_state [simp]: "snd (select_id_stmt hash d) = d"
  by (simp add: select_id_stmt_def split: option.splits)

lemma InsertRaw_state:
  "snd (InsertRaw P f1 f2 now nid hash payload source d) =
   snd (db_call f1 (insert_raw_stmt P now nid hash payload source) PgError d)"
proof -
  have "snd (db_call f2 (select_id_stmt hash) PgError d') = d'" for d'
    by (rule db_call_read) simp
  then show ?thesis
    by (auto simp: InsertRaw_def split: prod.splits sum.splits) (metis snd_conv)+
qed

lemma Store_Claim_state:
  "snd (Store_Claim P f now lease locked d) = snd (db_call f (claim_stmt P now lease locked) PgError d)"
  by (auto simp: Store_Claim_def split: prod.splits sum.splits)

interpretation insert_raw: durable_op "InsertRaw P f1 f2 now nid hash payload source"
  for P f1 f2 now nid hash payload source
  by (rule durable_cong [OF durable_db_call [OF durable_insert_raw] InsertRaw_state])

interpretation store_claim: durable_op "Store_Claim P f now lease locked"
  for P f now lease locked
  by (rule durable_cong [OF durable_db_call [OF durable_claim] Store_Claim_state])

interpretation mark_processed: durable_op "MarkProcessed f eid" for f eid
  unfolding MarkProcessed_def [abs_def]
  by (rule durable_db_call [OF durable_update_raw]) (simp add: raw_core_def)

lemma durable_dead_letter: "durable_op (update_raw eid (dead_letter reason))"
  by (rule durable_update_raw) (simp add: raw_core_def dead_letter_def)

interpretation retry_or_fail: durable_op "RetryOrFail P f now eid attempts maxAttempts backoff reason"
  for P f now eid attempts maxAttempts backoff reason
proof (cases "attempts \<ge> maxAttempts")
  case True
  then show "durable_op (RetryOrFail P f now eid attempts maxAttempts backoff reason)"
    by (simp add: RetryOrFail_def [abs_def] durable_db_call durable_dead_letter)
next
  case False
  then show "durable_op (RetryOrFail P f now eid attempts maxAttempts backoff reason)"
    by (simp add: RetryOrFail_def [abs_def] durable_db_call durable_update_raw raw_core_def)
qed

interpretation store_fail: durable_op "Store_Fail f eid reason" for f eid reason
  unfolding Store_Fail_def [abs_def] by (rule durable_db_call [OF durable_dead_letter])

subsection \<open>Statements on facts and entities\<close>

lemma durable_insert_normalized: "durable_op (insert_normalized_stmt row)"
proof unfold_locales
  fix d :: db
  show "db_ok d \<Longrightarrow> db_ok (snd (insert_normalized_stmt row d))"
    by (auto simp: insert_normalized_stmt_def db_ok_def table_simps)
  show "evolves d (snd (insert_normalized_stmt row d))"
    by (simp add: insert_normalized_stmt_def evolves_def)
qed

interpretation insert_normalized: durable_op "InsertNormalized P f now rawID n m v" for P f now rawID n m v
  unfolding InsertNormalized_def [abs_def] by (rule durable_db_call [OF durable_insert_normalized])

lemma entities_advance_append:
  "entities_advance es (es @ [e])"
  by (auto simp: entities_advance_def table_simps)

lemma entities_advance_update:
  assumes "\<And>e. Q e \<Longrightarrow> e_EntityKey (f e) = e_EntityKey e \<and> e_Type (f e) = e_Type e
    \<and> e_CurrentRank e \<le> e_CurrentRank (f e)"
  shows "entities_advance es (update_where Q f es)"
  using assms by (auto simp: entities_advance_def select_by_update_where)

lemma durable_entities_update:
  assumes "\<And>e. Q e \<Longrightarrow> e_EntityKey (f e) = e_EntityKey e \<and> e_Type (f e) = e_Type e
    \<and> e_CurrentRank e \<le> e_CurrentRank (f e)"
  shows "db_ok d \<Longrightarrow> db_ok (d\<lparr>entities := update_where Q f (entities d)\<rparr>)"
    and "evolves d (d\<lparr>entities := update_where Q f (entities d)\<rparr>)"
  using assms by (simp_all add: db_ok_def evolves_def unique_on_update_where entities_advance_update)

lemma durable_entities_append:
  assumes "select_by e_EntityKey (e_EntityKey e) (entities d) = None"
  shows "db_ok d \<Longrightarrow> db_ok (d\<lparr>entities := entities d @ [e]\<rparr>)"
    and "evolves d (d\<lparr>entities := entities d @ [e]\<rparr>)"
  using assms by (simp_all add: db_ok_def evolves_def table_simps select_by_None entities_advance_append)

lemma durable_upsert: "durable_op (upsert_shipment now key state rank et)"
proof unfold_locales
  fix d :: db
  show "db_ok d \<Longrightarrow> db_ok (snd (upsert_shipment now key state rank et d))"
    by (cases "select_by e_EntityKey key (entities d)")
      (auto simp: upsert_shipment_def intro!: durable_entities_append durable_entities_update)
  show "evolves d (snd (upsert_shipment now key state rank et d))"
    by (cases "select_by e_EntityKey key (entities d)")
      (auto simp: upsert_shipment_def intro!: durable_entities_append durable_entities_update)
qed

interpretation apply_shipment: durable_op "ApplyShipment P f now key state rank et" for P f now key state rank et
  unfolding ApplyShipment_def [abs_def] by (rule durable_db_call [OF durable_upsert])

text \<open>What the transaction of an invoice leaves behind: nothing, a new row, or the row advanced.\<close>

lemma commit_state: "snd (db_call fc (\<lambda>_. (Inr (), d')) PgError d) = d \<or> snd (db_call fc (\<lambda>_. (Inr (), d')) PgError d) = d'"
  by (cases fc) simp_all

lemma ApplyInvoice_new:
  assumes "select_by e_EntityKey key (entities d) = None"
    and "d' = d\<lparr>entities := entities d @ [new_invoice now key state (map_option (pg_time P) et) amt cur]\<rparr>"
  shows "snd (ApplyInvoice P fb fs fw fc now key state et amt cur d) \<in> {d, d'}"
  using assms commit_state [of fc d' d]
  by (cases "tx_error fb"; cases "tx_error fs"; cases "tx_error fw") (simp_all add: ApplyInvoice_def)

lemma ApplyInvoice_old:
  assumes "select_by e_EntityKey key (entities d) = Some row"
    and "d' = d\<lparr>entities := update_where (\<lambda>e. e_EntityKey e = key)
           (advance_invoice now state (map_option (pg_time P) et) amt cur) (entities d)\<rparr>"
  shows "snd (ApplyInvoice P fb fs fw fc now key state et amt cur d)
    \<in> (if InvoiceTransitionAllowed (e_CurrentState row) state then {d, d'} else {d})"
  using assms commit_state [of fc d' d] commit_state [of fc d d]
  by (cases "tx_error fb"; cases "tx_error fs"; cases "tx_error fw") (simp_all add: ApplyInvoice_def)

lemma ApplyInvoice_state:
  obtains "snd (ApplyInvoice P fb fs fw fc now key state et amt cur d) = d"
  | "select_by e_EntityKey key (entities d) = None"
    "snd (ApplyInvoice P fb fs fw fc now key state et amt cur d) =
       d\<lparr>entities := entities d @ [new_invoice now key state (map_option (pg_time P) et) amt cur]\<rparr>"
  | row where "select_by e_EntityKey key (entities d) = Some row"
    "InvoiceTransitionAllowed (e_CurrentState row) state"
    "snd (ApplyInvoice P fb fs fw fc now key state et amt cur d) =
       d\<lparr>entities := update_where (\<lambda>e. e_EntityKey e = key)
           (advance_invoice now state (map_option (pg_time P) et) amt cur) (entities d)\<rparr>"
proof (cases "select_by e_EntityKey key (entities d)")
  case None
  then show thesis using that(1,2) ApplyInvoice_new [OF None refl] by blast
next
  case (Some row)
  from ApplyInvoice_old [OF this refl, of P fb fs fw fc now state et amt cur] show thesis
    using that(1) that(3) [OF Some]
    by (cases "InvoiceTransitionAllowed (e_CurrentState row) state") auto
qed

interpretation apply_invoice: durable_op "ApplyInvoice P fb fs fw fc now key state et amt cur"
  for P fb fs fw fc now key state et amt cur
proof unfold_locales
  fix d :: db
  show "db_ok d \<Longrightarrow> db_ok (snd (ApplyInvoice P fb fs fw fc now key state et amt cur d))"
    by (rule ApplyInvoice_state [of P fb fs fw fc now key state et amt cur d])
      (simp_all add: durable_entities_append durable_entities_update new_invoice_def advance_invoice_def)
  show "evolves d (snd (ApplyInvoice P fb fs fw fc now key state et amt cur d))"
    by (rule ApplyInvoice_state [of P fb fs fw fc now key state et amt cur d])
      (simp_all add: durable_entities_append durable_entities_update new_invoice_def advance_invoice_def)
qed

end
