(* ===== verification/Raw_Log.thy ===== *)
theory Raw_Log
  imports Store_Inv
begin

text \<open>
  The raw log and the facts: the deduplication gate of the ingestion side, the lease that
  hands a row to one worker at a time, the retry cap and the single fact of a raw event.
  The lemmas describe each method by what it does to the row it is about; the properties
  combine them with \<open>evolves\<close>, so that they hold whatever other methods did in between.
\<close>

subsection \<open>Looking up raw events\<close>

lemma raw_core_hash: "raw_core r = raw_core r' \<Longrightarrow> rr_payload_hash r = rr_payload_hash r'"
  and raw_core_id: "raw_core r = raw_core r' \<Longrightarrow> rr_id r = rr_id r'"
  by (simp_all add: raw_core_def)

lemma evolves_raw:
  assumes "evolves d d'" and "r \<in> set (raw_events d)"
  obtains r' where "r' \<in> set (raw_events d')" "raw_core r' = raw_core r"
proof -
  have "raw_core r \<in> set (map raw_core (raw_events d'))"
    using assms set_mono_prefix unfolding evolves_def by (metis image_eqI list.set_map subsetD)
  with that show thesis by auto
qed

text \<open>Once a hash has a row, every later state has that hash, with that id.\<close>

lemma hash_stays:
  assumes "evolves d d'" and "db_ok d'" and "select_by rr_payload_hash hash (raw_events d) = Some r"
  shows "\<exists>r'. select_by rr_payload_hash hash (raw_events d') = Some r' \<and> raw_core r' = raw_core r"
proof -
  from assms(3) have r: "r \<in> set (raw_events d)" "rr_payload_hash r = hash"
    by (auto dest: select_by_SomeD)
  from assms(1) r(1) obtain r' where r': "r' \<in> set (raw_events d')" "raw_core r' = raw_core r"
    by (rule evolves_raw)
  with assms(2) have "select_by rr_payload_hash (rr_payload_hash r') (raw_events d') = Some r'"
    by (auto simp: db_ok_def intro: select_by_mem)
  with r' r(2) raw_core_hash show ?thesis by metis
qed

lemma InsertRaw_ok:
  assumes "InsertRaw P f1 f2 now nid hash payload source d = (Inr (eid, isNew), d')"
  obtains "isNew" "hash \<notin> rr_payload_hash ` set (raw_events d)" "eid = nid"
    "nid \<notin> rr_id ` set (raw_events d)"
    "d' = d\<lparr>raw_events := raw_events d @ [new_raw P now nid hash payload source]\<rparr>"
  | r where "\<not> isNew" "d' = d" "select_by rr_payload_hash hash (raw_events d) = Some r" "rr_id r = eid"
proof (cases "db_call f1 (insert_raw_stmt P now nid hash payload source) PgError d")
  case (Pair a d1)
  show thesis
  proof (cases a)
    case (Inr x)
    from Pair have "insert_raw_stmt P now nid hash payload source d = (Inr x, d1)"
      unfolding Inr by (rule db_call_Inr)
    with Pair Inr assms that(1) show thesis
      by (auto simp: InsertRaw_def insert_raw_stmt_def split: if_splits)
  next
    case (Inl e)
    with Pair assms have e: "e = ErrNoRows"
      and "\<exists>x. db_call f2 (select_id_stmt hash) PgError d1 = (Inr x, d') \<and> x = eid" "\<not> isNew"
      by (auto simp: InsertRaw_def split: prod.splits sum.splits if_splits)
    then have sel: "select_id_stmt hash d1 = (Inr eid, d')" "\<not> isNew"
      by (auto dest: db_call_Inr)
    have "d1 = d"
      using Pair Inl e by (cases f1) (auto simp: insert_raw_stmt_def split: if_splits)
    with sel that(2) show thesis
      by (auto simp: select_id_stmt_def split: option.splits)
  qed
qed

lemma InsertRaw_row:
  assumes "InsertRaw P f1 f2 now nid hash payload source d = (Inr (eid, isNew), d')"
  obtains r where "select_by rr_payload_hash hash (raw_events d') = Some r" "rr_id r = eid"
  using assms
proof (rule InsertRaw_ok)
  assume new: "hash \<notin> rr_payload_hash ` set (raw_events d)" "eid = nid"
    "d' = d\<lparr>raw_events := raw_events d @ [new_raw P now nid hash payload source]\<rparr>"
  then have "select_by rr_payload_hash hash (raw_events d) = None"
    by (simp add: select_by_None)
  with new that show thesis by (auto simp: table_simps new_raw_def)
qed (use that in auto)

lemma InsertRaw_known:
  assumes "select_by rr_payload_hash hash (raw_events d) = Some r"
  shows "InsertRaw P NoFault NoFault now nid hash payload source d = (Inr (rr_id r, False), d)"
proof -
  have "hash \<in> rr_payload_hash ` set (raw_events d)"
    using assms select_by_None [of rr_payload_hash hash "raw_events d"] by auto
  with assms show ?thesis by (simp add: InsertRaw_def insert_raw_stmt_def select_id_stmt_def)
qed

subsection \<open>Claims\<close>

lemma Store_Claim_ok:
  assumes "Store_Claim P f now lease locked d = (Inr (Some e), d')"
  obtains r where "first_by rr_received_at
      (filter (\<lambda>r. claimable now r \<and> rr_id r \<notin> set locked) (raw_events d)) = Some r"
    "rr_attempts r < 2147483647"
    "e = \<lparr>re_ID = rr_id r, re_Payload = rr_raw_payload r, re_Attempts = rr_attempts r + 1\<rparr>"
    "d' = d\<lparr>raw_events := update_where (\<lambda>r'. rr_id r' = rr_id r) (claimed P now lease) (raw_events d)\<rparr>"
proof -
  from assms have "db_call f (claim_stmt P now lease locked) PgError d = (Inr e, d')"
    by (auto simp: Store_Claim_def split: prod.splits sum.splits if_splits)
  then have "claim_stmt P now lease locked d = (Inr e, d')" by (rule db_call_Inr)
  with that show thesis by (auto simp: claim_stmt_def split: option.splits if_splits)
qed

lemma Store_Claim_picks:
  assumes "Store_Claim P f now lease locked d = (Inr (Some e), d')"
  shows "\<exists>r \<in> set (raw_events d). claimable now r \<and> rr_id r \<notin> set locked \<and> re_ID e = rr_id r"
  using assms by (rule Store_Claim_ok) (fastforce dest: first_by_SomeD)

lemma claimed_not_claimable:
  "now' \<le> now + make_interval P lease \<Longrightarrow> \<not> claimable now' (claimed P now lease r)"
  by (simp add: claimable_def claimed_def)

subsection \<open>Facts\<close>

lemma unique_filter: "unique_on k rs \<Longrightarrow> r \<in> set rs \<Longrightarrow> filter (\<lambda>r'. k r' = k r) rs = [r]"
  by (induction rs) (auto simp: unique_on_def filter_empty_conv rev_image_eqI)

lemma filter_select:
  "unique_on k rs \<Longrightarrow> select_by k x rs = Some r \<Longrightarrow> filter (\<lambda>r'. k r' = x) rs = [r]"
  using unique_filter [of k rs r] by (auto dest: select_by_SomeD)

text \<open>The fact a raw event has, in any later state of the database, is the one it got first.\<close>

lemma fact_select_stays:
  assumes "evolves d d'" and "db_ok d'" and "select_by nr_raw_event_id rid (normalized_events d) = Some n"
  shows "select_by nr_raw_event_id rid (normalized_events d') = Some n"
proof -
  from assms(1,3) have "n \<in> set (normalized_events d')" "nr_raw_event_id n = rid"
    by (auto simp: evolves_def dest: select_by_SomeD set_mono_prefix)
  with assms(2) show ?thesis by (auto simp: db_ok_def intro: select_by_mem)
qed

lemma InsertNormalized_ok:
  assumes "InsertNormalized P f now rid n m v d = (Inr (), d')"
  shows "(case select_by nr_raw_event_id rid (normalized_events d) of
       Some row \<Rightarrow> d' = d
     | None \<Rightarrow> d' = d\<lparr>normalized_events := normalized_events d @ [new_norm P now rid n m v]\<rparr>)"
proof -
  from assms have "insert_normalized_stmt (new_norm P now rid n m v) d = (Inr (), d')"
    unfolding InsertNormalized_def by (rule db_call_Inr)
  moreover have "nr_raw_event_id (new_norm P now rid n m v) = rid"
    by (simp add: new_norm_def)
  ultimately show ?thesis
    using select_by_None [of nr_raw_event_id rid "normalized_events d"]
    by (auto simp: insert_normalized_stmt_def split: if_splits option.splits)
qed

subsection \<open>A worker that dies on every delivery\<close>

text \<open>\<open>n\<close> claims of a worker that dies before it answers, each just after the last lease ran out.\<close>

fun crash_run :: "pg \<Rightarrow> int \<Rightarrow> nat \<Rightarrow> timestamptz \<Rightarrow> db \<Rightarrow> timestamptz \<times> db" where
  "crash_run P lease 0 now d = (now, d)"
| "crash_run P lease (Suc n) now d =
     crash_run P lease n (now + make_interval P lease + 1) (snd (Store_Claim P NoFault now lease [] d))"

lemma claim_single:
  assumes "raw_events d = [r]" and "claimable now r" and "rr_attempts r < 2147483647"
  shows "Store_Claim P NoFault now lease [] d =
    (Inr (Some \<lparr>re_ID = rr_id r, re_Payload = rr_raw_payload r, re_Attempts = rr_attempts r + 1\<rparr>),
     d\<lparr>raw_events := [claimed P now lease r]\<rparr>)"
  using assms by (simp add: Store_Claim_def claim_stmt_def)

lemma crash_run_claims:
  assumes "raw_events d = [r]" and "claimable now r" and "rr_attempts r + int n < 2147483647"
  shows "case crash_run P lease n now d of (now', d') \<Rightarrow>
    \<exists>e d''. Store_Claim P NoFault now' lease [] d' = (Inr (Some e), d'')
      \<and> re_ID e = rr_id r \<and> re_Attempts e = rr_attempts r + int n + 1"
  using assms
proof (induction n arbitrary: d r now)
  case 0
  then show ?case by (simp add: claim_single)
next
  case (Suc n)
  have c: "claimable (now + make_interval P lease + 1) (claimed P now lease r)"
    by (simp add: claimable_def claimed_def)
  have a: "rr_attempts (claimed P now lease r) = rr_attempts r + 1" "rr_id (claimed P now lease r) = rr_id r"
    by (simp_all add: claimed_def)
  have s: "snd (Store_Claim P NoFault now lease [] d) = d\<lparr>raw_events := [claimed P now lease r]\<rparr>"
    using Suc.prems by (simp add: claim_single)
  show ?case
    using Suc.IH [of "d\<lparr>raw_events := [claimed P now lease r]\<rparr>", OF _ c] Suc.prems(3)
    by (simp add: s a algebra_simps)
qed

subsection \<open>Inputs of the examples\<close>

definition demo_raw :: "RawStatus \<Rightarrow> raw_row" where
  "demo_raw st = new_raw demo_pg 10 ''id1'' ''h1'' ''{}'' ''maersk''\<lparr>rr_status := st\<rparr>"

definition demo_log :: "RawStatus \<Rightarrow> db" where
  "demo_log st = \<lparr>raw_events = [demo_raw st], normalized_events = [], entities = []\<rparr>"

definition demo_other :: db where
  "demo_other = \<lparr>raw_events = [demo_raw StatusPending, (demo_raw StatusPending)\<lparr>rr_id := ''id2'',
     rr_payload_hash := ''h2'', rr_received_at := 11\<rparr>], normalized_events = [], entities = []\<rparr>"

lemma demo_log_ok: "db_ok (demo_log st)" "db_ok demo_other"
  by (simp_all add: demo_log_def demo_other_def demo_raw_def new_raw_def db_ok_def unique_on_def)

subsection \<open>Properties of the raw log\<close>

text \<open>
  The deduplication gate. When a payload was accepted, it is new exactly when no stored
  payload has its hash, and a duplicate leaves the database as it was. From then on, whatever
  the system did in between, a payload of the same hash is answered with the same id, as a
  duplicate, and stores nothing.
\<close>

theorem InsertRaw_dedup:
  assumes "InsertRaw P f1 f2 now nid hash payload source d = (Inr (eid, isNew), d')"
    and "evolves d' d''" and "db_ok d''"
  shows "(isNew \<longleftrightarrow> hash \<notin> rr_payload_hash ` set (raw_events d)) \<and> (\<not> isNew \<longrightarrow> d' = d)
    \<and> InsertRaw P NoFault NoFault now' nid' hash payload' source' d'' = (Inr (eid, False), d'')"
proof (intro conjI)
  from assms(1) show "isNew \<longleftrightarrow> hash \<notin> rr_payload_hash ` set (raw_events d)"
    by (rule InsertRaw_ok) (auto dest: select_by_SomeD)
  from assms(1) show "\<not> isNew \<longrightarrow> d' = d"
    by (rule InsertRaw_ok) auto
  from assms(1) obtain r where r: "select_by rr_payload_hash hash (raw_events d') = Some r" "rr_id r = eid"
    by (rule InsertRaw_row)
  from hash_stays [OF assms(2,3) r(1)] obtain r'
    where "select_by rr_payload_hash hash (raw_events d'') = Some r'" "raw_core r' = raw_core r" by blast
  with r(2) show "InsertRaw P NoFault NoFault now' nid' hash payload' source' d'' = (Inr (eid, False), d'')"
    using InsertRaw_known [of hash d'' r'] raw_core_id [of r' r] by simp
qed

theorem InsertRaw_dedup_witness:
  "InsertRaw demo_pg NoFault NoFault 99 ''id9'' ''h1'' ''[]'' ''x''
     (snd (MarkProcessed NoFault ''id1'' (demo_log StatusPending))) =
   (Inr (''id1'', False), snd (MarkProcessed NoFault ''id1'' (demo_log StatusPending)))"
proof -
  have "InsertRaw demo_pg NoFault NoFault 10 ''id1'' ''h1'' ''{}'' ''maersk'' empty_db =
      (Inr (''id1'', True), demo_log StatusPending)"
    by (simp add: InsertRaw_def insert_raw_stmt_def empty_db_def demo_log_def demo_raw_def new_raw_def)
  then show ?thesis
    using InsertRaw_dedup [OF _ mark_processed.advances mark_processed.keeps_ok [OF demo_log_ok(1)]] by metis
qed

text \<open>
  A sender that got an error can send again. If storing a payload failed at any of its
  statements, before or after it took effect, then repeating the call succeeds, afterwards
  exactly one row has the payload's hash, and all rows there were before are still the same.
\<close>

theorem InsertRaw_resend:
  assumes "db_ok d" and "InsertRaw P f1 f2 now nid hash payload source d = (Inl err, d')"
    and "nid' \<notin> rr_id ` set (raw_events d')"
  shows "\<exists>eid isNew d'' r. InsertRaw P NoFault NoFault now' nid' hash payload source d' = (Inr (eid, isNew), d'')
    \<and> filter (\<lambda>r. rr_payload_hash r = hash) (raw_events d'') = [r] \<and> rr_id r = eid
    \<and> prefix (raw_events d) (raw_events d'')"
proof -
  have ok: "db_ok d'"
    using insert_raw.keeps_ok [OF assms(1), of P f1 f2 now nid hash payload source] assms(2) by simp
  have pre: "prefix (raw_events d) (raw_events d')"
    using InsertRaw_state [of P f1 f2 now nid hash payload source d] assms(2)
    by (cases f1) (auto simp: insert_raw_stmt_def split: if_splits)
  obtain eid isNew d'' where
    ins: "InsertRaw P NoFault NoFault now' nid' hash payload source d' = (Inr (eid, isNew), d'')"
    and pre': "prefix (raw_events d') (raw_events d'')"
  proof (cases "select_by rr_payload_hash hash (raw_events d')")
    case None
    with assms(3) that show thesis
      by (simp add: InsertRaw_def insert_raw_stmt_def select_by_None)
  next
    case (Some r)
    then show thesis using that [OF InsertRaw_known] by simp
  qed
  from ins obtain r where r: "select_by rr_payload_hash hash (raw_events d'') = Some r" "rr_id r = eid"
    by (rule InsertRaw_row)
  have "db_ok d''"
    using insert_raw.keeps_ok [OF ok, of P NoFault NoFault now' nid' hash payload source] ins by simp
  with r ins pre pre' show ?thesis
    by (auto simp: db_ok_def filter_select intro: prefix_order.trans)
qed

theorem InsertRaw_resend_witness:
  "\<exists>eid isNew d'' r. InsertRaw demo_pg NoFault NoFault 11 ''id2'' ''h1'' ''{}'' ''maersk''
       (demo_log StatusPending) = (Inr (eid, isNew), d'')
    \<and> filter (\<lambda>r. rr_payload_hash r = ''h1'') (raw_events d'') = [r] \<and> rr_id r = eid
    \<and> prefix (raw_events empty_db) (raw_events d'')"
  by (rule InsertRaw_resend [of _ _ "FaultAfter ''lost''" NoFault 10 "''id1''" _ _ _ "PgError ''lost''"])
    (simp_all add: db_ok_def empty_db_def InsertRaw_def insert_raw_stmt_def demo_log_def demo_raw_def new_raw_def)

text \<open>
  One immutable fact per raw event. A successful insert leaves exactly one fact for the raw
  event; if there was one before, the database is unchanged and the new result is dropped; and
  every later state of the database has that same fact.
\<close>

theorem InsertNormalized_first_wins:
  assumes "db_ok d" and "InsertNormalized P f now rid n m v d = (Inr (), d')" and "evolves d' d''" and "db_ok d''"
  shows "\<exists>row. filter (\<lambda>r. nr_raw_event_id r = rid) (normalized_events d'') = [row]
    \<and> (case select_by nr_raw_event_id rid (normalized_events d) of
         Some old \<Rightarrow> d' = d \<and> row = old | None \<Rightarrow> row = new_norm P now rid n m v)"
proof -
  obtain row where row: "select_by nr_raw_event_id rid (normalized_events d') = Some row"
    "case select_by nr_raw_event_id rid (normalized_events d) of
       Some old \<Rightarrow> d' = d \<and> row = old | None \<Rightarrow> row = new_norm P now rid n m v"
    using InsertNormalized_ok [OF assms(2)]
    by (auto simp: table_simps new_norm_def split: option.splits)
  from fact_select_stays [OF assms(3,4) row(1)] assms(4)
  have "filter (\<lambda>r. nr_raw_event_id r = rid) (normalized_events d'') = [row]"
    by (simp add: db_ok_def filter_select)
  with row(2) show ?thesis by blast
qed

theorem InsertNormalized_first_wins_witness:
  "\<exists>row. filter (\<lambda>r. nr_raw_event_id r = ''id1'')
      (normalized_events (snd (InsertNormalized demo_pg NoFault 5 ''id1'' demo_fact ''m'' ''v1''
        (demo_log StatusProcessing)))) = [row]"
proof -
  have ok: "InsertNormalized demo_pg NoFault 5 ''id1'' demo_fact ''m'' ''v1'' (demo_log StatusProcessing) =
      (Inr (), snd (InsertNormalized demo_pg NoFault 5 ''id1'' demo_fact ''m'' ''v1'' (demo_log StatusProcessing)))"
    by (simp add: InsertNormalized_def insert_normalized_stmt_def new_norm_def demo_fact_def demo_log_def
        demo_raw_def new_raw_def)
  show ?thesis
    using InsertNormalized_first_wins [OF demo_log_ok(1) ok evolves_refl
        insert_normalized.keeps_ok [OF demo_log_ok(1)]] by blast
qed


text \<open>
  A claim takes the oldest row that is waiting. Without a fault, the answer is empty
  exactly when no row is claimable and free; a row that is handed out was pending or its
  lease had run out (so never a processed or dead-lettered one), no claimable free row was
  received earlier, its counter went up by one, it is leased from now on, and no other row
  changed.
\<close>

theorem Store_Claim_oldest:
  assumes "db_ok d" and "\<forall>r \<in> set (raw_events d). rr_attempts r < 2147483647"
  shows "case Store_Claim P NoFault now lease locked d of
      (Inl e, d') \<Rightarrow> False
    | (Inr None, d') \<Rightarrow> d' = d \<and> (\<forall>r \<in> set (raw_events d). \<not> claimable now r \<or> rr_id r \<in> set locked)
    | (Inr (Some e), d') \<Rightarrow> \<exists>r \<in> set (raw_events d).
        claimable now r \<and> rr_id r \<notin> set locked
        \<and> (\<forall>r' \<in> set (raw_events d). claimable now r' \<and> rr_id r' \<notin> set locked \<longrightarrow> rr_received_at r \<le> rr_received_at r')
        \<and> e = \<lparr>re_ID = rr_id r, re_Payload = rr_raw_payload r, re_Attempts = rr_attempts r + 1\<rparr>
        \<and> d' = d\<lparr>raw_events := map (\<lambda>r'. if r' = r then claimed P now lease r else r') (raw_events d)\<rparr>"
proof (cases "first_by rr_received_at (filter (\<lambda>r. claimable now r \<and> rr_id r \<notin> set locked) (raw_events d))")
  case None
  then show ?thesis by (auto simp: Store_Claim_def claim_stmt_def filter_empty_conv)
next
  case (Some r)
  then have r: "r \<in> set (raw_events d)" "claimable now r" "rr_id r \<notin> set locked"
    and least: "\<forall>r' \<in> set (raw_events d). claimable now r' \<and> rr_id r' \<notin> set locked \<longrightarrow>
      rr_received_at r \<le> rr_received_at r'"
    by (auto dest: first_by_SomeD)
  have "update_where (\<lambda>r'. rr_id r' = rr_id r) (claimed P now lease) (raw_events d) =
      map (\<lambda>r'. if r' = r then claimed P now lease r else r') (raw_events d)"
    unfolding update_where_def using assms(1) r(1)
    by (auto simp: db_ok_def dest: unique_onD)
  with Some r least assms(2) show ?thesis
    by (auto simp: Store_Claim_def claim_stmt_def)
qed

theorem Store_Claim_oldest_witness:
  "\<exists>e d'. Store_Claim demo_pg NoFault 50 30000 [''id1''] demo_other = (Inr (Some e), d')"
  using Store_Claim_oldest [where d = demo_other and P = demo_pg and now = 50 and lease = 30000
      and locked = "[''id1'']"]
  by (auto simp: demo_log_ok)
    (auto simp: demo_other_def demo_raw_def new_raw_def claimable_def split: prod.splits sum.splits option.splits)



text \<open>
  The retry policy. With no fault, a failed delivery below the cap keeps the row in
  processing, records the reason and makes it claimable exactly when the backoff has passed;
  at the cap the row is dead-lettered with the reason and is not claimable at any time. Its
  payload and every other row stay as they are.
\<close>

theorem RetryOrFail_policy:
  assumes "db_ok d" and "r \<in> set (raw_events d)" and "rr_id r = eid" and "rr_status r = StatusProcessing"
  shows "\<exists>r'. RetryOrFail P NoFault now eid attempts maxAttempts backoff reason d =
      (Inr (), d\<lparr>raw_events := map (\<lambda>x. if x = r then r' else x) (raw_events d)\<rparr>)
    \<and> raw_core r' = raw_core r \<and> rr_attempts r' = rr_attempts r \<and> rr_error r' = Some reason
    \<and> (if attempts < maxAttempts
       then rr_status r' = StatusProcessing \<and> (\<forall>t. claimable t r' \<longleftrightarrow> now + make_interval P backoff < t)
       else rr_status r' = StatusFailed \<and> (\<forall>t. \<not> claimable t r'))"
proof -
  have one: "update_where (\<lambda>x. rr_id x = eid) f (raw_events d) =
      map (\<lambda>x. if x = r then f r else x) (raw_events d)" for f
    unfolding update_where_def using assms(1-3) by (auto simp: db_ok_def dest: unique_onD)
  show ?thesis
    by (auto simp: RetryOrFail_def update_raw_def one dead_letter_def raw_core_def claimable_def assms(4))
qed

theorem RetryOrFail_policy_witness:
  "\<exists>r'. RetryOrFail demo_pg NoFault 7 ''id1'' 5 5 2000 ''llm: timeout'' (demo_log StatusProcessing) =
      (Inr (), (demo_log StatusProcessing)\<lparr>raw_events := map (\<lambda>x. if x = demo_raw StatusProcessing then r' else x)
         (raw_events (demo_log StatusProcessing))\<rparr>) \<and> rr_status r' = StatusFailed"
  using RetryOrFail_policy [OF demo_log_ok(1) [of StatusProcessing],
      of "demo_raw StatusProcessing" "''id1''" demo_pg 7 5 5 2000 "''llm: timeout''"]
  by (auto simp: demo_log_def demo_raw_def new_raw_def)

text \<open>
  A claim never looks at the retry cap. A row whose worker dies on every delivery is handed
  out again each time its lease runs out, with an ever higher counter, for as long as the
  32-bit column can count: only the answer of a worker can dead-letter a row.
\<close>

theorem crash_loop_uncapped:
  assumes "raw_events d = [r]" and "rr_status r = StatusPending" and "rr_attempts r = 0" and "n < 2147483647"
  shows "case crash_run P lease n now d of (now', d') \<Rightarrow>
    \<exists>e d''. Store_Claim P NoFault now' lease [] d' = (Inr (Some e), d'')
      \<and> re_ID e = rr_id r \<and> re_Attempts e = int n + 1"
  using crash_run_claims [OF assms(1), of now n P lease] assms(2-4) by (simp add: claimable_def)

theorem crash_loop_uncapped_witness:
  "case crash_run demo_pg 30000 1000 50 (demo_log StatusPending) of (now', d') \<Rightarrow>
    \<exists>e d''. Store_Claim demo_pg NoFault now' 30000 [] d' = (Inr (Some e), d'')
      \<and> re_ID e = rr_id (demo_raw StatusPending) \<and> re_Attempts e = int 1000 + 1"
  by (rule crash_loop_uncapped) (simp_all add: demo_log_def demo_raw_def new_raw_def)

end
