(* ===== verification/Queue.thy ===== *)
theory Queue
  imports Raw_Log "HOL-Library.Word" "HOL-Library.Signed_Division"
begin

text \<open>
  Package \<open>queue\<close>: jobs, permanent errors, the interface \<open>Queue\<close> as the locale \<open>work_queue\<close>, and
  the queue over PostgreSQL. A duration is a signed 64-bit number of nanoseconds; the
  arithmetic of the backoff is done on words, with Go's shift and its panics. The pointer
  \<open>store\<close> of the struct \<open>Postgres\<close> is the database argument; the logger is left out.
\<close>

type_synonym duration = "64 word"

record Job =
  j_ID :: string
  j_Payload :: bytes
  j_Attempts :: int

subsection \<open>Permanent errors\<close>

text \<open>\<open>Permanentf("p%v", e)\<close>: the formatted text replaces the error, so its chain ends there.\<close>

definition Permanentf :: "string \<Rightarrow> go_error \<Rightarrow> go_error" where
  "Permanentf p e = Permanent (ErrText (p @ Error e))"

definition IsPermanent :: "go_error \<Rightarrow> bool" where
  "IsPermanent err = list_ex (\<lambda>e. case e of Permanent _ \<Rightarrow> True | _ \<Rightarrow> False) (unwrap_chain err)"

subsection \<open>Configuration\<close>

record Config =
  MaxAttempts :: int
  Lease :: duration
  BaseBackoff :: duration
  MaxBackoff :: duration
  PollInterval :: duration

record Postgres =
  cfg :: Config
  notify :: bool

definition seconds :: "int \<Rightarrow> duration" where
  "seconds n = word_of_int (n * 1000000000)"

definition NewPostgres :: "Config \<Rightarrow> Postgres" where
  "NewPostgres c0 =
     (let c1 = (if MaxAttempts c0 < 1 then c0\<lparr>MaxAttempts := 5\<rparr> else c0);
          c2 = (if sint (Lease c1) \<le> 0 then c1\<lparr>Lease := seconds 30\<rparr> else c1);
          c3 = (if sint (BaseBackoff c2) \<le> 0 then c2\<lparr>BaseBackoff := seconds 2\<rparr> else c2);
          c4 = (if sint (MaxBackoff c3) \<le> 0 then c3\<lparr>MaxBackoff := seconds (5 * 60)\<rparr> else c3);
          c5 = (if sint (PollInterval c4) \<le> 0 then c4\<lparr>PollInterval := seconds 1\<rparr> else c4)
      in \<lparr>cfg = c5, notify = False\<rparr>)"

definition config_ok :: "Config \<Rightarrow> bool" where
  "config_ok c \<longleftrightarrow> 1 \<le> MaxAttempts c \<and> 0 < sint (Lease c) \<and> 0 < sint (BaseBackoff c)
     \<and> 0 < sint (MaxBackoff c) \<and> 0 < sint (PollInterval c)"

subsection \<open>The channel\<close>

text \<open>A channel of capacity one: a send into the full channel is dropped.\<close>

definition Notify :: "Postgres \<Rightarrow> Postgres" where
  "Notify q = q\<lparr>notify := True\<rparr>"

text \<open>
  What the \<open>select\<close> of \<open>Claim\<close> wakes up from. The token it takes on \<open>Notified\<close> is the one that was
  in the channel or one that arrived during the wait; afterwards the channel is empty.
\<close>

datatype wake = CtxDone | Notified | PollTimeout

definition Queue_Claim ::
  "pg \<Rightarrow> fault \<Rightarrow> timestamptz \<Rightarrow> string list \<Rightarrow> wake \<Rightarrow> Postgres \<Rightarrow> db \<Rightarrow> (go_error + Job option) \<times> Postgres \<times> db"
  where
  "Queue_Claim P f now locked w q d =
     (case Store_Claim P f now (sint (Lease (cfg q))) locked d of
        (Inl err, d') \<Rightarrow> (Inl err, q, d')
      | (Inr (Some raw), d') \<Rightarrow>
          (Inr (Some \<lparr>j_ID = re_ID raw, j_Payload = re_Payload raw, j_Attempts = re_Attempts raw\<rparr>), q, d')
      | (Inr None, d') \<Rightarrow>
          (case w of
             CtxDone \<Rightarrow> (Inl CtxError, q, d')
           | Notified \<Rightarrow> (Inr None, q\<lparr>notify := False\<rparr>, d')
           | PollTimeout \<Rightarrow> (Inr None, q, d')))"

definition Ack :: "fault \<Rightarrow> string \<Rightarrow> db \<Rightarrow> unit outcome" where
  "Ack f eid d = MarkProcessed f eid d"

subsection \<open>Backoff\<close>

text \<open>
  \<open>BaseBackoff << (attempts - 1)\<close> on \<open>int64\<close>: a negative count panics (\<open>None\<close>), a count of 64 or more
  shifts every bit out.
\<close>

definition shift_left :: "duration \<Rightarrow> 64 word \<Rightarrow> duration option" where
  "shift_left x n = (if sint n < 0 then None else Some (push_bit (unat n) x))"

text \<open>\<open>rand.Int64N(n)\<close>: panics unless \<open>0 < n\<close>; \<open>pick\<close> is what the generator draws.\<close>

definition Int64N :: "nat \<Rightarrow> 64 word \<Rightarrow> 64 word option" where
  "Int64N pick n = (if sint n \<le> 0 then None else Some (word_of_int (int pick mod sint n)))"

definition backoff_limit :: "Config \<Rightarrow> 64 word \<Rightarrow> duration option" where
  "backoff_limit c attempts =
     (case shift_left (BaseBackoff c) (attempts - 1) of
        None \<Rightarrow> None
      | Some d \<Rightarrow> Some (if sint d \<le> 0 \<or> sint d > sint (MaxBackoff c) then MaxBackoff c else d))"

definition backoff :: "Config \<Rightarrow> nat \<Rightarrow> 64 word \<Rightarrow> duration option" where
  "backoff c pick attempts =
     (case backoff_limit c attempts of
        None \<Rightarrow> None
      | Some d \<Rightarrow>
          (let half = word_of_int (sint d sdiv 2) in
           case Int64N pick (half + 1) of None \<Rightarrow> None | Some r \<Rightarrow> Some (half + r)))"

definition Retry ::
  "pg \<Rightarrow> Config \<Rightarrow> fault \<Rightarrow> timestamptz \<Rightarrow> nat \<Rightarrow> string \<Rightarrow> int \<Rightarrow> string \<Rightarrow> db \<Rightarrow> unit outcome option" where
  "Retry P c f now pick eid attempts reason d =
     (case backoff c pick (word_of_int attempts) of
        None \<Rightarrow> None
      | Some b \<Rightarrow> Some (RetryOrFail P f now eid attempts (MaxAttempts c) (sint b) reason d))"

definition Queue_Fail :: "fault \<Rightarrow> string \<Rightarrow> string \<Rightarrow> db \<Rightarrow> unit outcome" where
  "Queue_Fail f eid reason d = Store_Fail f eid reason d"

subsection \<open>Facts about the backoff\<close>

lemma sint_of_int_small: "- (2 ^ 63) \<le> i \<Longrightarrow> i < 2 ^ 63 \<Longrightarrow> sint (word_of_int i :: 64 word) = i"
  by (simp add: int_word_sint)

lemma sint_seconds: "0 \<le> n \<Longrightarrow> n < 9000000000 \<Longrightarrow> sint (seconds n) = n * 1000000000"
  unfolding seconds_def by (rule sint_of_int_small) simp_all

lemma NewPostgres_ok: "config_ok (cfg (NewPostgres c))"
  by (simp add: NewPostgres_def config_ok_def Let_def sint_seconds)

lemma sint_range: "- (2 ^ 63) \<le> sint (w :: 64 word)" "sint (w :: 64 word) < 2 ^ 63"
  using sint_ge [of w] sint_lt [of w] by simp_all

text \<open>The wrapped product is a multiple of every power of two the product is, up to the width.\<close>

lemma wrapped_shift:
  fixes x :: duration
  assumes "sint x = m * 2 ^ t"
  shows "sint (push_bit k x) = (if t + k < 64 then (m * 2 ^ (t + k) + 2 ^ 63) mod 2 ^ 64 - 2 ^ 63 else 0)"
proof -
  have "push_bit k x = word_of_int (sint x * 2 ^ k)"
    by (simp add: push_bit_eq_mult)
  also have "sint x * 2 ^ k = m * 2 ^ (t + k)"
    by (simp add: assms power_add)
  finally have "sint (push_bit k x) = (m * 2 ^ (t + k) + 2 ^ 63) mod 2 ^ 64 - 2 ^ 63"
    by (simp only: int_word_sint) simp
  moreover have "(m * 2 ^ (t + k) + 2 ^ 63) mod 2 ^ 64 = (2 ^ 63 :: int)" if "\<not> t + k < 64"
  proof -
    define j where "j = t + k - 64"
    with that have "t + k = j + 64" by linarith
    then have "m * 2 ^ (t + k) = (m * 2 ^ j) * 2 ^ 64"
      by (simp only: power_add mult.assoc)
    then show ?thesis by (simp only: mod_mult_self4) simp
  qed
  ultimately show ?thesis by simp
qed

lemma wrapped_shift_ge:
  fixes x :: duration
  assumes x: "sint x = m * 2 ^ t" and pos: "0 < sint (push_bit k x)"
  shows "2 ^ (t + k) \<le> sint (push_bit k x)"
proof -
  from pos wrapped_shift [OF x] have lt: "t + k < 64"
    and s: "sint (push_bit k x) = (m * 2 ^ (t + k) + 2 ^ 63) mod 2 ^ 64 - 2 ^ 63"
    by (auto split: if_splits)
  have p63: "(2 :: int) ^ (t + k) dvd 2 ^ 63" and p64: "(2 :: int) ^ (t + k) dvd 2 ^ 64"
    using lt le_imp_power_dvd [of "t + k" 63 2] le_imp_power_dvd [of "t + k" 64 2] by auto
  then have "2 ^ (t + k) dvd sint (push_bit k x)"
    unfolding s by (simp add: dvd_mod)
  then show ?thesis using pos by (rule zdvd_imp_le)
qed

lemma shift_left_attempts:
  assumes "1 \<le> a" and "a < 2 ^ 63"
  shows "shift_left x (word_of_int a - 1) = Some (push_bit (nat (a - 1)) x)"
proof -
  have "(word_of_int a - 1 :: 64 word) = word_of_int (a - 1)" by simp
  moreover have "sint (word_of_int (a - 1) :: 64 word) = a - 1"
    using assms by (intro sint_of_int_small) simp_all
  moreover have "unat (word_of_int (a - 1) :: 64 word) = nat (a - 1)"
    using assms by (simp only: unat_eq_nat_uint uint_word_of_int_eq) (simp add: take_bit_int_eq_self)
  ultimately show ?thesis using assms(1) by (simp add: shift_left_def)
qed

lemma backoff_limit_range:
  assumes "config_ok c" and "1 \<le> a" and "a < 2 ^ 63"
  obtains d where "backoff_limit c (word_of_int a) = Some d" "0 < sint d" "sint d \<le> sint (MaxBackoff c)"
  using assms that by (auto simp: backoff_limit_def shift_left_attempts config_ok_def)

lemma backoff_limit_exact:
  assumes c: "config_ok c" and a: "1 \<le> a" "a < 2 ^ 63"
    and base: "sint (BaseBackoff c) = m * 2 ^ t" and room: "m * sint (MaxBackoff c) < 2 ^ 63"
    and lim: "backoff_limit c (word_of_int a) = Some d"
  shows "sint d = min (sint (BaseBackoff c) * 2 ^ nat (a - 1)) (sint (MaxBackoff c))"
proof -
  define k where "k = nat (a - 1)"
  define s where "s = sint (push_bit k (BaseBackoff c))"
  let ?M = "sint (MaxBackoff c)" and ?v = "m * 2 ^ (t + k)"
  have "0 < m" using c base by (auto simp: config_ok_def zero_less_mult_iff)
  have v: "sint (BaseBackoff c) * 2 ^ k = ?v" by (simp add: base power_add)
  have d: "d = (if s \<le> 0 \<or> s > ?M then MaxBackoff c else push_bit k (BaseBackoff c))"
    using lim by (simp only: backoff_limit_def shift_left_attempts [OF a] option.case option.inject s_def k_def)
  show ?thesis
  proof (cases "?v < 2 ^ 63")
    case True
    have "2 ^ (t + k) \<le> ?v" using \<open>0 < m\<close> by simp
    with True have "(2 :: int) ^ (t + k) < 2 ^ 63" by linarith
    then have "t + k < 63" by (rule power_less_imp_less_exp [rotated]) simp
    with True \<open>0 < m\<close> have "s = ?v"
      unfolding s_def wrapped_shift [OF base] by simp
    moreover have "0 < ?v" using \<open>0 < m\<close> by simp
    ultimately show ?thesis using d v by (auto simp: s_def k_def min_def)
  next
    case False
    with room have "m * ?M < ?v" by linarith
    then have big: "?M < 2 ^ (t + k)" using \<open>0 < m\<close> by simp
    also have "(2 :: int) ^ (t + k) \<le> ?v" using \<open>0 < m\<close> by simp
    finally have "?M < ?v" .
    moreover have "s \<le> 0 \<or> s > ?M"
      using wrapped_shift_ge [OF base, of k] big by (fastforce simp: s_def)
    ultimately show ?thesis using d v by (simp add: k_def)
  qed
qed

lemma backoff_jitter:
  assumes "backoff_limit c a = Some d" and "0 < sint d"
  obtains b where "backoff c pick a = Some b"
    "sint b = sint d div 2 + int pick mod (sint d div 2 + 1)"
proof -
  define h where "h = sint d div 2"
  have h: "0 \<le> h" "2 * h < 2 ^ 63" using assms(2) sint_range [of d] by (auto simp: h_def)
  have "sint d sdiv 2 = h" using assms(2) by (simp add: h_def signed_divide_int_def)
  moreover have "sint (word_of_int h + 1 :: 64 word) = h + 1"
    using h sint_of_int_small [of "h + 1"] by simp
  moreover define j where "j = int pick mod (h + 1)"
  moreover have j: "0 \<le> j" "j \<le> h" using h pos_mod_bound [of "h + 1" "int pick"] by (simp_all add: j_def)
  moreover have "sint (word_of_int h + word_of_int j :: 64 word) = h + j"
    using h j sint_of_int_small [of "h + j"] by simp
  ultimately show thesis
    using that assms(1) h by (simp add: backoff_def Int64N_def Let_def h_def)
qed


subsection \<open>The interface\<close>

text \<open>What happened to a job so far: it is still to be done, done, or dead-lettered.\<close>

datatype fate = Open | Done | Dead

fun status_fate :: "RawStatus \<Rightarrow> fate" where
  "status_fate StatusPending = Open"
| "status_fate StatusProcessing = Open"
| "status_fate StatusProcessed = Done"
| "status_fate StatusFailed = Dead"

definition job_fate :: "db \<Rightarrow> string \<Rightarrow> fate option" where
  "job_fate d eid = map_option (\<lambda>r. status_fate (rr_status r)) (select_by rr_id eid (raw_events d))"

text \<open>
  The contract of \<open>queue.Queue\<close> towards its consumer, over any broker state with a view of the
  jobs' fates: each of the three answers moves the fate of its own job and of no other, and a
  call that reports an error either did nothing or did what it should. \<open>Retry\<close> of an attempt
  below one may panic (\<open>None\<close>), of a counted attempt it does not.
\<close>

locale work_queue =
  fixes job_view :: "'s \<Rightarrow> string \<Rightarrow> fate option"
    and ack :: "string \<Rightarrow> 's \<Rightarrow> (go_error + unit) \<times> 's"
    and retry :: "string \<Rightarrow> int \<Rightarrow> string \<Rightarrow> 's \<Rightarrow> ((go_error + unit) \<times> 's) option"
    and fail :: "string \<Rightarrow> string \<Rightarrow> 's \<Rightarrow> (go_error + unit) \<times> 's"
    and cap :: int
  assumes ack_effect: "job_view (snd (ack j s)) = job_view s
      \<or> job_view (snd (ack j s)) = (\<lambda>i. if i = j then map_option (\<lambda>_. Done) (job_view s j) else job_view s i)"
    and ack_ok: "fst (ack j s) = Inr () \<Longrightarrow>
      job_view (snd (ack j s)) = (\<lambda>i. if i = j then map_option (\<lambda>_. Done) (job_view s j) else job_view s i)"
    and fail_effect: "job_view (snd (fail j r s)) = job_view s
      \<or> job_view (snd (fail j r s)) = (\<lambda>i. if i = j then map_option (\<lambda>_. Dead) (job_view s j) else job_view s i)"
    and fail_ok: "fst (fail j r s) = Inr () \<Longrightarrow>
      job_view (snd (fail j r s)) = (\<lambda>i. if i = j then map_option (\<lambda>_. Dead) (job_view s j) else job_view s i)"
    and retry_total: "1 \<le> n \<Longrightarrow> n < 2 ^ 63 \<Longrightarrow> retry j n r s \<noteq> None"
    and retry_effect: "retry j n r s = Some (x, s') \<Longrightarrow> job_view s' = job_view s
      \<or> cap \<le> n \<and> job_view s' = (\<lambda>i. if i = j then map_option (\<lambda>_. Dead) (job_view s j) else job_view s i)"
    and retry_cap: "retry j n r s = Some (Inr (), s') \<Longrightarrow> cap \<le> n \<Longrightarrow>
      job_view s' = (\<lambda>i. if i = j then map_option (\<lambda>_. Dead) (job_view s j) else job_view s i)"
begin

lemma others_untouched:
  "i \<noteq> j \<Longrightarrow> job_view (snd (ack j s)) i = job_view s i"
  "i \<noteq> j \<Longrightarrow> job_view (snd (fail j r s)) i = job_view s i"
  "i \<noteq> j \<Longrightarrow> retry j n r s = Some (x, s') \<Longrightarrow> job_view s' i = job_view s i"
  using ack_effect [of j s] fail_effect [of j r s] retry_effect [of j n r s x s'] by auto

end

text \<open>On the table, a statement that writes a status moves the fate of its row.\<close>

lemma job_fate_update:
  assumes "\<And>r. rr_id (f r) = rr_id r"
  shows "job_fate (snd (update_raw eid f d)) =
    (\<lambda>i. if i = eid then map_option (\<lambda>r. status_fate (rr_status (f r))) (select_by rr_id eid (raw_events d))
         else job_fate d i)"
  using assms by (auto simp: job_fate_def update_raw_def select_by_update_key option.map_comp o_def)

lemma job_fate_write:
  assumes "\<And>r. rr_id (f r) = rr_id r" and "\<And>r. status_fate (rr_status (f r)) = x"
  shows "job_fate (snd (update_raw eid f d)) =
    (\<lambda>i. if i = eid then map_option (\<lambda>_. x) (job_fate d eid) else job_fate d i)"
  using assms by (auto simp: job_fate_update job_fate_def option.map_comp o_def)

lemma job_fate_keep:
  assumes "\<And>r. rr_id (f r) = rr_id r" and "\<And>r. rr_status (f r) = rr_status r"
  shows "job_fate (snd (update_raw eid f d)) = job_fate d"
  using assms by (auto simp: job_fate_update job_fate_def)

lemma Ack_fate:
  "job_fate (snd (Ack f eid d)) =
    (if takes_effect f then (\<lambda>i. if i = eid then map_option (\<lambda>_. Done) (job_fate d eid) else job_fate d i)
     else job_fate d)"
  by (cases f) (simp_all add: Ack_def MarkProcessed_def job_fate_write)

lemma Queue_Fail_fate:
  "job_fate (snd (Queue_Fail f eid reason d)) =
    (if takes_effect f then (\<lambda>i. if i = eid then map_option (\<lambda>_. Dead) (job_fate d eid) else job_fate d i)
     else job_fate d)"
  by (cases f) (simp_all add: Queue_Fail_def Store_Fail_def job_fate_write dead_letter_def)

lemma RetryOrFail_fate:
  "job_fate (snd (RetryOrFail P f now eid n cap b reason d)) =
    (if takes_effect f \<and> cap \<le> n
     then (\<lambda>i. if i = eid then map_option (\<lambda>_. Dead) (job_fate d eid) else job_fate d i) else job_fate d)"
  by (cases f) (simp_all add: RetryOrFail_def job_fate_write job_fate_keep dead_letter_def)

lemma ok_takes_effect:
  "fst (Ack f eid d) = Inr () \<Longrightarrow> takes_effect f"
  "fst (Queue_Fail f eid reason d) = Inr () \<Longrightarrow> takes_effect f"
  "fst (RetryOrFail P f now eid n c b reason d) = Inr () \<Longrightarrow> takes_effect f"
  by (cases f; simp add: Ack_def MarkProcessed_def Queue_Fail_def Store_Fail_def RetryOrFail_def split: if_splits)+

lemma Retry_total:
  assumes "config_ok c" and "1 \<le> n" and "n < 2 ^ 63"
  obtains b where "Retry P c f now pick eid n reason d = Some (RetryOrFail P f now eid n (MaxAttempts c) b reason d)"
proof -
  obtain l where l: "backoff_limit c (word_of_int n) = Some l" "0 < sint l"
    by (rule backoff_limit_range [OF assms])
  obtain b where "backoff c pick (word_of_int n) = Some b"
    by (rule backoff_jitter [OF l])
  then show thesis by (intro that [of "sint b"]) (simp add: Retry_def)
qed

lemma Retry_Some:
  assumes "Retry P c f now pick eid n reason d = Some out"
  obtains b where "out = RetryOrFail P f now eid n (MaxAttempts c) b reason d"
  using assms by (auto simp: Retry_def split: option.splits)

lemma Retry_fate:
  assumes "Retry P c f now pick eid n reason d = Some (x, d')"
  shows "job_fate d' = (if takes_effect f \<and> MaxAttempts c \<le> n
     then (\<lambda>i. if i = eid then map_option (\<lambda>_. Dead) (job_fate d eid) else job_fate d i) else job_fate d)"
    and "x = Inr () \<Longrightarrow> takes_effect f"
proof -
  obtain b where out: "(x, d') = RetryOrFail P f now eid n (MaxAttempts c) b reason d"
    using assms by (rule Retry_Some)
  from RetryOrFail_fate [of P f now eid n "MaxAttempts c" b reason d] show "job_fate d' =
      (if takes_effect f \<and> MaxAttempts c \<le> n
       then (\<lambda>i. if i = eid then map_option (\<lambda>_. Dead) (job_fate d eid) else job_fate d i) else job_fate d)"
    unfolding out [symmetric] by simp
  from ok_takes_effect(3) [of P f now eid n "MaxAttempts c" b reason d] show "x = Inr () \<Longrightarrow> takes_effect f"
    unfolding out [symmetric] by simp
qed

interpretation pgq: work_queue job_fate "Ack fa" "Retry P (cfg (NewPostgres c)) fr now pick" "Queue_Fail ff"
    "MaxAttempts (cfg (NewPostgres c))"
  for fa fr ff P c now pick
proof unfold_locales
  fix j r :: string and n :: int and x and s s' :: db
  let ?c = "cfg (NewPostgres c)"
  show "1 \<le> n \<Longrightarrow> n < 2 ^ 63 \<Longrightarrow> Retry P ?c fr now pick j n r s \<noteq> None"
    by (rule Retry_total [OF NewPostgres_ok, of n P c fr now pick j r s]) (simp_all only: option.distinct not_False_eq_True)
  show "job_fate s' = job_fate s \<or> MaxAttempts ?c \<le> n
      \<and> job_fate s' = (\<lambda>i. if i = j then map_option (\<lambda>_. Dead) (job_fate s j) else job_fate s i)"
    if "Retry P ?c fr now pick j n r s = Some (x, s')"
    using Retry_fate(1) [OF that] by simp
  show "job_fate s' = (\<lambda>i. if i = j then map_option (\<lambda>_. Dead) (job_fate s j) else job_fate s i)"
    if "Retry P ?c fr now pick j n r s = Some (Inr (), s')" "MaxAttempts ?c \<le> n"
    using Retry_fate [OF that(1)] that(2) by simp
qed (auto simp: Ack_fate Queue_Fail_fate dest: ok_takes_effect)

subsection \<open>Properties of the queue\<close>

definition default_config :: Config where
  "default_config = \<lparr>MaxAttempts = 0, Lease = 0, BaseBackoff = 0, MaxBackoff = 0, PollInterval = 0\<rparr>"

lemma default_config_values:
  "cfg (NewPostgres default_config) = \<lparr>MaxAttempts = 5, Lease = seconds 30, BaseBackoff = seconds 2,
     MaxBackoff = seconds 300, PollInterval = seconds 1\<rparr>"
  by (simp add: NewPostgres_def default_config_def)

text \<open>
  C30: the delay before a retry. For every configuration a queue can be built from and every
  counted attempt, computing the delay does not panic, its upper limit is positive and at most
  the configured maximum, whatever the shift overflows to, and the delay drawn lies between
  half of the limit and the limit.
\<close>

theorem backoff_bounds:
  assumes "1 \<le> attempts" and "attempts < 2 ^ 63"
  shows "\<exists>d b. backoff_limit (cfg (NewPostgres c)) (word_of_int attempts) = Some d
    \<and> backoff (cfg (NewPostgres c)) pick (word_of_int attempts) = Some b
    \<and> 0 < sint d \<and> sint d \<le> sint (MaxBackoff (cfg (NewPostgres c)))
    \<and> sint d div 2 \<le> sint b \<and> sint b \<le> sint d"
proof -
  let ?c = "cfg (NewPostgres c)"
  obtain d where d: "backoff_limit ?c (word_of_int attempts) = Some d" "0 < sint d"
    "sint d \<le> sint (MaxBackoff ?c)"
    by (rule backoff_limit_range [OF NewPostgres_ok assms])
  obtain b where b: "backoff ?c pick (word_of_int attempts) = Some b"
    "sint b = sint d div 2 + int pick mod (sint d div 2 + 1)"
    by (rule backoff_jitter [OF d(1,2)])
  have "0 \<le> int pick mod (sint d div 2 + 1)" "int pick mod (sint d div 2 + 1) < sint d div 2 + 1"
    using d(2) by (intro pos_mod_sign pos_mod_bound; simp)+
  then have "sint d div 2 \<le> sint b" "sint b \<le> sint d"
    unfolding b(2) by linarith+
  with d b(1) show ?thesis by blast
qed

theorem backoff_bounds_witness:
  "\<exists>d b. backoff_limit (cfg (NewPostgres default_config)) (word_of_int 40) = Some d
    \<and> backoff (cfg (NewPostgres default_config)) 123456 (word_of_int 40) = Some b
    \<and> 0 < sint d \<and> sint d \<le> sint (MaxBackoff (cfg (NewPostgres default_config)))
    \<and> sint d div 2 \<le> sint b \<and> sint b \<le> sint d"
  by (rule backoff_bounds) simp_all

text \<open>
  The delay is exponential. Where the odd part of the base delay times the maximum fits into
  63 bits, as for the defaults, the limit of the attempt \<open>n\<close> is the base times \<open>2 ^ (n - 1)\<close> or the
  maximum, whichever is less: an overflow of the shift is never mistaken for a delay.
\<close>

theorem backoff_exponential:
  assumes "1 \<le> attempts" and "attempts < 2 ^ 63" and "config_ok c"
    and "sint (BaseBackoff c) = m * 2 ^ t" and "m * sint (MaxBackoff c) < 2 ^ 63"
  shows "map_option sint (backoff_limit c (word_of_int attempts)) =
    Some (min (sint (BaseBackoff c) * 2 ^ nat (attempts - 1)) (sint (MaxBackoff c)))"
proof -
  obtain d where "backoff_limit c (word_of_int attempts) = Some d"
    by (rule backoff_limit_range [OF assms(3,1,2)])
  with backoff_limit_exact [OF assms(3,1,2,4,5)] show ?thesis by simp
qed

theorem backoff_exponential_witness:
  "map_option sint (backoff_limit (cfg (NewPostgres default_config)) (word_of_int 3)) = Some 8000000000"
proof -
  have "sint (BaseBackoff (cfg (NewPostgres default_config))) = 1953125 * 2 ^ 10"
    "1953125 * sint (MaxBackoff (cfg (NewPostgres default_config))) < 2 ^ 63"
    by (simp_all add: default_config_values sint_seconds)
  from backoff_exponential [OF _ _ NewPostgres_ok this, of 3] show ?thesis
    by (simp add: default_config_values sint_seconds)
qed

end
