(* ===== verification/Projection.thy ===== *)
theory Projection
  imports Store_Inv
begin

text \<open>
  The entities table as a projection of the facts. Shipment updates implement the abstract
  operation "keep the state of greater rank" on a view of the table (\<open>entity_view\<close>), and that
  operation is an instance of the locale \<open>convergent\<close>: the result depends only on which
  updates took effect, not on their order or number. Invoices follow the transition table
  one move at a time, which is not convergent; what holds for them is proved separately.
\<close>

type_synonym view = "string \<rightharpoonup> string \<times> string \<times> int"

definition entity_view :: "db \<Rightarrow> view" where
  "entity_view d =
     (\<lambda>key. map_option (\<lambda>e. (e_Type e, e_CurrentState e, e_CurrentRank e))
              (select_by e_EntityKey key (entities d)))"

text \<open>The specification of one shipment update.\<close>

fun advance_shipment :: "string \<times> string \<Rightarrow> view \<Rightarrow> view" where
  "advance_shipment (key, state) v =
     (case v key of
        None \<Rightarrow> v(key \<mapsto> (ClassShipment, state, ShipmentRank state))
      | Some (ty, cur, rank) \<Rightarrow>
          if rank < ShipmentRank state then v(key \<mapsto> (ty, state, ShipmentRank state)) else v)"

record shipment_call =
  sc_fault :: fault
  sc_now :: timestamptz
  sc_key :: string
  sc_state :: string
  sc_time :: "gotime option"

text \<open>A sequence of calls of \<open>ApplyShipment\<close> as the processor makes them, with the rank of the state.\<close>

definition apply_shipments :: "pg \<Rightarrow> shipment_call list \<Rightarrow> db \<Rightarrow> db" where
  "apply_shipments P cs d =
     fold (\<lambda>c d. snd (ApplyShipment P (sc_fault c) (sc_now c) (sc_key c) (sc_state c)
                       (ShipmentRank (sc_state c)) (sc_time c) d)) cs d"

definition effective :: "shipment_call list \<Rightarrow> (string \<times> string) set" where
  "effective cs = (\<lambda>c. (sc_key c, sc_state c)) ` {c \<in> set cs. takes_effect (sc_fault c)}"

text \<open>An entity whose state belongs to the lifecycle of its type.\<close>

definition entity_ok :: "Entity \<Rightarrow> bool" where
  "entity_ok e \<longleftrightarrow>
     e_Type e = ClassShipment \<and> IsShipmentState (e_CurrentState e)
       \<and> e_CurrentRank e = ShipmentRank (e_CurrentState e)
     \<or> e_Type e = ClassInvoice \<and> IsInvoiceState (e_CurrentState e) \<and> e_CurrentRank e = 0"

text \<open>An amount never stands without a currency, nor a currency without an amount.\<close>

definition entity_money_ok :: "Entity \<Rightarrow> bool" where
  "entity_money_ok e \<longleftrightarrow> (e_AmountMinor e = None \<longleftrightarrow> e_Currency e = None)"

text \<open>Inputs of the examples: calls, and a table with a paid invoice.\<close>

definition demo_call :: "string \<Rightarrow> int \<Rightarrow> shipment_call" where
  "demo_call state t = \<lparr>sc_fault = NoFault, sc_now = t, sc_key = ''MAEU1'', sc_state = state,
     sc_time = Some \<lparr>unix_sec = t, nanosec = 0\<rparr>\<rparr>"

definition demo_paid_row :: Entity where
  "demo_paid_row = \<lparr>e_EntityKey = ''INV'', e_Type = ClassInvoice, e_CurrentState = StatePaid,
     e_CurrentRank = 0, e_LastEventTime = None, e_AmountMinor = Some 2435075, e_Currency = Some ''EUR'',
     e_UpdatedAt = 3\<rparr>"

definition demo_paid :: db where
  "demo_paid = \<lparr>raw_events = [], normalized_events = [], entities = [demo_paid_row]\<rparr>"

definition demo_invoice_run :: "string list \<Rightarrow> db \<Rightarrow> db" where
  "demo_invoice_run states d =
     fold (\<lambda>s d. snd (ApplyInvoice demo_pg NoFault NoFault NoFault NoFault 1 ''INV'' s None None '''' d)) states d"

subsection \<open>Convergence\<close>

locale convergent =
  fixes app :: "'e \<Rightarrow> 's \<Rightarrow> 's" and valid :: "'e \<Rightarrow> bool"
  assumes commute: "valid a \<Longrightarrow> valid b \<Longrightarrow> app a (app b s) = app b (app a s)"
    and absorb: "valid a \<Longrightarrow> app a (app a s) = app a s"
begin

lemma order_irrelevant:
  assumes "\<forall>x \<in> set xs. valid x" and "set xs = set ys"
  shows "fold app xs s = fold app ys s"
proof -
  have idem: "comp_fun_idem_on {x. valid x} app"
    by unfold_locales (auto simp: fun_eq_iff commute absorb)
  have sub: "set xs \<subseteq> {x. valid x}" "set ys \<subseteq> {x. valid x}" using assms by auto
  show ?thesis
    using comp_fun_idem_on.fold_set_fold [OF idem sub(1), of s]
      comp_fun_idem_on.fold_set_fold [OF idem sub(2), of s] assms(2) by simp
qed

end

lemma advance_shipment_comm:
  assumes "IsShipmentState s" "IsShipmentState t"
  shows "advance_shipment (k, s) (advance_shipment (l, t) v) =
    advance_shipment (l, t) (advance_shipment (k, s) v)"
proof (cases "k = l")
  case True
  then show ?thesis
  proof (cases rule: linorder_cases [of "ShipmentRank s" "ShipmentRank t"])
    case equal
    with assms ShipmentRank_inj have "s = t" by blast
    with True show ?thesis by simp
  qed (cases "v l"; auto)+
next
  case False
  then show ?thesis
    by (cases "v k"; cases "v l") (auto simp: fun_upd_twist)
qed

interpretation ship: convergent advance_shipment "\<lambda>(key, state). IsShipmentState state"
proof unfold_locales
  fix a b :: "string \<times> string" and v :: view
  show "(case a of (key, state) \<Rightarrow> IsShipmentState state) \<Longrightarrow>
      (case b of (key, state) \<Rightarrow> IsShipmentState state) \<Longrightarrow>
      advance_shipment a (advance_shipment b v) = advance_shipment b (advance_shipment a v)"
    by (cases a; cases b) (simp only: prod.case advance_shipment_comm)
  show "advance_shipment a (advance_shipment a v) = advance_shipment a v"
    by (cases a) (auto split: option.splits)
qed

subsection \<open>Shipments implement the specification\<close>

lemma entity_view_upsert:
  "entity_view (snd (upsert_shipment now key state (ShipmentRank state) et d)) =
   advance_shipment (key, state) (entity_view d)"
proof
  fix k
  show "entity_view (snd (upsert_shipment now key state (ShipmentRank state) et d)) k =
      advance_shipment (key, state) (entity_view d) k"
  proof (cases "select_by e_EntityKey key (entities d)")
    case None
    then show ?thesis
      by (auto simp: entity_view_def upsert_shipment_def table_simps split: option.splits)
  next
    case (Some e)
    then show ?thesis
      by (cases "select_by e_EntityKey k (entities d)")
        (auto simp: entity_view_def upsert_shipment_def select_by_update_where dest: select_by_SomeD)
  qed
qed

lemma entity_view_ApplyShipment:
  "entity_view (snd (ApplyShipment P f now key state (ShipmentRank state) et d)) =
   (if takes_effect f then advance_shipment (key, state) (entity_view d) else entity_view d)"
  by (cases f) (simp_all add: ApplyShipment_def entity_view_upsert del: advance_shipment.simps)

lemma entity_view_apply_shipments:
  "entity_view (apply_shipments P cs d) =
   fold advance_shipment (map (\<lambda>c. (sc_key c, sc_state c)) (filter (\<lambda>c. takes_effect (sc_fault c)) cs))
     (entity_view d)"
  unfolding apply_shipments_def
  by (induction cs arbitrary: d) (simp_all add: entity_view_ApplyShipment del: advance_shipment.simps)

lemma fold_advance_max:
  assumes "v key = None"
  shows "case fold advance_shipment evs v key of
      None \<Rightarrow> key \<notin> fst ` set evs
    | Some (ty, s, r) \<Rightarrow> ty = ClassShipment \<and> r = ShipmentRank s \<and> (key, s) \<in> set evs
        \<and> (\<forall>t. (key, t) \<in> set evs \<longrightarrow> ShipmentRank t \<le> r)"
proof (induction evs rule: rev_induct)
  case Nil
  then show ?case using assms by simp
next
  case (snoc ev evs)
  obtain k t where ev: "ev = (k, t)" by fastforce
  show ?case
  proof (cases "k = key")
    case True
    with snoc ev show ?thesis
      by (cases "fold advance_shipment evs v key") (fastforce simp: image_iff)+
  next
    case False
    with snoc ev show ?thesis
      by (auto split: option.splits)
  qed
qed

lemma effective_calls:
  "effective cs = set (map (\<lambda>c. (sc_key c, sc_state c)) (filter (\<lambda>c. takes_effect (sc_fault c)) cs))"
  by (simp add: effective_def)

subsection \<open>Invoices\<close>

definition keeps_entities :: "(Entity \<Rightarrow> bool) \<Rightarrow> db \<Rightarrow> db \<Rightarrow> bool" where
  "keeps_entities Q d d' \<longleftrightarrow> ((\<forall>e \<in> set (entities d). Q e) \<longrightarrow> (\<forall>e \<in> set (entities d'). Q e))"

lemma keeps_entities_append: "Q e \<Longrightarrow> keeps_entities Q d (d\<lparr>entities := entities d @ [e]\<rparr>)"
  by (auto simp: keeps_entities_def)

lemma keeps_entities_update:
  "(\<And>e. e \<in> set (entities d) \<Longrightarrow> S e \<Longrightarrow> Q e \<Longrightarrow> Q (f e)) \<Longrightarrow>
   keeps_entities Q d (d\<lparr>entities := update_where S f (entities d)\<rparr>)"
  by (auto simp: keeps_entities_def set_update_where)

lemma keeps_entities_refl [simp]: "keeps_entities Q d d"
  by (simp add: keeps_entities_def)

text \<open>On a table with a unique key, updating the row of a key is updating that row.\<close>

lemma key_row:
  "db_ok d \<Longrightarrow> select_by e_EntityKey key (entities d) = Some row \<Longrightarrow>
   e \<in> set (entities d) \<Longrightarrow> e_EntityKey e = key \<Longrightarrow> e = row"
  by (metis db_ok_def option.inject select_by_mem)

lemma upsert_shipment_late:
  assumes "db_ok d" and "select_by e_EntityKey key (entities d) = Some e" and "rank \<le> e_CurrentRank e"
  shows "upsert_shipment now key state rank et d = (Inr (), d)"
proof -
  have "update_where (\<lambda>e. e_EntityKey e = key \<and> e_CurrentRank e < rank) f (entities d) = entities d" for f
    by (rule update_where_none) (use assms key_row [OF assms(1,2)] in force)
  with assms(2) show ?thesis by (simp add: upsert_shipment_def)
qed

lemma ApplyInvoice_keeps:
  assumes "db_ok d"
    and new: "\<And>et. Q (new_invoice now key state et amt cur)"
    and adv: "\<And>e et. Q e \<Longrightarrow> InvoiceTransitionAllowed (e_CurrentState e) state \<Longrightarrow>
      Q (advance_invoice now state et amt cur e)"
  shows "keeps_entities Q d (snd (ApplyInvoice P fb fs fw fc now key state et amt cur d))"
proof (rule ApplyInvoice_state [of P fb fs fw fc now key state et amt cur d])
  fix row
  assume row: "select_by e_EntityKey key (entities d) = Some row"
    and a: "InvoiceTransitionAllowed (e_CurrentState row) state"
    and d': "snd (ApplyInvoice P fb fs fw fc now key state et amt cur d) =
       d\<lparr>entities := update_where (\<lambda>e. e_EntityKey e = key)
           (advance_invoice now state (map_option (pg_time P) et) amt cur) (entities d)\<rparr>"
  show ?thesis unfolding d'
    by (rule keeps_entities_update) (use key_row [OF assms(1) row] a adv in blast)
qed (simp_all add: keeps_entities_append new)

lemma advance_invoice_ok:
  "entity_ok e \<Longrightarrow> InvoiceTransitionAllowed (e_CurrentState e) state \<Longrightarrow>
   entity_ok (advance_invoice now state et amt cur e)"
  using InvoiceTransitionAllowed_states lifecycles_disjoint
  by (auto simp: entity_ok_def advance_invoice_def)

lemma advance_invoice_money_ok:
  "entity_money_ok e \<Longrightarrow> money_ok amt cur \<Longrightarrow> entity_money_ok (advance_invoice now state et amt cur e)"
  by (auto simp: entity_money_ok_def advance_invoice_def money_ok_def coalesce_def nullif_empty_def
      split: option.splits)

subsection \<open>Properties of the projection\<close>

text \<open>
  C8: shipment updates converge. Take any two sequences of update calls, in any order, with any
  repetitions, clocks, event times and faults (a call may fail before or after it took
  effect): if the calls that took effect carry the same set of keys and states, both leave
  every entity with the same type, state and rank, whatever the table held before.
\<close>

theorem shipment_convergence:
  assumes "\<forall>c \<in> set xs \<union> set ys. IsShipmentState (sc_state c)" and "effective xs = effective ys"
  shows "entity_view (apply_shipments P xs d) = entity_view (apply_shipments P ys d)"
  unfolding entity_view_apply_shipments
  by (rule ship.order_irrelevant) (use assms in \<open>auto simp: effective_calls\<close>)

theorem shipment_convergence_witness:
  "entity_view (apply_shipments demo_pg [demo_call StateDelivered 5, demo_call StatePickedUp 9] empty_db) =
   entity_view (apply_shipments demo_pg
     [demo_call StatePickedUp 1, demo_call StateDelivered 2, demo_call StatePickedUp 3] empty_db)"
  by (rule shipment_convergence)
    (auto simp: demo_call_def effective_calls IsShipmentState_iff shipment_states_def)

text \<open>
  From a table without the entity, the state a shipment ends in is one of the states that
  were applied to it and no applied state has a greater rank; an entity nobody applied a
  state to does not appear.
\<close>

theorem shipment_projection_is_max:
  assumes "entity_view d key = None"
  shows "case entity_view (apply_shipments P cs d) key of
      None \<Rightarrow> key \<notin> fst ` effective cs
    | Some (ty, s, r) \<Rightarrow> ty = ClassShipment \<and> r = ShipmentRank s \<and> (key, s) \<in> effective cs
        \<and> (\<forall>t. (key, t) \<in> effective cs \<longrightarrow> ShipmentRank t \<le> r)"
  unfolding entity_view_apply_shipments effective_calls by (rule fold_advance_max) (rule assms)

theorem shipment_projection_is_max_witness:
  "entity_view (apply_shipments demo_pg [demo_call StateDelivered 5, demo_call StatePickedUp 9] empty_db)
     ''MAEU1'' = Some (ClassShipment, StateDelivered, 4)"
proof -
  have "effective [demo_call StateDelivered 5, demo_call StatePickedUp 9] =
      {(''MAEU1'', StateDelivered), (''MAEU1'', StatePickedUp)}"
    by (simp add: effective_calls demo_call_def)
  moreover have "entity_view empty_db ''MAEU1'' = None"
    by (simp add: entity_view_def empty_db_def)
  ultimately show ?thesis
    using shipment_projection_is_max [where d = empty_db and key = "''MAEU1''" and P = demo_pg
        and cs = "[demo_call StateDelivered 5, demo_call StatePickedUp 9]"]
    by (force simp: ShipmentRank_values split: option.splits prod.splits)
qed

text \<open>
  An update whose rank does not exceed the stored one changes nothing at all: neither the
  state nor the time of the last event nor the row's update stamp, so among events of the same
  rank the first one applied stays.
\<close>

theorem ApplyShipment_late_noop:
  assumes "db_ok d" and "select_by e_EntityKey key (entities d) = Some e" and "rank \<le> e_CurrentRank e"
  shows "ApplyShipment P NoFault now key state rank et d = (Inr (), d)"
  by (simp add: ApplyShipment_def upsert_shipment_late [OF assms])

theorem ApplyShipment_late_noop_witness:
  "ApplyShipment demo_pg NoFault 7 ''MAEU1'' StateDelivered 4 (Some \<lparr>unix_sec = 99, nanosec = 0\<rparr>)
     (apply_shipments demo_pg [demo_call StateDelivered 5] empty_db) =
   (Inr (), apply_shipments demo_pg [demo_call StateDelivered 5] empty_db)"
  by (rule ApplyShipment_late_noop)
    (simp add: apply_shipments_def ApplyShipment_def upsert_shipment_def demo_call_def empty_db_def
      db_ok_def unique_on_def ShipmentRank_values)+

text \<open>
  C32: an invoice moves exactly along the transition table. On an existing row and without
  faults, a legal next state replaces the current one and new money replaces the old only
  where it is present; an illegal or late one leaves the whole database as it was.
\<close>

theorem ApplyInvoice_moves:
  assumes "db_ok d" and "select_by e_EntityKey key (entities d) = Some row"
  shows "ApplyInvoice P NoFault NoFault NoFault NoFault now key state et amt cur d =
    (Inr (), if InvoiceTransitionAllowed (e_CurrentState row) state
             then d\<lparr>entities := map (\<lambda>e. if e = row then
                row\<lparr>e_CurrentState := state, e_LastEventTime := map_option (pg_time P) et,
                  e_AmountMinor := (if amt = None then e_AmountMinor row else amt),
                  e_Currency := (if cur = '''' then e_Currency row else Some cur), e_UpdatedAt := now\<rparr>
                else e) (entities d)\<rparr>
             else d)" (is "_ = (_, if _ then d\<lparr>entities := map ?f _\<rparr> else _)")
proof -
  have "update_where (\<lambda>e. e_EntityKey e = key) (advance_invoice now state (map_option (pg_time P) et) amt cur)
      (entities d) = map ?f (entities d)"
    unfolding update_where_def
  proof (rule map_cong [OF refl])
    fix e
    assume e: "e \<in> set (entities d)"
    then have "e_EntityKey e = key \<longleftrightarrow> e = row"
      using key_row [OF assms] select_by_SomeD [OF assms(2)] by blast
    then show "(if e_EntityKey e = key
        then advance_invoice now state (map_option (pg_time P) et) amt cur e else e) = ?f e"
      by (cases amt) (simp_all add: advance_invoice_def nullif_empty_def)
  qed
  with assms(2) show ?thesis by (simp add: ApplyInvoice_def)
qed

theorem ApplyInvoice_moves_witness:
  "ApplyInvoice demo_pg NoFault NoFault NoFault NoFault 8 ''INV'' StateVoided None None '''' demo_paid =
   (Inr (), demo_paid)"
  using ApplyInvoice_moves [of demo_paid "''INV''" demo_paid_row demo_pg 8 StateVoided None None "''''"]
  by (simp add: demo_paid_def demo_paid_row_def db_ok_def unique_on_def InvoiceTransitionAllowed_iff)

text \<open>
  Whatever faults its calls meet, applying an invoice state keeps every entity inside the
  lifecycle of its type and keeps amount and currency together.
\<close>

theorem ApplyInvoice_keeps_entities_ok:
  assumes "db_ok d" and "\<forall>e \<in> set (entities d). entity_ok e \<and> entity_money_ok e"
    and "IsInvoiceState state" and "money_ok amt cur"
  shows "\<forall>e \<in> set (entities (snd (ApplyInvoice P fb fs fw fc now key state et amt cur d))).
    entity_ok e \<and> entity_money_ok e"
proof -
  have "keeps_entities (\<lambda>e. entity_ok e \<and> entity_money_ok e) d
      (snd (ApplyInvoice P fb fs fw fc now key state et amt cur d))"
    using assms(1)
  proof (rule ApplyInvoice_keeps)
    fix et
    show "entity_ok (new_invoice now key state et amt cur) \<and> entity_money_ok (new_invoice now key state et amt cur)"
      using assms(3,4)
      by (auto simp: entity_ok_def entity_money_ok_def new_invoice_def money_ok_def split: option.splits)
  next
    fix e et
    assume "entity_ok e \<and> entity_money_ok e" "InvoiceTransitionAllowed (e_CurrentState e) state"
    then show "entity_ok (advance_invoice now state et amt cur e) \<and>
        entity_money_ok (advance_invoice now state et amt cur e)"
      using assms(4) advance_invoice_money_ok advance_invoice_ok by blast
  qed
  with assms(2) show ?thesis unfolding keeps_entities_def by blast
qed

theorem ApplyInvoice_keeps_entities_ok_witness:
  "list_all (\<lambda>e. entity_ok e \<and> entity_money_ok e)
     (entities (snd (ApplyInvoice demo_pg NoFault NoFault NoFault (FaultAfter ''lost'') 8 ''INV''
        StateRefunded None (Some 100) ''EUR'' demo_paid)))"
  unfolding list_all_iff
  by (rule ApplyInvoice_keeps_entities_ok)
    (simp_all add: demo_paid_def demo_paid_row_def db_ok_def unique_on_def entity_ok_def entity_money_ok_def
      IsInvoiceState_iff invoice_states_def money_ok_def)


text \<open>
  C39: the key of an entity is shared by both lifecycles. A shipment event whose key is that of
  an invoice overwrites the invoice's state with a shipment state (the row keeps the type
  INVOICE), and from then on no invoice state is ever applied to it again.
\<close>

theorem shipment_overwrites_invoice:
  assumes "db_ok d" and "select_by e_EntityKey key (entities d) = Some e" and "e_Type e = ClassInvoice"
    and "entity_ok e" and "IsShipmentState state"
    and "d' = snd (ApplyShipment P NoFault now key state (ShipmentRank state) et d)"
  shows "entity_view d' key = Some (ClassInvoice, state, ShipmentRank state)
    \<and> (\<forall>fb fs fw fc now' s et' amt cur.
         entities (snd (ApplyInvoice P fb fs fw fc now' key s et' amt cur d')) = entities d')"
proof -
  have v: "entity_view d key = Some (ClassInvoice, e_CurrentState e, 0)"
    using assms(2-4) by (simp add: entity_view_def entity_ok_def)
  then have v': "entity_view d' key = Some (ClassInvoice, state, ShipmentRank state)"
    using ShipmentRank_range [OF assms(5)] by (simp add: assms(6) entity_view_ApplyShipment)
  then obtain e' where e': "select_by e_EntityKey key (entities d') = Some e'" "e_CurrentState e' = state"
    by (auto simp: entity_view_def)
  have "\<not> InvoiceTransitionAllowed state s" for s
    using InvoiceTransitionAllowed_states lifecycles_disjoint assms(5) by blast
  then have "snd (ApplyInvoice P fb fs fw fc now' key s et' amt cur d') = d'" for fb fs fw fc now' s et' amt cur
    using ApplyInvoice_old [OF e'(1) refl, of P fb fs fw fc now' s et' amt cur] e'(2) by simp
  with v' show ?thesis by simp
qed

theorem shipment_overwrites_invoice_witness:
  "entity_view (snd (ApplyShipment demo_pg NoFault 9 ''INV'' StatePickedUp (ShipmentRank StatePickedUp) None demo_paid))
     ''INV'' = Some (ClassInvoice, StatePickedUp, 1)"
  using shipment_overwrites_invoice [of demo_paid "''INV''" demo_paid_row StatePickedUp
      "snd (ApplyShipment demo_pg NoFault 9 ''INV'' StatePickedUp (ShipmentRank StatePickedUp) None demo_paid)"
      demo_pg 9 None]
  by (simp add: demo_paid_def demo_paid_row_def db_ok_def unique_on_def entity_ok_def IsInvoiceState_iff
      invoice_states_def IsShipmentState_iff shipment_states_def ShipmentRank_values)

end
