(* ===== verification/Processor.thy ===== *)
theory Processor
  imports Queue Projection
begin

text \<open>
  Package \<open>processor\<close>: one job through the pipeline, from the payload over the model's answer and
  the gate to the stored fact and the entity it moves. Every database call takes the fault it
  meets from \<open>handle_env\<close>. The pipeline refines an abstract step on the entities (\<open>step_fact\<close>);
  the properties say when it answers with which kind of error, what a success guarantees, and
  that running it again, after a success or after a failure anywhere, changes nothing more.
\<close>

record Processor =
  p_llm :: Client
  p_norm :: Normalizer

record handle_env =
  h_now :: timestamptz
  h_fact :: fault
  h_begin :: fault
  h_select :: fault
  h_write :: fault
  h_commit :: fault

text \<open>\<open>project\<close>; the single statement of a shipment meets the fault \<open>h_write\<close>.\<close>

definition project :: "pg \<Rightarrow> handle_env \<Rightarrow> Normalized \<Rightarrow> db \<Rightarrow> unit outcome" where
  "project P env n d =
     (if n_Classification n = ClassShipment then
        ApplyShipment P (h_write env) (h_now env) (n_EntityKey n) (n_CanonicalState n)
          (ShipmentRank (n_CanonicalState n)) (n_EventTime n) d
      else if n_Classification n = ClassInvoice then
        ApplyInvoice P (h_begin env) (h_select env) (h_write env) (h_commit env) (h_now env)
          (n_EntityKey n) (n_CanonicalState n) (n_EventTime n) (n_AmountMinor n) (n_Currency n) d
      else (Inr (), d))"

definition Handle :: "unicode \<Rightarrow> pg \<Rightarrow> Processor \<Rightarrow> handle_env \<Rightarrow> Job \<Rightarrow> db \<Rightarrow> unit outcome" where
  "Handle U P p env job d =
     (case p_llm p (j_Payload job) of
        Inl err \<Rightarrow>
          if Retryable err then (Inl (Wrap ''llm: '' err), d) else (Inl (Permanentf ''llm: '' err), d)
      | Inr res \<Rightarrow>
          (case Apply U (p_norm p) (res_Response res) of
             Inl err \<Rightarrow> (Inl (Permanentf ''normalize: '' err), d)
           | Inr n \<Rightarrow>
               (case InsertNormalized P (h_fact env) (h_now env) (j_ID job) n (res_Model res) (res_PromptVer res) d of
                  (Inl err, d1) \<Rightarrow> (Inl (Wrap ''persist fact: '' err), d1)
                | (Inr _, d1) \<Rightarrow>
                    (case project P env n d1 of
                       (Inl err, d2) \<Rightarrow> (Inl (Wrap ''project: '' err), d2)
                     | (Inr _, d2) \<Rightarrow> (Inr (), d2)))))"

definition no_faults :: "timestamptz \<Rightarrow> handle_env" where
  "no_faults now = \<lparr>h_now = now, h_fact = NoFault, h_begin = NoFault, h_select = NoFault, h_write = NoFault,
     h_commit = NoFault\<rparr>"

subsection \<open>The abstract step\<close>

fun step_invoice :: "string \<times> string \<Rightarrow> view \<Rightarrow> view" where
  "step_invoice (key, state) v =
     (case v key of
        None \<Rightarrow> v(key \<mapsto> (ClassInvoice, state, 0))
      | Some (ty, cur, rank) \<Rightarrow>
          if InvoiceTransitionAllowed cur state then v(key \<mapsto> (ty, state, rank)) else v)"

definition step_fact :: "Normalized \<Rightarrow> view \<Rightarrow> view" where
  "step_fact n v =
     (if n_Classification n = ClassShipment then advance_shipment (n_EntityKey n, n_CanonicalState n) v
      else if n_Classification n = ClassInvoice then step_invoice (n_EntityKey n, n_CanonicalState n) v
      else v)"

lemma step_invoice_idem: "step_invoice x (step_invoice x v) = step_invoice x v"
  by (cases x) (auto simp: InvoiceTransitionAllowed_irrefl split: option.splits)

lemma step_fact_idem: "step_fact n (step_fact n v) = step_fact n v"
  by (auto simp: step_fact_def step_invoice_idem split: option.splits)

lemma entity_view_ApplyInvoice:
  assumes "db_ok d"
  shows "entity_view (snd (ApplyInvoice P NoFault NoFault NoFault NoFault now key state et amt cur d)) =
    step_invoice (key, state) (entity_view d)"
proof (cases "select_by e_EntityKey key (entities d)")
  case None
  then show ?thesis
    by (auto simp: fun_eq_iff ApplyInvoice_def entity_view_def table_simps new_invoice_def split: option.splits)
next
  case (Some row)
  then show ?thesis
    by (auto simp: fun_eq_iff ApplyInvoice_def entity_view_def select_by_update_key advance_invoice_def)
qed

lemma entity_view_project:
  "db_ok d \<Longrightarrow> entity_view (snd (project P (no_faults now) n d)) = step_fact n (entity_view d)"
  by (simp add: project_def step_fact_def no_faults_def entity_view_ApplyInvoice entity_view_ApplyShipment
      del: advance_shipment.simps step_invoice.simps)

lemma project_ok: "fst (project P (no_faults now) n d) = Inr ()"
  by (auto simp: project_def no_faults_def ApplyShipment_def upsert_shipment_def ApplyInvoice_def Let_def
      split: option.splits)

lemma ApplyShipment_state:
  "snd (ApplyShipment P f now key state rank et d) = d
   \<or> snd (ApplyShipment P f now key state rank et d) = snd (ApplyShipment P NoFault now key state rank et d)"
  by (cases f) (simp_all add: ApplyShipment_def)

lemma ApplyInvoice_fault_state:
  "snd (ApplyInvoice P fb fs fw fc now key state et amt cur d) = d
   \<or> snd (ApplyInvoice P fb fs fw fc now key state et amt cur d)
     = snd (ApplyInvoice P NoFault NoFault NoFault NoFault now key state et amt cur d)"
  by (rule ApplyInvoice_state [of P fb fs fw fc now key state et amt cur d]) (simp_all add: ApplyInvoice_def)

text \<open>Whatever faults it meets, the projection moves nothing or moves as it does without them.\<close>

lemma project_state:
  "snd (project P env n d) = d \<or> snd (project P env n d) = snd (project P (no_faults (h_now env)) n d)"
  using ApplyShipment_state ApplyInvoice_fault_state by (simp add: project_def no_faults_def)

lemma project_raw [simp]: "raw_events (snd (project P env n d)) = raw_events d"
proof -
  have "raw_events (snd (project P (no_faults now) n d)) = raw_events d" for now
    by (auto simp: project_def no_faults_def ApplyShipment_def upsert_shipment_def ApplyInvoice_def Let_def
        split: option.splits)
  then show ?thesis using project_state [of P env n d] by metis
qed

lemma project_facts [simp]: "normalized_events (snd (project P env n d)) = normalized_events d"
proof -
  have "normalized_events (snd (project P (no_faults now) n d)) = normalized_events d" for now
    by (auto simp: project_def no_faults_def ApplyShipment_def upsert_shipment_def ApplyInvoice_def Let_def
        split: option.splits)
  then show ?thesis using project_state [of P env n d] by metis
qed

interpretation proj: durable_op "project P env n" for P env n
  by unfold_locales
    (auto simp: project_def apply_shipment.keeps_ok apply_invoice.keeps_ok apply_shipment.advances
      apply_invoice.advances)

subsection \<open>The pipeline by cases\<close>

definition persist :: "pg \<Rightarrow> handle_env \<Rightarrow> Job \<Rightarrow> Result \<Rightarrow> Normalized \<Rightarrow> db \<Rightarrow> unit outcome" where
  "persist P env job res n d =
     InsertNormalized P (h_fact env) (h_now env) (j_ID job) n (res_Model res) (res_PromptVer res) d"

text \<open>What the model and the gate make of a job, before the database is involved.\<close>

definition verdict :: "unicode \<Rightarrow> Processor \<Rightarrow> Job \<Rightarrow> go_error + Result \<times> Normalized" where
  "verdict U p job =
     (case p_llm p (j_Payload job) of
        Inl err \<Rightarrow> Inl (if Retryable err then Wrap ''llm: '' err else Permanentf ''llm: '' err)
      | Inr res \<Rightarrow> (case Apply U (p_norm p) (res_Response res) of
          Inl err \<Rightarrow> Inl (Permanentf ''normalize: '' err) | Inr n \<Rightarrow> Inr (res, n)))"

lemma Handle_rejected: "verdict U p job = Inl err \<Longrightarrow> Handle U P p env job d = (Inl err, d)"
  by (auto simp: verdict_def Handle_def split: sum.splits if_splits)

lemma Handle_accepted:
  "verdict U p job = Inr (res, n) \<Longrightarrow> Handle U P p env job d =
     (case persist P env job res n d of
        (Inl err, d1) \<Rightarrow> (Inl (Wrap ''persist fact: '' err), d1)
      | (Inr _, d1) \<Rightarrow> (case project P env n d1 of
          (Inl err, d2) \<Rightarrow> (Inl (Wrap ''project: '' err), d2) | (Inr _, d2) \<Rightarrow> (Inr (), d2)))"
  by (auto simp: verdict_def Handle_def persist_def split: sum.splits)

lemma Handle_ok:
  assumes "Handle U P p env job d = (Inr (), d')"
  obtains res n d1 where "verdict U p job = Inr (res, n)" "persist P env job res n d = (Inr (), d1)"
    "project P env n d1 = (Inr (), d')"
proof (cases "verdict U p job")
  case (Inl err)
  with assms show thesis by (simp add: Handle_rejected)
next
  case (Inr rn)
  then obtain res n where "verdict U p job = Inr (res, n)" by (cases rn) simp
  with assms that show thesis
    by (auto simp: Handle_accepted split: prod.splits sum.splits)
qed

lemma Handle_state:
  obtains "snd (Handle U P p env job d) = d"
  | res n where "verdict U p job = Inr (res, n)" "snd (Handle U P p env job d) = snd (persist P env job res n d)"
  | res n where "verdict U p job = Inr (res, n)" "fst (persist P env job res n d) = Inr ()"
    "snd (Handle U P p env job d) = snd (project P env n (snd (persist P env job res n d)))"
proof (cases "verdict U p job")
  case (Inl err)
  then show thesis using that(1) by (simp add: Handle_rejected)
next
  case (Inr rn)
  obtain res n where v: "verdict U p job = Inr (res, n)" using Inr by (cases rn) simp
  obtain x d1 where p: "persist P env job res n d = (x, d1)" by fastforce
  show thesis
  proof (cases x)
    case (Inl err)
    with p show thesis by (intro that(2) [OF v]) (simp add: Handle_accepted [OF v])
  next
    case (Inr u)
    with p show thesis
      by (intro that(3) [OF v]) (simp_all add: Handle_accepted [OF v] split: prod.splits sum.splits)
  qed
qed

interpretation pers: durable_op "persist P env job res n" for P env job res n
  unfolding persist_def [abs_def] by (rule insert_normalized.durable_op_axioms)

lemma persist_other [simp]:
  "raw_events (snd (persist P env job res n d)) = raw_events d"
  "entities (snd (persist P env job res n d)) = entities d"
  by (cases "h_fact env"; simp add: persist_def InsertNormalized_def insert_normalized_stmt_def)+

interpretation hand: durable_op "Handle U P p env job" for U P p env job
proof unfold_locales
  fix d :: db
  show "db_ok (snd (Handle U P p env job d))" if "db_ok d"
    by (rule Handle_state [of U P p env job d]) (simp_all add: that pers.keeps_ok proj.keeps_ok)
  show "evolves d (snd (Handle U P p env job d))"
    by (rule Handle_state [of U P p env job d])
      (simp_all add: pers.advances evolves_trans [OF pers.advances proj.advances])
qed

lemma Handle_raw [simp]: "raw_events (snd (Handle U P p env job d)) = raw_events d"
  by (rule Handle_state [of U P p env job d]) simp_all


subsection \<open>Errors\<close>

lemma IsPermanent_simps [simp]:
  "IsPermanent (Permanentf p e)" "IsPermanent (Wrap p e) = IsPermanent e" "\<not> IsPermanent (PgError m)"
  by (simp_all add: IsPermanent_def Permanentf_def)

text \<open>The errors of the store are the database's own.\<close>

lemma persist_error: "fst (persist P env job res n d) = Inl err \<Longrightarrow> \<not> IsPermanent err"
  by (cases "h_fact env") (auto simp: persist_def InsertNormalized_def insert_normalized_stmt_def split: if_splits)

lemma tx_error_pg: "tx_error f = Some e \<Longrightarrow> \<not> IsPermanent e"
  by (cases f) auto

lemma commit_error: "fst (db_call f (\<lambda>_. (Inr (), d')) PgError d) = Inl err \<Longrightarrow> \<not> IsPermanent err"
  by (cases f) auto

lemma project_error: "fst (project P env n d) = Inl err \<Longrightarrow> \<not> IsPermanent err"
  by (cases "h_write env")
    (auto simp: project_def ApplyShipment_def upsert_shipment_def ApplyInvoice_def Let_def
      dest: tx_error_pg commit_error split: if_splits option.splits)

subsection \<open>Running it again\<close>

lemma persist_clean:
  assumes "verdict U p job = Inr (res, n)" and "j_ID job \<in> rr_id ` set (raw_events d)"
  shows "persist P (no_faults now) job res n d =
    (Inr (), case select_by nr_raw_event_id (j_ID job) (normalized_events d) of
       None \<Rightarrow> d\<lparr>normalized_events := normalized_events d @ [new_norm P now (j_ID job) n (res_Model res) (res_PromptVer res)]\<rparr>
     | Some row \<Rightarrow> d)"
proof -
  from assms(1) have "n_Classification n \<in> {ClassShipment, ClassInvoice, ClassUnclassified}"
    by (auto simp: verdict_def dest: Apply_known_class split: sum.splits if_splits)
  with assms(2) select_by_None [of nr_raw_event_id "j_ID job" "normalized_events d"] show ?thesis
    by (auto simp: persist_def InsertNormalized_def insert_normalized_stmt_def no_faults_def new_norm_def
        split: option.splits)
qed

lemma persist_state:
  "snd (persist P env job res n d) = d
   \<or> snd (persist P env job res n d) = snd (persist P (no_faults (h_now env)) job res n d)"
  using db_call_state by (simp add: persist_def InsertNormalized_def no_faults_def)

lemma persist_known:
  assumes "verdict U p job = Inr (res, n)" and "j_ID job \<in> rr_id ` set (raw_events d)"
    and "select_by nr_raw_event_id (j_ID job) (normalized_events d) = Some row"
  shows "persist P (no_faults now) job res n d = (Inr (), d)"
  using assms by (simp add: persist_clean)

lemma fact_id: "select_by nr_raw_event_id x (normalized_events d) = Some row \<Longrightarrow> db_ok d \<Longrightarrow>
    x \<in> rr_id ` set (raw_events d)"
  by (auto simp: db_ok_def dest!: select_by_SomeD)

lemma persist_ok_fact:
  assumes "persist P env job res n d = (Inr (), d1)"
  shows "\<exists>row. select_by nr_raw_event_id (j_ID job) (normalized_events d1) = Some row"
  using InsertNormalized_ok [OF assms [unfolded persist_def]]
  by (auto simp: table_simps new_norm_def split: option.splits)

lemma step_shipment_reached:
  "n_Classification n = ClassShipment \<Longrightarrow>
   \<exists>ty s r. step_fact n v (n_EntityKey n) = Some (ty, s, r) \<and> ShipmentRank (n_CanonicalState n) \<le> r"
  by (auto simp: step_fact_def split: option.splits)

lemma step_invoice_reached:
  "n_Classification n = ClassInvoice \<Longrightarrow> \<exists>e. step_fact n v (n_EntityKey n) = Some e"
  by (auto simp: step_fact_def split: option.splits)

text \<open>Once a fact was applied, applying it again leaves the database as it is.\<close>

lemma project_again:
  assumes ok: "db_ok d" and settled: "step_fact n (entity_view d) = entity_view d"
  shows "project P (no_faults now) n d = (Inr (), d)"
proof -
  let ?k = "n_EntityKey n" and ?s = "n_CanonicalState n"
  consider (shipment) "n_Classification n = ClassShipment" | (invoice) "n_Classification n = ClassInvoice"
    | (other) "n_Classification n \<noteq> ClassShipment" "n_Classification n \<noteq> ClassInvoice" by blast
  then show ?thesis
  proof cases
    case shipment
    with settled have "advance_shipment (?k, ?s) (entity_view d) ?k = entity_view d ?k"
      by (simp add: step_fact_def)
    then obtain e where e: "select_by e_EntityKey ?k (entities d) = Some e" "ShipmentRank ?s \<le> e_CurrentRank e"
      by (auto simp: entity_view_def split: option.splits if_splits)
    with shipment show ?thesis
      by (simp add: project_def ApplyShipment_def no_faults_def upsert_shipment_late [OF ok])
  next
    case invoice
    with settled have "step_invoice (?k, ?s) (entity_view d) ?k = entity_view d ?k"
      by (simp add: step_fact_def)
    then obtain e where "select_by e_EntityKey ?k (entities d) = Some e"
      "\<not> InvoiceTransitionAllowed (e_CurrentState e) ?s"
      by (auto simp: entity_view_def InvoiceTransitionAllowed_irrefl split: option.splits if_splits)
    with invoice show ?thesis by (simp add: project_def ApplyInvoice_def no_faults_def)
  next
    case other
    then show ?thesis by (simp add: project_def)
  qed
qed

lemma project_clean_settled:
  "db_ok d \<Longrightarrow> step_fact n (entity_view (snd (project P (no_faults now) n d))) =
     entity_view (snd (project P (no_faults now) n d))"
  by (simp add: entity_view_project step_fact_idem)

text \<open>A projection that succeeded has the effect it has without faults.\<close>

lemma tx_error_None: "tx_error f = None \<longleftrightarrow> f = NoFault"
  by (cases f) simp_all

lemma project_success:
  "project P env n d = (Inr (), d') \<Longrightarrow> d' = snd (project P (no_faults (h_now env)) n d)"
  by (auto simp: project_def no_faults_def ApplyShipment_def ApplyInvoice_def Let_def tx_error_None
      dest!: db_call_Inr split: if_splits option.splits)

lemma Handle_clean:
  assumes "verdict U p job = Inr (res, n)" and "j_ID job \<in> rr_id ` set (raw_events d)"
  shows "Handle U P p (no_faults now) job d =
    (Inr (), snd (project P (no_faults now) n (snd (persist P (no_faults now) job res n d))))"
proof -
  have "fst (persist P (no_faults now) job res n d) = Inr ()"
    by (simp add: persist_clean [OF assms])
  with project_ok show ?thesis
    by (auto simp: Handle_accepted [OF assms(1)] split: prod.splits sum.splits) (metis fst_conv sum.distinct(1))
qed


subsection \<open>Properties of the pipeline\<close>

definition demo_processor :: Processor where
  "demo_processor = \<lparr>p_llm = (\<lambda>payload. if payload = ''{}''
       then Inr \<lparr>res_Response = demo_invoice, res_Model = ''m'', res_PromptVer = ''v1''\<rparr>
       else Inl (APIError 400 False ''bad request'')),
     p_norm = New (Fin (3 / 5))\<rparr>"

definition demo_job :: Job where
  "demo_job = \<lparr>j_ID = ''id1'', j_Payload = ''{}'', j_Attempts = 1\<rparr>"

lemma demo_verdict: "verdict demo_unicode demo_processor demo_job =
    Inr (\<lparr>res_Response = demo_invoice, res_Model = ''m'', res_PromptVer = ''v1''\<rparr>, demo_fact)"
  by (simp add: verdict_def demo_processor_def demo_job_def demo_invoice_apply)

lemma demo_handle:
  "fst (Handle demo_unicode demo_pg demo_processor (no_faults 20) demo_job (demo_log StatusProcessing)) = Inr ()"
  by (subst Handle_clean [OF demo_verdict]) (simp_all add: demo_job_def demo_log_def demo_raw_def new_raw_def)

text \<open>
  What a success guarantees. When the pipeline reports success, whatever it went through,
  the gate accepted the model's answer as a well-formed fact, exactly one fact is stored for
  the job, and the fact has reached its entity: a shipment stands at its rank or beyond, an
  invoice exists.
\<close>

theorem Handle_success:
  assumes "unicode_ok U" and "db_ok d" and "Handle U P p env job d = (Inr (), d')"
  shows "\<exists>n row. wf_fact U n \<and> filter (\<lambda>r. nr_raw_event_id r = j_ID job) (normalized_events d') = [row]
    \<and> (n_Classification n = ClassShipment \<longrightarrow> (\<exists>ty s r. entity_view d' (n_EntityKey n) = Some (ty, s, r)
          \<and> ShipmentRank (n_CanonicalState n) \<le> r))
    \<and> (n_Classification n = ClassInvoice \<longrightarrow> entity_view d' (n_EntityKey n) \<noteq> None)"
proof -
  from assms(3) obtain res n d1 where v: "verdict U p job = Inr (res, n)"
    and p: "persist P env job res n d = (Inr (), d1)" and q: "project P env n d1 = (Inr (), d')"
    by (rule Handle_ok)
  have d1: "db_ok d1" using pers.keeps_ok [OF assms(2), of P env job res n] p by simp
  have view: "entity_view d' = step_fact n (entity_view d1)"
    using project_success [OF q] entity_view_project [OF d1] by simp
  from persist_ok_fact [OF p] obtain row
    where "select_by nr_raw_event_id (j_ID job) (normalized_events d1) = Some row" by blast
  moreover have "normalized_events d' = normalized_events d1"
    using project_facts [of P env n d1] q by simp
  ultimately have "filter (\<lambda>r. nr_raw_event_id r = j_ID job) (normalized_events d') = [row]"
    using d1 by (simp add: db_ok_def filter_select)
  moreover have "wf_fact U n"
    using v Apply_wf [OF assms(1)] by (auto simp: verdict_def split: sum.splits if_splits)
  ultimately show ?thesis
    using view step_shipment_reached [of n "entity_view d1"] step_invoice_reached [of n "entity_view d1"] by auto
qed

theorem Handle_success_witness:
  "\<exists>d' n row. Handle demo_unicode demo_pg demo_processor (no_faults 20) demo_job (demo_log StatusProcessing) = (Inr (), d')
    \<and> wf_fact demo_unicode n \<and> filter (\<lambda>r. nr_raw_event_id r = j_ID demo_job) (normalized_events d') = [row]"
  using Handle_success [OF demo_unicode_ok demo_log_ok(1) [of StatusProcessing], of demo_pg demo_processor "no_faults 20" demo_job]
    demo_handle by (metis prod.collapse)

text \<open>
  Which failures are permanent. Where the model client itself never answers with a
  permanent error, the pipeline fails permanently exactly when the provider's error is not
  retryable or the gate rejects the answer, and then the database is untouched; every failure
  of the database is one to retry.
\<close>

theorem Handle_error_kinds:
  assumes "\<forall>e. p_llm p (j_Payload job) = Inl e \<longrightarrow> \<not> IsPermanent e"
    and "Handle U P p env job d = (Inl err, d')"
  shows "(IsPermanent err \<longleftrightarrow> (case p_llm p (j_Payload job) of
            Inl e \<Rightarrow> \<not> Retryable e
          | Inr res \<Rightarrow> (\<exists>e. Apply U (p_norm p) (res_Response res) = Inl e)))
    \<and> (IsPermanent err \<longrightarrow> d' = d)"
proof (cases "verdict U p job")
  case (Inl e)
  with assms show ?thesis
    by (auto simp: Handle_rejected) (auto simp: verdict_def split: sum.splits if_splits)
next
  case (Inr rn)
  obtain res n where v: "verdict U p job = Inr (res, n)" using Inr by (cases rn) simp
  have "\<not> IsPermanent err"
    using assms(2) persist_error [of P env job res n d] project_error [of P env n]
    by (auto simp: Handle_accepted [OF v] split: prod.splits sum.splits) (metis fst_conv)+
  with v show ?thesis by (auto simp: verdict_def split: sum.splits if_splits)
qed

theorem Handle_error_kinds_witness:
  "\<exists>err. Handle demo_unicode demo_pg demo_processor (no_faults 20) (demo_job\<lparr>j_Payload := ''x''\<rparr>) empty_db = (Inl err, empty_db)
    \<and> IsPermanent err"
proof -
  have h: "Handle demo_unicode demo_pg demo_processor (no_faults 20) (demo_job\<lparr>j_Payload := ''x''\<rparr>) empty_db =
      (Inl (Permanentf ''llm: '' (APIError 400 False ''bad request'')), empty_db)"
    by (simp add: Handle_def demo_processor_def demo_job_def)
  have n: "\<forall>e. p_llm demo_processor (j_Payload (demo_job\<lparr>j_Payload := ''x''\<rparr>)) = Inl e \<longrightarrow> \<not> IsPermanent e"
    by (simp add: demo_processor_def IsPermanent_def)
  from Handle_error_kinds [OF n h] h show ?thesis
    by (simp add: demo_processor_def)
qed

text \<open>
  What the pipeline relies on of a model client (the interface \<open>llm.Client\<close>): its errors are never
  permanent ones, and the flag on them tells exactly whether the provider refused for good.
  Then the failures of the pipeline are permanent exactly on a refusal or a rejected answer.
\<close>

locale llm_client =
  fixes normalize :: Client and refused :: "bytes \<Rightarrow> bool"
  assumes not_permanent: "normalize raw = Inl e \<Longrightarrow> \<not> IsPermanent e"
    and retry_flag: "normalize raw = Inl e \<Longrightarrow> Retryable e \<longleftrightarrow> \<not> refused raw"
begin

lemma permanent_exactly:
  assumes "Handle U P \<lparr>p_llm = normalize, p_norm = g\<rparr> env job d = (Inl err, d')"
  shows "(IsPermanent err \<longleftrightarrow> (case normalize (j_Payload job) of
            Inl _ \<Rightarrow> refused (j_Payload job)
          | Inr res \<Rightarrow> isl (Apply U g (res_Response res))))
    \<and> (IsPermanent err \<longrightarrow> d' = d)"
proof -
  have "\<forall>e. p_llm \<lparr>p_llm = normalize, p_norm = g\<rparr> (j_Payload job) = Inl e \<longrightarrow> \<not> IsPermanent e"
    using not_permanent by simp
  from Handle_error_kinds [OF this assms] retry_flag [of "j_Payload job"] show ?thesis
    by (auto simp: isl_def split: sum.splits)
qed

end

text \<open>
  Redelivery after a success is harmless. Once the pipeline succeeded for a job, running it
  again on the same job with the same answer of the model, at any later time, succeeds and
  leaves the whole database exactly as it is.
\<close>

theorem Handle_idempotent:
  assumes "db_ok d" and "Handle U P p env job d = (Inr (), d')"
  shows "Handle U P p (no_faults now') job d' = (Inr (), d')"
proof -
  from assms(2) obtain res n d1 where v: "verdict U p job = Inr (res, n)"
    and p: "persist P env job res n d = (Inr (), d1)" and q: "project P env n d1 = (Inr (), d')"
    by (rule Handle_ok)
  have d1: "db_ok d1" using pers.keeps_ok [OF assms(1), of P env job res n] p by simp
  have d': "db_ok d'" using proj.keeps_ok [OF d1, of P env n] q by simp
  have "normalized_events d' = normalized_events d1" using project_facts [of P env n d1] q by simp
  with persist_ok_fact [OF p] obtain row
    where row: "select_by nr_raw_event_id (j_ID job) (normalized_events d') = Some row" by auto
  have i: "j_ID job \<in> rr_id ` set (raw_events d')" by (rule fact_id [OF row d'])
  have "step_fact n (entity_view d') = entity_view d'"
    using project_success [OF q] project_clean_settled [OF d1] by simp
  then have "project P (no_faults now') n d' = (Inr (), d')" by (rule project_again [OF d'])
  then show ?thesis
    by (simp add: Handle_clean [OF v i] persist_known [OF v i row])
qed

theorem Handle_idempotent_witness:
  "\<exists>d'. Handle demo_unicode demo_pg demo_processor (no_faults 20) demo_job (demo_log StatusProcessing) = (Inr (), d')
    \<and> Handle demo_unicode demo_pg demo_processor (no_faults 99) demo_job d' = (Inr (), d')"
  using Handle_idempotent [OF demo_log_ok(1) [of StatusProcessing], of demo_unicode demo_pg demo_processor "no_faults 20" demo_job]
    demo_handle by (metis prod.collapse)


text \<open>A fact without the time it was stored at.\<close>

definition forget_time :: "norm_row \<Rightarrow> norm_row" where
  "forget_time n = n\<lparr>nr_created_at := 0\<rparr>"

lemma entity_view_persist [simp]: "entity_view (snd (persist P env job res n d)) = entity_view d"
  by (simp add: entity_view_def)

lemma Handle_clean_view:
  assumes "verdict U p job = Inr (res, n)" and "j_ID job \<in> rr_id ` set (raw_events d)" and "db_ok d"
  shows "entity_view (snd (Handle U P p (no_faults now) job d)) = step_fact n (entity_view d)"
  by (simp add: Handle_clean [OF assms(1,2)] entity_view_project pers.keeps_ok assms(3))

lemma Handle_clean_facts:
  assumes "verdict U p job = Inr (res, n)" and "j_ID job \<in> rr_id ` set (raw_events d)"
  shows "normalized_events (snd (Handle U P p (no_faults now) job d)) =
    (if select_by nr_raw_event_id (j_ID job) (normalized_events d) = None
     then normalized_events d @ [new_norm P now (j_ID job) n (res_Model res) (res_PromptVer res)]
     else normalized_events d)"
  by (simp add: Handle_clean [OF assms] persist_clean [OF assms] split: option.splits)

text \<open>What any run, complete or not, leaves of the entities and of the facts.\<close>

lemma Handle_partial_view:
  assumes "verdict U p job = Inr (res, n)" and "db_ok d"
  shows "entity_view (snd (Handle U P p env job d)) \<in> {entity_view d, step_fact n (entity_view d)}"
proof (rule Handle_state [of U P p env job d])
  fix res' n'
  assume h: "verdict U p job = Inr (res', n')"
    "snd (Handle U P p env job d) = snd (project P env n' (snd (persist P env job res' n' d)))"
  let ?d1 = "snd (persist P env job res' n' d)"
  have "entity_view (snd (project P env n' ?d1)) \<in> {entity_view ?d1, step_fact n' (entity_view ?d1)}"
    using project_state [of P env n' ?d1] entity_view_project [OF pers.keeps_ok [OF assms(2)]] by auto
  with h assms(1) show ?thesis by simp
qed simp_all

lemma Handle_partial_facts:
  assumes v: "verdict U p job = Inr (res, n)" and i: "j_ID job \<in> rr_id ` set (raw_events d)"
  shows "normalized_events (snd (Handle U P p env job d)) = normalized_events d
    \<or> normalized_events (snd (Handle U P p env job d)) =
      normalized_events (snd (Handle U P p (no_faults (h_now env)) job d))"
proof -
  have "normalized_events (snd (persist P env job res n d)) = normalized_events d
      \<or> normalized_events (snd (persist P env job res n d)) =
        normalized_events (snd (persist P (no_faults (h_now env)) job res n d))"
    using persist_state [of P env job res n d] by auto
  then show ?thesis
    by (cases rule: Handle_state [of U P p env job d]) (auto simp: v Handle_clean [OF v i])
qed

text \<open>
  C9: at-least-once delivery has the effect of one delivery. Take a run of the pipeline that
  meets any faults and may stop anywhere, followed by a clean run of the redelivered job with
  the same answer of the model: it reports what a single clean run would have reported and
  leaves the same entities and, up to their time of storage, the same facts.
\<close>

theorem Handle_effectively_once:
  assumes "db_ok d" and "j_ID job \<in> rr_id ` set (raw_events d)"
    and "once = Handle U P p (no_faults now) job d"
    and "twice = Handle U P p (no_faults now') job (snd (Handle U P p env job d))"
  shows "fst twice = fst once \<and> entity_view (snd twice) = entity_view (snd once)
    \<and> map forget_time (normalized_events (snd twice)) = map forget_time (normalized_events (snd once))"
proof (cases "verdict U p job")
  case (Inl err)
  then show ?thesis by (simp add: assms(3,4) Handle_rejected)
next
  case (Inr rn)
  obtain res n where v: "verdict U p job = Inr (res, n)" using Inr by (cases rn) simp
  let ?d1 = "snd (Handle U P p env job d)"
  note i = assms(2)
  have ok: "db_ok ?d1" using assms(1) by (rule hand.keeps_ok)
  have i1: "j_ID job \<in> rr_id ` set (raw_events ?d1)" using i by simp
  have "fst twice = fst once"
    by (simp add: assms(3,4) Handle_clean [OF v i] Handle_clean [OF v i1])
  moreover have "entity_view (snd twice) = entity_view (snd once)"
    using Handle_partial_view [OF v assms(1), of P env]
    by (auto simp: assms(3,4) Handle_clean_view [OF v i assms(1)] Handle_clean_view [OF v i1 ok] step_fact_idem)
  moreover have "map forget_time (normalized_events (snd twice)) = map forget_time (normalized_events (snd once))"
    using Handle_partial_facts [OF v i, of P env]
    by (auto simp: assms(3,4) Handle_clean_facts [OF v i] Handle_clean_facts [OF v i1] table_simps
        new_norm_def forget_time_def split: if_splits)
  ultimately show ?thesis by blast
qed

theorem Handle_effectively_once_witness:
  "entity_view (snd (Handle demo_unicode demo_pg demo_processor (no_faults 99) demo_job
     (snd (Handle demo_unicode demo_pg demo_processor ((no_faults 20)\<lparr>h_commit := FaultAfter ''lost''\<rparr>) demo_job
       (demo_log StatusProcessing))))) =
   entity_view (snd (Handle demo_unicode demo_pg demo_processor (no_faults 20) demo_job (demo_log StatusProcessing)))"
  using Handle_effectively_once [OF demo_log_ok(1) [of StatusProcessing] _ refl refl, of demo_job]
  by (simp add: demo_job_def demo_log_def demo_raw_def new_raw_def)

text \<open>
  C10: the pipeline implements the abstract step. On a job whose answer the gate accepts, a
  clean run succeeds, moves the entities exactly as the abstract step of the fact does, and
  appends the fact unless the job already has one.
\<close>

theorem Handle_refines_step:
  assumes "p_llm p (j_Payload job) = Inr res" and "Apply U (p_norm p) (res_Response res) = Inr n"
    and "j_ID job \<in> rr_id ` set (raw_events d)" and "db_ok d"
  shows "\<exists>d'. Handle U P p (no_faults now) job d = (Inr (), d')
    \<and> entity_view d' = step_fact n (entity_view d) \<and> raw_events d' = raw_events d
    \<and> normalized_events d' = normalized_events d @
        (if \<exists>r \<in> set (normalized_events d). nr_raw_event_id r = j_ID job then []
         else [new_norm P now (j_ID job) n (res_Model res) (res_PromptVer res)])"
proof -
  have v: "verdict U p job = Inr (res, n)" using assms(1,2) by (simp add: verdict_def)
  have "(\<exists>r \<in> set (normalized_events d). nr_raw_event_id r = j_ID job) \<longleftrightarrow>
      select_by nr_raw_event_id (j_ID job) (normalized_events d) \<noteq> None"
    by (auto simp: select_by_None intro: rev_image_eqI simp del: not_None_eq)
  then show ?thesis
    using Handle_clean [OF v assms(3), of P now] Handle_clean_view [OF v assms(3,4), of P now]
      Handle_clean_facts [OF v assms(3), of P now] Handle_raw [of U P p "no_faults now" job d]
    by (intro exI [of _ "snd (Handle U P p (no_faults now) job d)"]) (simp add: prod_eq_iff)
qed

theorem Handle_refines_step_witness:
  "\<exists>d'. Handle demo_unicode demo_pg demo_processor (no_faults 20) demo_job (demo_log StatusProcessing) = (Inr (), d')
    \<and> entity_view d' = step_fact demo_fact (entity_view (demo_log StatusProcessing))"
proof -
  have "p_llm demo_processor (j_Payload demo_job) = Inr \<lparr>res_Response = demo_invoice, res_Model = ''m'', res_PromptVer = ''v1''\<rparr>"
    by (simp add: demo_processor_def demo_job_def)
  from Handle_refines_step [OF this, of demo_unicode demo_fact "demo_log StatusProcessing" demo_pg 20] show ?thesis
    by (auto simp: demo_processor_def demo_invoice_apply demo_log_ok)
      (auto simp: demo_job_def demo_log_def demo_raw_def new_raw_def)
qed

end
