(* ===== verification/Worker.thy ===== *)
theory Worker
  imports Processor
begin

text \<open>
  Package \<open>worker\<close>: the consumer loop over the interfaces \<open>Queue\<close> and \<open>Handler\<close>. \<open>dispatch\<close> and one
  turn of \<open>worker\<close> are written over the operations they call, as the code is; the locale
  \<open>consumer\<close> extends the queue's contract by the handler's (a handler does not touch the fate of
  jobs) and carries what follows for the loop. Its interpretation is the queue over PostgreSQL
  with the pipeline as handler. \<open>None\<close> is a panic of the worker's goroutine.
\<close>

record Pool =
  concurrency :: int

definition NewPool :: "int \<Rightarrow> Pool" where
  "NewPool c = \<lparr>concurrency = (if c < 1 then 1 else c)\<rparr>"

text \<open>\<open>dispatch\<close>: errors of the queue's answers are logged and dropped.\<close>

definition dispatch ::
  "(string \<Rightarrow> 's \<Rightarrow> (go_error + unit) \<times> 's) \<Rightarrow> (string \<Rightarrow> int \<Rightarrow> string \<Rightarrow> 's \<Rightarrow> ((go_error + unit) \<times> 's) option)
    \<Rightarrow> (string \<Rightarrow> string \<Rightarrow> 's \<Rightarrow> (go_error + unit) \<times> 's) \<Rightarrow> (Job \<Rightarrow> 's \<Rightarrow> (go_error + unit) \<times> 's)
    \<Rightarrow> Job \<Rightarrow> 's \<Rightarrow> 's option" where
  "dispatch ack retry fail handle job s =
     (case handle job s of
        (Inr _, s') \<Rightarrow> Some (snd (ack (j_ID job) s'))
      | (Inl err, s') \<Rightarrow>
          if IsPermanent err then Some (snd (fail (j_ID job) (Error err) s'))
          else map_option snd (retry (j_ID job) (j_Attempts job) (Error err) s'))"

datatype loop = Return | Continue

text \<open>
  One turn of the loop of \<open>worker\<close>. \<open>ctx_err\<close> is whether the context is cancelled when a failed
  claim returns, \<open>woken\<close> whether the pause after it ends by cancellation.
\<close>

definition worker_turn ::
  "('s \<Rightarrow> (go_error + Job option) \<times> 's) \<Rightarrow> (Job \<Rightarrow> 's \<Rightarrow> 's option) \<Rightarrow> bool \<Rightarrow> bool \<Rightarrow> 's \<Rightarrow> (loop \<times> 's) option" where
  "worker_turn claim disp ctx_err woken s =
     (case claim s of
        (Inl err, s') \<Rightarrow> Some (if ctx_err \<or> woken then Return else Continue, s')
      | (Inr None, s') \<Rightarrow> Some (Continue, s')
      | (Inr (Some job), s') \<Rightarrow> map_option (Pair Continue) (disp job s'))"

text \<open>The fate the answer to a handled job gives it, when the broker takes the answer.\<close>

definition routed :: "int \<Rightarrow> go_error + unit \<Rightarrow> int \<Rightarrow> fate \<Rightarrow> fate" where
  "routed cap out attempts =
     (\<lambda>old. case out of
        Inr _ \<Rightarrow> Done
      | Inl err \<Rightarrow> if IsPermanent err \<or> cap \<le> attempts then Dead else old)"

subsection \<open>The contract of the consumer\<close>

locale consumer = work_queue +
  fixes handle :: "Job \<Rightarrow> 's \<Rightarrow> (go_error + unit) \<times> 's"
  assumes handle_view: "job_view (snd (handle job s)) = job_view s"
begin

lemma dispatch_total:
  assumes "1 \<le> j_Attempts job" and "j_Attempts job < 2 ^ 63"
  obtains s' where "dispatch ack retry fail handle job s = Some s'"
proof -
  obtain x s1 where h: "handle job s = (x, s1)" by fastforce
  have "retry (j_ID job) (j_Attempts job) r s1 \<noteq> None" for r
    using retry_total [OF assms] .
  then have "dispatch ack retry fail handle job s \<noteq> None"
    by (auto simp: dispatch_def h simp del: not_None_eq split: sum.splits)
  with that show thesis by blast
qed

lemma dispatch_others:
  assumes "dispatch ack retry fail handle job s = Some s'" and "i \<noteq> j_ID job"
  shows "job_view s' i = job_view s i"
proof -
  obtain x s1 where h: "handle job s = (x, s1)" by fastforce
  then have s1: "job_view s1 = job_view s" using handle_view [of job s] by simp
  show ?thesis
  proof (cases x)
    case (Inr u)
    with assms h s1 others_untouched(1) [OF assms(2)] show ?thesis by (auto simp: dispatch_def)
  next
    case (Inl err)
    with assms h s1 others_untouched(2,3) [OF assms(2)] show ?thesis
      by (auto simp: dispatch_def split: if_splits)
  qed
qed

lemma dispatch_routes:
  assumes "dispatch ack retry fail handle job s = Some s'" and "handle job s = (out, s1)"
    and "\<And>s. fst (ack (j_ID job) s) = Inr ()" and "\<And>r s. fst (fail (j_ID job) r s) = Inr ()"
    and "\<And>n r s x s'. retry (j_ID job) n r s = Some (x, s') \<Longrightarrow> x = Inr ()"
  shows "job_view s' (j_ID job) = map_option (routed cap out (j_Attempts job)) (job_view s (j_ID job))"
proof -
  have s1: "job_view s1 = job_view s" using handle_view [of job s] assms(2) by simp
  show ?thesis
  proof (cases out)
    case (Inr u)
    with assms(1,2) have "s' = snd (ack (j_ID job) s1)" by (simp add: dispatch_def)
    with ack_ok [OF assms(3), of s1] Inr s1 show ?thesis by (simp add: routed_def)
  next
    case (Inl err)
    show ?thesis
    proof (cases "IsPermanent err")
      case True
      with Inl assms(1,2) have "s' = snd (fail (j_ID job) (Error err) s1)" by (simp add: dispatch_def)
      with fail_ok [OF assms(4), of "Error err" s1] Inl True s1 show ?thesis by (simp add: routed_def)
    next
      case False
      with Inl assms(1,2) obtain x where
        r: "retry (j_ID job) (j_Attempts job) (Error err) s1 = Some (x, s')" by (auto simp: dispatch_def)
      then have x: "retry (j_ID job) (j_Attempts job) (Error err) s1 = Some (Inr (), s')"
        using assms(5) by blast
      show ?thesis
      proof (cases "cap \<le> j_Attempts job")
        case True
        with retry_cap [OF x True] Inl False s1 show ?thesis by (simp add: routed_def)
      next
        case cap: False
        with retry_effect [OF x] Inl False s1 show ?thesis
          by (auto simp: routed_def option.map_ident)
      qed
    qed
  qed
qed

end

lemma job_fate_Handle: "job_fate (snd (Handle U P p env job d)) = job_fate d"
  by (simp add: job_fate_def fun_eq_iff)

interpretation pgc: consumer job_fate "Ack fa" "Retry P (cfg (NewPostgres c)) fr now pick" "Queue_Fail ff"
    "MaxAttempts (cfg (NewPostgres c))" "Handle U P p env"
  for fa fr ff P c now pick U p env
  by unfold_locales (rule job_fate_Handle)

subsection \<open>A turn on the real queue\<close>

text \<open>The choices of one turn: clocks, faults, what the claim's wait ends by, the random draw.\<close>

record turn_env =
  t_now :: timestamptz
  t_claim :: fault
  t_locked :: "string list"
  t_wake :: wake
  t_ctx :: bool
  t_woken :: bool
  t_handle :: handle_env
  t_later :: timestamptz
  t_answer :: fault
  t_pick :: nat

definition pg_dispatch ::
  "unicode \<Rightarrow> pg \<Rightarrow> Processor \<Rightarrow> Config \<Rightarrow> turn_env \<Rightarrow> Job \<Rightarrow> db \<Rightarrow> db option" where
  "pg_dispatch U P p c env =
     dispatch (Ack (t_answer env)) (Retry P c (t_answer env) (t_later env) (t_pick env))
       (Queue_Fail (t_answer env)) (Handle U P p (t_handle env))"

definition pg_turn ::
  "unicode \<Rightarrow> pg \<Rightarrow> Processor \<Rightarrow> turn_env \<Rightarrow> Postgres \<times> db \<Rightarrow> (loop \<times> Postgres \<times> db) option" where
  "pg_turn U P p env s =
     worker_turn
       (\<lambda>(q, d). case Queue_Claim P (t_claim env) (t_now env) (t_locked env) (t_wake env) q d of
          (r, q', d') \<Rightarrow> (r, (q', d')))
       (\<lambda>job (q, d). map_option (Pair q) (pg_dispatch U P p (cfg q) env job d))
       (t_ctx env) (t_woken env) s"

definition clean_env :: "timestamptz \<Rightarrow> turn_env" where
  "clean_env now = \<lparr>t_now = now, t_claim = NoFault, t_locked = [], t_wake = PollTimeout, t_ctx = False,
     t_woken = False, t_handle = no_faults now, t_later = now, t_answer = NoFault, t_pick = 0\<rparr>"

text \<open>Turns one after the other, until the loop returns.\<close>

fun worker :: "unicode \<Rightarrow> pg \<Rightarrow> Processor \<Rightarrow> turn_env list \<Rightarrow> Postgres \<times> db \<Rightarrow> (loop \<times> Postgres \<times> db) option" where
  "worker U P p [] s = Some (Continue, s)"
| "worker U P p (env # envs) s =
     (case pg_turn U P p env s of
        None \<Rightarrow> None
      | Some (Return, s') \<Rightarrow> Some (Return, s')
      | Some (Continue, s') \<Rightarrow> worker U P p envs s')"

definition counters_ok :: "db \<Rightarrow> bool" where
  "counters_ok d \<longleftrightarrow> (\<forall>r \<in> set (raw_events d). 0 \<le> rr_attempts r \<and> rr_attempts r \<le> 2147483647)"

lemma Queue_Claim_job:
  assumes "Queue_Claim P f now locked w q d = (Inr (Some job), q', d')" and "counters_ok d"
  shows "1 \<le> j_Attempts job \<and> j_Attempts job < 2 ^ 63 \<and> q' = q"
proof -
  obtain raw where c: "Store_Claim P f now (sint (Lease (cfg q))) locked d = (Inr (Some raw), d')"
    and j: "j_Attempts job = re_Attempts raw" "q' = q"
    using assms(1) by (auto simp: Queue_Claim_def split: prod.splits sum.splits option.splits wake.splits)
  from c show ?thesis
  proof (rule Store_Claim_ok)
    fix r
    assume "first_by rr_received_at
        (filter (\<lambda>r. claimable now r \<and> rr_id r \<notin> set locked) (raw_events d)) = Some r"
      and "rr_attempts r < 2147483647"
      and "raw = \<lparr>re_ID = rr_id r, re_Payload = rr_raw_payload r, re_Attempts = rr_attempts r + 1\<rparr>"
    moreover from this(1) have "r \<in> set (raw_events d)" by (auto dest: first_by_SomeD)
    ultimately show ?thesis using assms(2) j by (auto simp: counters_ok_def)
  qed
qed

lemma pg_dispatch_total:
  assumes "1 \<le> j_Attempts job" and "j_Attempts job < 2 ^ 63"
  obtains d' where "pg_dispatch U P p (cfg (NewPostgres c)) env job d = Some d'"
  unfolding pg_dispatch_def
  by (rule pgc.dispatch_total [OF assms])

subsection \<open>Properties of the consumer\<close>

text \<open>
  C31: the routing of outcomes. When the broker takes the answer, a job that was handled is done
  after a success, dead-lettered after a permanent error or a retryable one at the cap, and
  otherwise keeps its fate; no other job's fate changes.
\<close>

theorem dispatch_fates:
  assumes "t_answer env = NoFault" and "Handle U P p (t_handle env) job d = (out, d1)"
    and "pg_dispatch U P p (cfg (NewPostgres c)) env job d = Some d'"
  shows "job_fate d' = (\<lambda>i. if i = j_ID job
    then map_option (routed (MaxAttempts (cfg (NewPostgres c))) out (j_Attempts job)) (job_fate d i)
    else job_fate d i)"
proof
  fix i
  note disp = assms(3) [unfolded pg_dispatch_def assms(1)]
  show "job_fate d' i = (if i = j_ID job
      then map_option (routed (MaxAttempts (cfg (NewPostgres c))) out (j_Attempts job)) (job_fate d i)
      else job_fate d i)"
  proof (cases "i = j_ID job")
    case True
    have "job_fate d' (j_ID job) =
        map_option (routed (MaxAttempts (cfg (NewPostgres c))) out (j_Attempts job)) (job_fate d (j_ID job))"
      by (rule pgc.dispatch_routes [OF disp assms(2)])
        (auto simp: Ack_def MarkProcessed_def Queue_Fail_def Store_Fail_def update_raw_def
          RetryOrFail_def elim!: Retry_Some split: if_splits)
    with True show ?thesis by simp
  next
    case False
    with pgc.dispatch_others [OF disp] show ?thesis by simp
  qed
qed

theorem dispatch_fates_witness:
  "\<exists>d'. pg_dispatch demo_unicode demo_pg demo_processor (cfg (NewPostgres default_config)) (clean_env 20) demo_job
      (demo_log StatusProcessing) = Some d' \<and> job_fate d' ''id1'' = Some Done"
proof -
  obtain d' where d': "pg_dispatch demo_unicode demo_pg demo_processor (cfg (NewPostgres default_config)) (clean_env 20)
      demo_job (demo_log StatusProcessing) = Some d'"
    by (rule pg_dispatch_total [of demo_job]) (simp_all add: demo_job_def)
  obtain d1 where h: "Handle demo_unicode demo_pg demo_processor (t_handle (clean_env 20)) demo_job
      (demo_log StatusProcessing) = (Inr (), d1)"
    using demo_handle by (simp add: clean_env_def prod_eq_iff)
  have "job_fate (demo_log StatusProcessing) ''id1'' = Some Open"
    by (simp add: job_fate_def demo_log_def demo_raw_def new_raw_def)
  moreover have "t_answer (clean_env 20) = NoFault" "j_ID demo_job = ''id1''"
    by (simp_all add: clean_env_def demo_job_def)
  ultimately have "job_fate d' ''id1'' = Some Done"
    using dispatch_fates [OF _ h d'] by (simp add: routed_def)
  with d' show ?thesis by blast
qed

text \<open>
  A worker never panics. On a queue built by the constructor, with attempt counters that the
  column can hold, a turn of the loop, whatever faults, wake-ups and answers it meets, ends
  by returning or by continuing.
\<close>

theorem worker_no_panic:
  assumes "counters_ok d"
  shows "pg_turn U P p env (NewPostgres c, d) \<noteq> None"
proof -
  obtain r q' d' where cl: "Queue_Claim P (t_claim env) (t_now env) (t_locked env) (t_wake env) (NewPostgres c) d
      = (r, q', d')" by (metis prod_cases3)
  show ?thesis
  proof (cases "\<exists>job. r = Inr (Some job)")
    case True
    then obtain job where job: "r = Inr (Some job)" ..
    with Queue_Claim_job [OF _ assms] cl have "1 \<le> j_Attempts job" "j_Attempts job < 2 ^ 63" "q' = NewPostgres c"
      by blast+
    then obtain d'' where "pg_dispatch U P p (cfg q') env job d' = Some d''"
      by (metis pg_dispatch_total)
    with cl job show ?thesis by (simp add: pg_turn_def worker_turn_def)
  next
    case False
    with cl show ?thesis by (auto simp: pg_turn_def worker_turn_def split: sum.splits option.splits)
  qed
qed

theorem worker_no_panic_witness:
  "pg_turn demo_unicode demo_pg demo_processor (clean_env 50) (NewPostgres default_config, demo_other) \<noteq> None"
  by (rule worker_no_panic) (simp add: counters_ok_def demo_other_def demo_raw_def new_raw_def)

end
