(* ===== verification/Delivery.thy ===== *)
theory Delivery
  imports Worker
begin

text \<open>
  Progress of the consumer: what a turn without faults does to the database. It rewrites
  exactly the row it claimed, stores the fact of this row unless it has one, and applies it
  (\<open>clean_turn_full\<close>); from this, a row whose model keeps failing transiently is dead-lettered by the
  delivery that reaches the cap, not earlier.
\<close>

text \<open>A model client that never asks for another try.\<close>

definition decisive :: "Processor \<Rightarrow> bool" where
  "decisive p \<longleftrightarrow> (\<forall>payload err. p_llm p payload = Inl err \<longrightarrow> \<not> Retryable err)"

subsection \<open>One turn\<close>

definition row_job :: "raw_row \<Rightarrow> Job" where
  "row_job r = \<lparr>j_ID = rr_id r, j_Payload = rr_raw_payload r, j_Attempts = rr_attempts r + 1\<rparr>"

lemma clean_claim:
  assumes "first_by rr_received_at (filter (claimable now) (raw_events d)) = Some r"
    and "rr_attempts r < 2147483647"
  shows "Queue_Claim P NoFault now [] w q d = (Inr (Some (row_job r)), q,
    d\<lparr>raw_events := update_where (\<lambda>x. rr_id x = rr_id r) (claimed P now (sint (Lease (cfg q)))) (raw_events d)\<rparr>)"
  using assms by (simp add: Queue_Claim_def Store_Claim_def claim_stmt_def row_job_def)

text \<open>The raw log after the answer to a handled job.\<close>

definition answer_row :: "pg \<Rightarrow> Config \<Rightarrow> timestamptz \<Rightarrow> int \<Rightarrow> go_error + unit \<Rightarrow> int \<Rightarrow> raw_row \<Rightarrow> raw_row" where
  "answer_row P c now b out attempts r =
     (case out of
        Inr _ \<Rightarrow> r\<lparr>rr_status := StatusProcessed, rr_error := None, rr_lease_until := None\<rparr>
      | Inl err \<Rightarrow>
          if IsPermanent err \<or> MaxAttempts c \<le> attempts then dead_letter (Error err) r
          else r\<lparr>rr_error := Some (Error err), rr_lease_until := Some (now + make_interval P b)\<rparr>)"

lemma clean_dispatch:
  assumes "1 \<le> j_Attempts job" and "j_Attempts job < 2 ^ 63" and "config_ok c"
    and "Handle U P p (no_faults now) job d = (out, d1)"
  obtains b where "backoff c 0 (word_of_int (j_Attempts job)) = Some b"
    "pg_dispatch U P p c (clean_env now) job d =
      Some (d1\<lparr>raw_events := update_where (\<lambda>x. rr_id x = j_ID job)
        (answer_row P c now (sint b) out (j_Attempts job)) (raw_events d)\<rparr>)"
proof -
  obtain l where l: "backoff_limit c (word_of_int (j_Attempts job)) = Some l" "0 < sint l"
    by (rule backoff_limit_range [OF assms(3,1,2)])
  obtain b where b: "backoff c 0 (word_of_int (j_Attempts job)) = Some b"
    by (rule backoff_jitter [OF l])
  have raw: "raw_events d1 = raw_events d" using Handle_raw [of U P p "no_faults now" job d] assms(4) by simp
  have "pg_dispatch U P p c (clean_env now) job d =
      Some (d1\<lparr>raw_events := update_where (\<lambda>x. rr_id x = j_ID job)
        (answer_row P c now (sint b) out (j_Attempts job)) (raw_events d)\<rparr>)"
    using assms(4) b raw
    by (cases out) (auto simp: pg_dispatch_def dispatch_def clean_env_def Ack_def MarkProcessed_def Queue_Fail_def
        Store_Fail_def Retry_def RetryOrFail_def update_raw_def answer_row_def [abs_def])
  with b that show thesis by blast
qed

lemma answer_row_core [simp]: "raw_core (answer_row P c now b out n r) = raw_core r"
  "rr_id (answer_row P c now b out n r) = rr_id r"
  "rr_attempts (answer_row P c now b out n r) = rr_attempts r"
  by (simp_all add: answer_row_def raw_core_def dead_letter_def split: sum.splits)

lemma claimed_core [simp]: "raw_core (claimed P now lease r) = raw_core r" "rr_id (claimed P now lease r) = rr_id r"
  by (simp_all add: claimed_def raw_core_def)

text \<open>What a run without faults answers depends only on the model and the gate.\<close>

definition clean_out :: "unicode \<Rightarrow> Processor \<Rightarrow> Job \<Rightarrow> go_error + unit" where
  "clean_out U p job = (case verdict U p job of Inl err \<Rightarrow> Inl err | Inr _ \<Rightarrow> Inr ())"

lemma Handle_clean_out:
  "j_ID job \<in> rr_id ` set (raw_events d) \<Longrightarrow> fst (Handle U P p (no_faults now) job d) = clean_out U p job"
  by (cases "verdict U p job") (auto simp: clean_out_def Handle_rejected Handle_clean split: prod.splits)

text \<open>The fact a row gives rise to, unless it has one, and what it does to the view of the entities.\<close>

definition new_facts :: "unicode \<Rightarrow> pg \<Rightarrow> Processor \<Rightarrow> db \<Rightarrow> timestamptz \<Rightarrow> raw_row \<Rightarrow> norm_row list" where
  "new_facts U P p d now r =
     (case verdict U p (row_job r) of
        Inl _ \<Rightarrow> []
      | Inr (res, n) \<Rightarrow>
          if rr_id r \<in> nr_raw_event_id ` set (normalized_events d) then []
          else [new_norm P now (rr_id r) n (res_Model res) (res_PromptVer res)])"

definition settle_view :: "unicode \<Rightarrow> Processor \<Rightarrow> raw_row \<Rightarrow> view \<Rightarrow> view" where
  "settle_view U p r v = (case verdict U p (row_job r) of Inl _ \<Rightarrow> v | Inr (res, n) \<Rightarrow> step_fact n v)"

lemma new_facts_raw [simp]: "new_facts U P p (d\<lparr>raw_events := rs\<rparr>) = new_facts U P p d"
  by (auto simp: new_facts_def fun_eq_iff split: sum.split)

lemma Handle_settles:
  assumes "rr_id r \<in> rr_id ` set (raw_events d)" and "db_ok d"
  shows "normalized_events (snd (Handle U P p (no_faults now) (row_job r) d)) = normalized_events d @ new_facts U P p d now r"
    and "entity_view (snd (Handle U P p (no_faults now) (row_job r) d)) = settle_view U p r (entity_view d)"
proof -
  have j: "j_ID (row_job r) = rr_id r" by (simp add: row_job_def)
  show "normalized_events (snd (Handle U P p (no_faults now) (row_job r) d)) = normalized_events d @ new_facts U P p d now r"
    "entity_view (snd (Handle U P p (no_faults now) (row_job r) d)) = settle_view U p r (entity_view d)"
    using assms Handle_clean_facts [of U p "row_job r" _ _ d P now] Handle_clean_view [of U p "row_job r" _ _ d P now]
    by (auto simp: j new_facts_def settle_view_def Handle_rejected select_by_None split: sum.splits)
qed

lemma clean_turn_full:
  assumes ok: "db_ok d" and first: "first_by rr_received_at (filter (claimable now) (raw_events d)) = Some r"
    and cnt: "0 \<le> rr_attempts r" "rr_attempts r < 2147483647" and cfg: "config_ok (cfg q)"
  obtains d' b where "pg_turn U P p (clean_env now) (q, d) = Some (Continue, q, d')" "db_ok d'"
    "backoff (cfg q) 0 (word_of_int (rr_attempts r + 1)) = Some b"
    "raw_events d' = update_where (\<lambda>x. rr_id x = rr_id r)
       (answer_row P (cfg q) now (sint b) (clean_out U p (row_job r)) (rr_attempts r + 1)
         \<circ> claimed P now (sint (Lease (cfg q)))) (raw_events d)"
    "normalized_events d' = normalized_events d @ new_facts U P p d now r"
    "entity_view d' = settle_view U p r (entity_view d)"
proof -
  let ?claim = "claimed P now (sint (Lease (cfg q)))"
  define d0 where "d0 = d\<lparr>raw_events := update_where (\<lambda>x. rr_id x = rr_id r) ?claim (raw_events d)\<rparr>"
  have ok0: "db_ok d0" unfolding d0_def by (rule db_ok_raw_update [OF _ ok]) simp
  obtain out d1 where h: "Handle U P p (no_faults now) (row_job r) d0 = (out, d1)" by fastforce
  have mem: "rr_id r \<in> rr_id ` set (raw_events d0)"
    using first by (auto simp: d0_def image_update_where dest: first_by_SomeD)
  then have out: "out = clean_out U p (row_job r)"
    using Handle_clean_out [of "row_job r" d0 U P p now] h by (simp add: row_job_def)
  have att: "1 \<le> j_Attempts (row_job r)" "j_Attempts (row_job r) < 2 ^ 63"
    using cnt by (simp_all add: row_job_def)
  obtain b where b: "backoff (cfg q) 0 (word_of_int (j_Attempts (row_job r))) = Some b"
    and disp: "pg_dispatch U P p (cfg q) (clean_env now) (row_job r) d0 =
      Some (d1\<lparr>raw_events := update_where (\<lambda>x. rr_id x = j_ID (row_job r))
        (answer_row P (cfg q) now (sint b) out (j_Attempts (row_job r))) (raw_events d0)\<rparr>)" (is "_ = Some ?d2")
    by (rule clean_dispatch [OF att cfg h])
  have ok1: "db_ok d1" using hand.keeps_ok [OF ok0, of U P p "no_faults now" "row_job r"] h by simp
  have raw1: "raw_events d1 = raw_events d0" using Handle_raw [of U P p "no_faults now" "row_job r" d0] h by simp
  have ok2: "db_ok ?d2" using db_ok_raw_update [OF _ ok1] raw1 by simp
  have turn: "pg_turn U P p (clean_env now) (q, d) = Some (Continue, q, ?d2)"
    using clean_claim [OF first cnt(2), of P] disp
    by (simp add: pg_turn_def worker_turn_def clean_env_def d0_def)
  have "normalized_events ?d2 = normalized_events d @ new_facts U P p d now r" "entity_view ?d2 = settle_view U p r (entity_view d)"
    using Handle_settles [OF mem ok0, of U P p now] h by (simp_all add: d0_def entity_view_def)
  with turn ok2 show thesis
    by (intro that) (use b out in \<open>simp_all add: row_job_def d0_def update_where_fuse\<close>)
qed

lemma clean_turn:
  assumes "db_ok d" and "first_by rr_received_at (filter (claimable now) (raw_events d)) = Some r"
    and "0 \<le> rr_attempts r" and "rr_attempts r < 2147483647" and "config_ok (cfg q)"
  obtains d' b where "pg_turn U P p (clean_env now) (q, d) = Some (Continue, q, d')" "db_ok d'"
    "backoff (cfg q) 0 (word_of_int (rr_attempts r + 1)) = Some b"
    "raw_events d' = update_where (\<lambda>x. rr_id x = rr_id r)
       (answer_row P (cfg q) now (sint b) (clean_out U p (row_job r)) (rr_attempts r + 1)
         \<circ> claimed P now (sint (Lease (cfg q)))) (raw_events d)"
  by (rule clean_turn_full [OF assms]) (rule that)

subsection \<open>Transient failures\<close>

lemma backoff_upper:
  assumes "config_ok c" and "1 \<le> a" and "a < 2 ^ 63" and "backoff c pick (word_of_int a) = Some b"
  shows "0 \<le> sint b \<and> sint b \<le> sint (MaxBackoff c)"
proof -
  obtain d where d: "backoff_limit c (word_of_int a) = Some d" "0 < sint d" "sint d \<le> sint (MaxBackoff c)"
    by (rule backoff_limit_range [OF assms(1-3)])
  obtain b' where b': "backoff c pick (word_of_int a) = Some b'"
    "sint b' = sint d div 2 + int pick mod (sint d div 2 + 1)"
    by (rule backoff_jitter [OF d(1,2)])
  have "0 \<le> int pick mod (sint d div 2 + 1)" "int pick mod (sint d div 2 + 1) < sint d div 2 + 1"
    using d(2) by (intro pos_mod_sign pos_mod_bound; simp)+
  with b' d assms(4) show ?thesis by simp
qed

text \<open>The model fails for the payload with an error that is to be retried.\<close>

definition fails_transiently :: "Processor \<Rightarrow> bytes \<Rightarrow> go_error \<Rightarrow> bool" where
  "fails_transiently p payload err \<longleftrightarrow> p_llm p payload = Inl err \<and> Retryable err \<and> \<not> IsPermanent err"

lemma failing_turn:
  assumes ok: "db_ok d" and raw: "raw_events d = [r]" and now: "claimable now r"
    and cnt: "0 \<le> rr_attempts r" "rr_attempts r < 2147483647" and cfg: "config_ok (cfg q)"
    and err: "fails_transiently p (rr_raw_payload r) err"
  obtains d' r' where "pg_turn U P p (clean_env now) (q, d) = Some (Continue, q, d')" "db_ok d'" "raw_events d' = [r']"
    "raw_core r' = raw_core r" "rr_attempts r' = rr_attempts r + 1" "rr_error r' = Some (''llm: '' @ Error err)"
    "if MaxAttempts (cfg q) \<le> rr_attempts r + 1 then rr_status r' = StatusFailed
     else rr_status r' = StatusProcessing \<and> (\<exists>b. 0 \<le> b \<and> b \<le> sint (MaxBackoff (cfg q))
       \<and> rr_lease_until r' = Some (now + make_interval P b))"
proof -
  have first: "first_by rr_received_at (filter (claimable now) (raw_events d)) = Some r"
    using raw now by simp
  obtain d' b where t: "pg_turn U P p (clean_env now) (q, d) = Some (Continue, q, d')" "db_ok d'"
    and b: "backoff (cfg q) 0 (word_of_int (rr_attempts r + 1)) = Some b"
    and rows: "raw_events d' = update_where (\<lambda>x. rr_id x = rr_id r)
       (answer_row P (cfg q) now (sint b) (clean_out U p (row_job r)) (rr_attempts r + 1)
         \<circ> claimed P now (sint (Lease (cfg q)))) (raw_events d)"
    by (rule clean_turn [where U = U and P = P and p = p, OF ok first cnt cfg])
  define r' where "r' = answer_row P (cfg q) now (sint b) (clean_out U p (row_job r)) (rr_attempts r + 1)
      (claimed P now (sint (Lease (cfg q))) r)"
  have out: "clean_out U p (row_job r) = Inl (Wrap ''llm: '' err)"
    using err by (simp add: clean_out_def verdict_def row_job_def fails_transiently_def)
  have np: "\<not> IsPermanent err" using err by (simp add: fails_transiently_def)
  have "0 \<le> sint b \<and> sint b \<le> sint (MaxBackoff (cfg q))"
    by (rule backoff_upper [OF cfg _ _ b]) (use cnt in simp_all)
  then have st: "if MaxAttempts (cfg q) \<le> rr_attempts r + 1 then rr_status r' = StatusFailed
     else rr_status r' = StatusProcessing \<and> (\<exists>b. 0 \<le> b \<and> b \<le> sint (MaxBackoff (cfg q))
       \<and> rr_lease_until r' = Some (now + make_interval P b))"
    using np by (auto simp: r'_def out answer_row_def dead_letter_def claimed_def)
  show thesis
  proof (rule that [OF t])
    show "raw_events d' = [r']" using rows raw by (simp add: r'_def)
    show "rr_error r' = Some (''llm: '' @ Error err)"
      using np by (simp add: r'_def out answer_row_def dead_letter_def)
    show "rr_attempts r' = rr_attempts r + 1" by (simp add: r'_def claimed_def)
    show "raw_core r' = raw_core r" by (simp add: r'_def)
  qed (rule st)
qed

lemma failing_turns:
  assumes "db_ok d" and "raw_events d = [r]" and "\<forall>t \<in> set nows. claimable t r" and "rr_status r \<noteq> StatusFailed"
    and "0 \<le> rr_attempts r" and "rr_attempts r + int (length nows) \<le> MaxAttempts (cfg q)"
    and "rr_attempts r < MaxAttempts (cfg q)"
    and "MaxAttempts (cfg q) \<le> 2147483647" and "config_ok (cfg q)" and "fails_transiently p (rr_raw_payload r) err"
    and "\<forall>b. 0 \<le> b \<and> b \<le> sint (MaxBackoff (cfg q)) \<longrightarrow> make_interval P b \<le> M"
    and "sorted_wrt (\<lambda>a b. a + M < b) nows"
  shows "\<exists>d' r'. worker U P p (map clean_env nows) (q, d) = Some (Continue, q, d') \<and> raw_events d' = [r']
    \<and> raw_core r' = raw_core r \<and> rr_attempts r' = rr_attempts r + int (length nows)
    \<and> (rr_status r' = StatusFailed \<longleftrightarrow> rr_attempts r' = MaxAttempts (cfg q))"
  using assms
proof (induction nows arbitrary: d r)
  case Nil
  then show ?case by auto
next
  case (Cons now nows)
  have cnt: "rr_attempts r < 2147483647" using Cons.prems(6,8) by simp
  have now: "claimable now r" using Cons.prems(3) by simp
  obtain d1 r1 where t: "pg_turn U P p (clean_env now) (q, d) = Some (Continue, q, d1)" "db_ok d1" "raw_events d1 = [r1]"
    and r1: "raw_core r1 = raw_core r" "rr_attempts r1 = rr_attempts r + 1" "rr_error r1 = Some (''llm: '' @ Error err)"
    and st: "if MaxAttempts (cfg q) \<le> rr_attempts r + 1 then rr_status r1 = StatusFailed
     else rr_status r1 = StatusProcessing \<and> (\<exists>b. 0 \<le> b \<and> b \<le> sint (MaxBackoff (cfg q))
       \<and> rr_lease_until r1 = Some (now + make_interval P b))"
    by (rule failing_turn [where U = U and P = P, OF Cons.prems(1,2) now Cons.prems(5) cnt Cons.prems(9,10)])
  show ?case
  proof (cases "MaxAttempts (cfg q) \<le> rr_attempts r + 1")
    case True
    with Cons.prems(6) have "int (length nows) \<le> 0" unfolding list.size by linarith
    then have "nows = []" by simp
    with t r1 st True Cons.prems(6) show ?thesis by auto
  next
    case False
    with st obtain b where b: "rr_status r1 = StatusProcessing" "0 \<le> b" "b \<le> sint (MaxBackoff (cfg q))"
      "rr_lease_until r1 = Some (now + make_interval P b)" by auto
    then have "make_interval P b \<le> M" using Cons.prems(11) by blast
    then have claim: "\<forall>t \<in> set nows. claimable t r1"
      using Cons.prems(12) b by (force simp: claimable_def)
    have "rr_raw_payload r1 = rr_raw_payload r" using r1(1) by (simp add: raw_core_def)
    then obtain d' r' where "worker U P p (map clean_env nows) (q, d1) = Some (Continue, q, d')" "raw_events d' = [r']"
      "raw_core r' = raw_core r1" "rr_attempts r' = rr_attempts r1 + int (length nows)"
      "rr_status r' = StatusFailed \<longleftrightarrow> rr_attempts r' = MaxAttempts (cfg q)"
      using Cons.IH [OF t(2,3) claim] Cons.prems False b(1) r1(2) by auto
    with t(1) r1 show ?thesis by auto
  qed
qed

subsection \<open>Properties of delivery\<close>



end
