(* ===== verification/Go_Hash.thy ===== *)
theory Go_Hash
  imports Go_Strings "HOL-Library.Word"
begin

unbundle bit_operations_syntax

text \<open>
  \<open>sha256.Sum256\<close> and \<open>hex.EncodeToString\<close> of the standard library, on 32-bit words: the padding to
  blocks of 64 bytes, the message schedule, the 64 rounds and the digest of 32 bytes in big-endian
  order. The hexadecimal text of a digest determines it, which is all the store relies on.
\<close>

type_synonym w32 = "32 word"

text \<open>
  The constants are the first 32 bits of the fractional parts of the cube roots of the first 64
  primes, and of the square roots of the first eight: the digits of an integer root below the
  binary point at 32 places.
\<close>

definition sha_primes :: "nat list" where
  "sha_primes =
    [2, 3, 5, 7, 11, 13, 17, 19, 23, 29, 31, 37, 41, 43, 47, 53,
     59, 61, 67, 71, 73, 79, 83, 89, 97, 101, 103, 107, 109, 113, 127, 131,
     137, 139, 149, 151, 157, 163, 167, 173, 179, 181, 191, 193, 197, 199, 211, 223,
     227, 229, 233, 239, 241, 251, 257, 263, 269, 271, 277, 281, 283, 293, 307, 311]"

definition int_root :: "nat \<Rightarrow> nat \<Rightarrow> nat" where
  "int_root k n = fold (\<lambda>i r. if (r + 2 ^ i) ^ k \<le> n then r + 2 ^ i else r) (rev [0..<40]) 0"

definition sha_K :: "w32 list" where
  "sha_K = map (\<lambda>p. word_of_nat (int_root 3 (p * 2 ^ 96) mod 2 ^ 32)) sha_primes"

definition sha_H :: "w32 list" where
  "sha_H = map (\<lambda>p. word_of_nat (int_root 2 (p * 2 ^ 64) mod 2 ^ 32)) (take 8 sha_primes)"

definition rotr :: "nat \<Rightarrow> w32 \<Rightarrow> w32" where
  "rotr n x = drop_bit n x OR push_bit (32 - n) x"

definition be_word :: "string \<Rightarrow> w32" where
  "be_word s = fold (\<lambda>c w. push_bit 8 w OR word_of_nat (byte c)) s 0"

definition be_bytes :: "nat \<Rightarrow> nat \<Rightarrow> string" where
  "be_bytes n x = map (\<lambda>i. char_of (x div 256 ^ (n - 1 - i) mod 256)) [0..<n]"

definition sha_pad :: "string \<Rightarrow> string" where
  "sha_pad m =
     (let n = length m; z = (if n mod 64 < 56 then 55 - n mod 64 else 119 - n mod 64)
      in m @ [CHR 0x80] @ replicate z (CHR 0x00) @ be_bytes 8 (8 * n mod 2 ^ 64))"

fun groups :: "nat \<Rightarrow> nat \<Rightarrow> 'a list \<Rightarrow> 'a list list" where
  "groups 0 n xs = []"
| "groups (Suc k) n xs = take n xs # groups k n (drop n xs)"

definition sha_schedule :: "string \<Rightarrow> w32 list" where
  "sha_schedule block =
     fold (\<lambda>i w.
        let v1 = w ! (i - 2); t1 = rotr 17 v1 XOR rotr 19 v1 XOR drop_bit 10 v1;
            v2 = w ! (i - 15); t2 = rotr 7 v2 XOR rotr 18 v2 XOR drop_bit 3 v2
        in w @ [t1 + w ! (i - 7) + t2 + w ! (i - 16)])
      [16..<64] (map be_word (groups 16 4 block))"

fun sha_round :: "w32 \<times> w32 \<Rightarrow> w32 list \<Rightarrow> w32 list" where
  "sha_round (k, w) [a, b, c, d, e, f, g, h] =
     (let t1 = h + (rotr 6 e XOR rotr 11 e XOR rotr 25 e) + ((e AND f) XOR (NOT e AND g)) + k + w;
          t2 = (rotr 2 a XOR rotr 13 a XOR rotr 22 a) + ((a AND b) XOR (a AND c) XOR (b AND c))
      in [t1 + t2, a, b, c, d + t1, e, f, g])"
| "sha_round kw hs = hs"

definition sha_block :: "string \<Rightarrow> w32 list \<Rightarrow> w32 list" where
  "sha_block block hs = map2 (+) hs (fold sha_round (zip sha_K (sha_schedule block)) hs)"

definition Sum256 :: "string \<Rightarrow> string" where
  "Sum256 m =
     (let p = sha_pad m
      in concat (map (\<lambda>w. be_bytes 4 (unat w)) (fold sha_block (groups (length p div 64) 64 p) sha_H)))"

definition hextable :: string where
  "hextable = ''0123456789abcdef''"

definition EncodeToString :: "string \<Rightarrow> string" where
  "EncodeToString s = concat (map (\<lambda>c. [hextable ! (byte c div 16), hextable ! (byte c mod 16)]) s)"

subsection \<open>Length and uniqueness of the text\<close>

lemma length_be_bytes [simp]: "length (be_bytes n x) = n"
  by (simp add: be_bytes_def)

lemma length_sha_round [simp]: "length (sha_round kw hs) = length hs"
  by (cases "(kw, hs)" rule: sha_round.cases) (simp_all add: Let_def)

lemma length_sha_rounds [simp]: "length (fold sha_round kws hs) = length hs"
  by (induction kws arbitrary: hs) simp_all

lemma length_sha_blocks [simp]: "length (fold sha_block bs hs) = length hs"
  by (induction bs arbitrary: hs) (simp_all add: sha_block_def)

lemma length_concat_const: "(\<And>x. x \<in> set xs \<Longrightarrow> length (f x) = n) \<Longrightarrow> length (concat (map f xs)) = n * length xs"
  by (induction xs) simp_all

lemma length_Sum256 [simp]: "length (Sum256 m) = 32"
  unfolding Sum256_def Let_def by (subst length_concat_const [where n = 4]) (simp_all add: sha_H_def sha_primes_def)

lemma length_EncodeToString: "length (EncodeToString s) = 2 * length s"
  unfolding EncodeToString_def by (rule length_concat_const) simp

lemma hextable_inj: "i < 16 \<Longrightarrow> j < 16 \<Longrightarrow> hextable ! i = hextable ! j \<Longrightarrow> i = j"
proof -
  have "distinct hextable" "length hextable = 16" by (simp_all add: hextable_def)
  then show "i < 16 \<Longrightarrow> j < 16 \<Longrightarrow> hextable ! i = hextable ! j \<Longrightarrow> i = j"
    by (simp add: nth_eq_iff_index_eq)
qed

lemma hex_pair_inj:
  assumes "hextable ! (byte c div 16) = hextable ! (byte d div 16)"
    and "hextable ! (byte c mod 16) = hextable ! (byte d mod 16)"
  shows "c = d"
proof -
  have "byte c < 256" "byte d < 256" by (simp_all add: nat_of_char_less_256)
  then have "byte c div 16 < 16" "byte d div 16 < 16" by linarith+
  then have "byte c div 16 = byte d div 16" by (rule hextable_inj [OF _ _ assms(1)])
  moreover have "byte c mod 16 = byte d mod 16" by (rule hextable_inj [OF _ _ assms(2)]) simp_all
  ultimately have "byte c = byte d" by (metis mult_div_mod_eq)
  then show ?thesis by simp
qed

lemma EncodeToString_eq: "EncodeToString s = EncodeToString t \<longleftrightarrow> s = t"
proof (induction s arbitrary: t)
  case Nil
  show ?case by (cases t) (simp_all add: EncodeToString_def)
next
  case (Cons c s)
  have cons: "EncodeToString (x # xs) = hextable ! (byte x div 16) # hextable ! (byte x mod 16) # EncodeToString xs"
    for x xs by (simp add: EncodeToString_def)
  show ?case
  proof (cases t)
    case Nil
    then show ?thesis by (simp add: EncodeToString_def)
  next
    case t: (Cons d t')
    show ?thesis
      unfolding t cons list.inject Cons.IH using hex_pair_inj by blast
  qed
qed

end
