(* ===== verification/Go_Json.thy ===== *)
theory Go_Json
  imports Go_Strings
begin

text \<open>
  \<open>json.Valid\<close> of the standard library: a byte-at-a-time scanner with a stack of the open objects
  and arrays, one state per grammar position, and a limit of 10000 open containers. The top of
  the stack is the head of the list; an error is a state of its own that no byte leaves.
\<close>

datatype pstate = parseObjectKey | parseObjectValue | parseArrayValue

datatype sstate =
    BeginValue | BeginValueOrEmpty | BeginStringOrEmpty | BeginString | EndValue | EndTop
  | InString | InStringEsc | InStringEscU nat | Neg | Digits | Zero | Dot | Dot0 | Exp | ExpSign | Exp0
  | Literal string | ScanError

record scanner =
  sc_step :: sstate
  sc_stack :: "pstate list"
  sc_endTop :: bool

definition json_space :: "char \<Rightarrow> bool" where
  "json_space c \<longleftrightarrow> byte c = 0x20 \<or> byte c = 0x09 \<or> byte c = 0x0D \<or> byte c = 0x0A"

definition digit :: "char \<Rightarrow> bool" where
  "digit c \<longleftrightarrow> 0x30 \<le> byte c \<and> byte c \<le> 0x39"

definition hex_digit :: "char \<Rightarrow> bool" where
  "hex_digit c \<longleftrightarrow> digit c \<or> 0x61 \<le> byte c \<and> byte c \<le> 0x66 \<or> 0x41 \<le> byte c \<and> byte c \<le> 0x46"

definition reset :: scanner where
  "reset = \<lparr>sc_step = BeginValue, sc_stack = [], sc_endTop = False\<rparr>"

definition to_error :: "scanner \<Rightarrow> scanner" where
  "to_error s = s\<lparr>sc_step := ScanError\<rparr>"

definition pushParseState :: "pstate \<Rightarrow> sstate \<Rightarrow> scanner \<Rightarrow> scanner" where
  "pushParseState p st s =
     (let s' = s\<lparr>sc_step := st, sc_stack := p # sc_stack s\<rparr> in
      if length (sc_stack s') \<le> 10000 then s' else to_error s')"

definition popParseState :: "scanner \<Rightarrow> scanner" where
  "popParseState s =
     (let ps = tl (sc_stack s) in
      if ps = [] then s\<lparr>sc_stack := [], sc_step := EndTop, sc_endTop := True\<rparr>
      else s\<lparr>sc_stack := ps, sc_step := EndValue\<rparr>)"

definition stateEndTop :: "char \<Rightarrow> scanner \<Rightarrow> scanner" where
  "stateEndTop c s = (if json_space c then s else to_error s)"

definition stateEndValue :: "char \<Rightarrow> scanner \<Rightarrow> scanner" where
  "stateEndValue c s =
     (case sc_stack s of
        [] \<Rightarrow> stateEndTop c (s\<lparr>sc_step := EndTop, sc_endTop := True\<rparr>)
      | p # ps \<Rightarrow>
          if json_space c then s\<lparr>sc_step := EndValue\<rparr>
          else (case p of
             parseObjectKey \<Rightarrow>
               if c = CHR '':'' then s\<lparr>sc_stack := parseObjectValue # ps, sc_step := BeginValue\<rparr> else to_error s
           | parseObjectValue \<Rightarrow>
               if c = CHR '','' then s\<lparr>sc_stack := parseObjectKey # ps, sc_step := BeginString\<rparr>
               else if c = CHR ''}'' then popParseState s else to_error s
           | parseArrayValue \<Rightarrow>
               if c = CHR '','' then s\<lparr>sc_step := BeginValue\<rparr>
               else if c = CHR '']'' then popParseState s else to_error s))"

definition stateBeginString :: "char \<Rightarrow> scanner \<Rightarrow> scanner" where
  "stateBeginString c s =
     (if json_space c then s
      else if byte c = 0x22 then s\<lparr>sc_step := InString\<rparr> else to_error s)"

definition stateBeginValue :: "char \<Rightarrow> scanner \<Rightarrow> scanner" where
  "stateBeginValue c s =
     (if json_space c then s
      else if c = CHR ''{'' then pushParseState parseObjectKey BeginStringOrEmpty s
      else if c = CHR ''['' then pushParseState parseArrayValue BeginValueOrEmpty s
      else if byte c = 0x22 then s\<lparr>sc_step := InString\<rparr>
      else if c = CHR ''-'' then s\<lparr>sc_step := Neg\<rparr>
      else if c = CHR ''0'' then s\<lparr>sc_step := Zero\<rparr>
      else if c = CHR ''t'' then s\<lparr>sc_step := Literal ''rue''\<rparr>
      else if c = CHR ''f'' then s\<lparr>sc_step := Literal ''alse''\<rparr>
      else if c = CHR ''n'' then s\<lparr>sc_step := Literal ''ull''\<rparr>
      else if digit c then s\<lparr>sc_step := Digits\<rparr>
      else to_error s)"

definition state0 :: "char \<Rightarrow> scanner \<Rightarrow> scanner" where
  "state0 c s =
     (if c = CHR ''.'' then s\<lparr>sc_step := Dot\<rparr>
      else if c = CHR ''e'' \<or> c = CHR ''E'' then s\<lparr>sc_step := Exp\<rparr>
      else stateEndValue c s)"

definition stateESign :: "char \<Rightarrow> scanner \<Rightarrow> scanner" where
  "stateESign c s = (if digit c then s\<lparr>sc_step := Exp0\<rparr> else to_error s)"

fun scan_step :: "char \<Rightarrow> scanner \<Rightarrow> sstate \<Rightarrow> scanner" where
  "scan_step c s BeginValue = stateBeginValue c s"
| "scan_step c s BeginValueOrEmpty =
     (if json_space c then s else if c = CHR '']'' then stateEndValue c s else stateBeginValue c s)"
| "scan_step c s BeginStringOrEmpty =
     (if json_space c then s
      else if c = CHR ''}'' then stateEndValue c (s\<lparr>sc_stack := parseObjectValue # tl (sc_stack s)\<rparr>)
      else stateBeginString c s)"
| "scan_step c s BeginString = stateBeginString c s"
| "scan_step c s EndValue = stateEndValue c s"
| "scan_step c s EndTop = stateEndTop c s"
| "scan_step c s InString =
     (if byte c = 0x22 then s\<lparr>sc_step := EndValue\<rparr>
      else if byte c = 0x5C then s\<lparr>sc_step := InStringEsc\<rparr>
      else if byte c < 0x20 then to_error s
      else s)"
| "scan_step c s InStringEsc =
     (if c \<in> set ''bfnrt/'' \<or> byte c = 0x5C \<or> byte c = 0x22 then s\<lparr>sc_step := InString\<rparr>
      else if c = CHR ''u'' then s\<lparr>sc_step := InStringEscU 0\<rparr>
      else to_error s)"
| "scan_step c s (InStringEscU n) =
     (if hex_digit c then s\<lparr>sc_step := (if n = 3 then InString else InStringEscU (n + 1))\<rparr> else to_error s)"
| "scan_step c s Neg =
     (if c = CHR ''0'' then s\<lparr>sc_step := Zero\<rparr>
      else if digit c then s\<lparr>sc_step := Digits\<rparr> else to_error s)"
| "scan_step c s Digits = (if digit c then s else state0 c s)"
| "scan_step c s Zero = state0 c s"
| "scan_step c s Dot = (if digit c then s\<lparr>sc_step := Dot0\<rparr> else to_error s)"
| "scan_step c s Dot0 =
     (if digit c then s
      else if c = CHR ''e'' \<or> c = CHR ''E'' then s\<lparr>sc_step := Exp\<rparr>
      else stateEndValue c s)"
| "scan_step c s Exp = (if c = CHR ''+'' \<or> c = CHR ''-'' then s\<lparr>sc_step := ExpSign\<rparr> else stateESign c s)"
| "scan_step c s ExpSign = stateESign c s"
| "scan_step c s Exp0 = (if digit c then s else stateEndValue c s)"
| "scan_step c s (Literal w) =
     (case w of
        [] \<Rightarrow> to_error s
      | x # xs \<Rightarrow> if c = x then s\<lparr>sc_step := (if xs = [] then EndValue else Literal xs)\<rparr> else to_error s)"
| "scan_step c s ScanError = s"

definition scan_byte :: "char \<Rightarrow> scanner \<Rightarrow> scanner" where
  "scan_byte c s = scan_step c s (sc_step s)"

definition scan_eof :: "scanner \<Rightarrow> bool" where
  "scan_eof s \<longleftrightarrow>
     sc_step s \<noteq> ScanError
     \<and> (sc_endTop s \<or> (let s' = scan_byte (CHR '' '') s in sc_endTop s'))"

definition json_Valid :: "string \<Rightarrow> bool" where
  "json_Valid data = scan_eof (fold scan_byte data reset)"

lemmas json_eval = json_Valid_def scan_eof_def scan_byte_def reset_def to_error_def pushParseState_def popParseState_def
  stateEndTop_def stateEndValue_def stateBeginString_def stateBeginValue_def state0_def stateESign_def
  json_space_def digit_def hex_digit_def

end
