(* ===== verification/Go_Num.thy ===== *)
theory Go_Num
  imports Go_Base Go_Json
begin

unbundle bit_operations_syntax

text \<open>
  Numbers read from text with packages \<open>strconv\<close> and \<open>time\<close>: decimal integers of 64 bits, floats (decimal
  and hexadecimal, correctly rounded to the nearest double, ties to even) and durations with
  their overflow checks. The sign of a zero is not kept.
\<close>

subsection \<open>Integers\<close>

definition digit_val :: "char \<Rightarrow> int" where
  "digit_val c = int (byte c) - 48"

definition dec_val :: "string \<Rightarrow> int" where
  "dec_val s = foldl (\<lambda>n c. n * 10 + digit_val c) 0 s"

text \<open>An optional sign, and the rest.\<close>

fun split_sign :: "string \<Rightarrow> bool \<times> string" where
  "split_sign (c # cs) = (if c = CHR ''-'' then (True, cs) else if c = CHR ''+'' then (False, cs) else (False, c # cs))"
| "split_sign [] = (False, [])"

text \<open>\<open>strconv.Atoi\<close>, \<open>strconv.ParseInt(s, 10, 64)\<close>: a sign, at least one digit, 64 bits.\<close>

definition Atoi :: "string \<Rightarrow> int option" where
  "Atoi s =
     (let (neg, ds) = split_sign s;
          n = (if neg then - dec_val ds else dec_val ds)
      in if ds = [] \<or> \<not> list_all digit ds \<or> n < - (2 ^ 63) \<or> 2 ^ 63 \<le> n then None else Some n)"

text \<open>The decimal text of an integer, as \<open>%d\<close> prints it.\<close>

fun digits :: "nat \<Rightarrow> string" where
  "digits n = (if n < 10 then [chr (48 + n)] else digits (n div 10) @ [chr (48 + n mod 10)])"

declare digits.simps [simp del]

definition Itoa :: "int \<Rightarrow> string" where
  "Itoa n = (if n < 0 then CHR ''-'' # digits (nat (- n)) else digits (nat n))"

subsection \<open>Rounding to a double\<close>

definition two_pow :: "int \<Rightarrow> rat" where
  "two_pow k = (if 0 \<le> k then 2 ^ nat k else 1 / 2 ^ nat (- k))"

text \<open>The nearest integer, a tie to the even one.\<close>

definition round_even :: "rat \<Rightarrow> int" where
  "round_even x =
     (let n = \<lfloor>x\<rfloor>; d = x - of_int n in
      if d < 1 / 2 then n else if d > 1 / 2 then n + 1 else if even n then n else n + 1)"

text \<open>The number of binary digits of a positive integer.\<close>

function bit_len :: "int \<Rightarrow> int" where
  "bit_len n = (if n \<le> 0 then 0 else 1 + bit_len (n div 2))"
  by auto
termination by (relation "measure nat") auto

declare bit_len.simps [simp del]

text \<open>\<open>2 ^ e \<le> x < 2 ^ (e + 1)\<close> for a positive \<open>x\<close>.\<close>

definition binary_exponent :: "rat \<Rightarrow> int" where
  "binary_exponent x =
     (let (a, b) = quotient_of x; k = bit_len a - bit_len b in
      if two_pow k \<le> x then k else k - 1)"

definition round_pos :: "rat \<Rightarrow> rat" where
  "round_pos x =
     (let p = max (binary_exponent x - 52) (- 1074) in of_int (round_even (x / two_pow p)) * two_pow p)"

text \<open>A magnitude that would round to \<open>2 ^ 1024\<close> overflows.\<close>

definition round_double :: "rat \<Rightarrow> float64" where
  "round_double x =
     (if x = 0 then Fin 0
      else let y = round_pos \<bar>x\<bar> in
        if two_pow 1024 \<le> y then (if x < 0 then NegInf else PosInf)
        else Fin (if x < 0 then - y else y))"

subsection \<open>Floats\<close>

definition lower1 :: "char \<Rightarrow> char" where
  "lower1 c = chr (byte c OR 0x20)"

definition ufloat_hex :: "char \<Rightarrow> bool" where
  "ufloat_hex c \<longleftrightarrow> digit c \<or> 0x61 \<le> byte (lower1 c) \<and> byte (lower1 c) \<le> 0x66"

definition hex_val :: "char \<Rightarrow> int" where
  "hex_val c = (if digit c then digit_val c else int (byte (lower1 c)) - 87)"

text \<open>\<open>underscoreOK\<close>: an underscore stands between digits, or between the base prefix and a digit.\<close>

datatype prev = PStart | PDigit | PUnder | POther

fun underscores :: "bool \<Rightarrow> prev \<Rightarrow> string \<Rightarrow> bool" where
  "underscores hex i [] = (i \<noteq> PUnder)"
| "underscores hex i (c # cs) =
     (if digit c \<or> hex \<and> ufloat_hex c then underscores hex PDigit cs
      else if c = CHR ''_'' then i = PDigit \<and> underscores hex PUnder cs
      else i \<noteq> PUnder \<and> underscores hex POther cs)"

definition underscoreOK :: "string \<Rightarrow> bool" where
  "underscoreOK s0 =
     (let s = snd (split_sign s0) in
      case s of
        CHR ''0'' # x # cs \<Rightarrow>
          if lower1 x \<in> {CHR ''b'', CHR ''o'', CHR ''x''} then underscores (lower1 x = CHR ''x'') PDigit cs
          else underscores False PStart s
      | _ \<Rightarrow> underscores False PStart s)"

text \<open>The loop over the digits of the mantissa: the value, the digits after the dot, the rest.\<close>

fun mantissa :: "bool \<Rightarrow> string \<Rightarrow> bool \<Rightarrow> bool \<Rightarrow> int \<Rightarrow> int \<Rightarrow> (bool \<times> int \<times> int) \<times> string" where
  "mantissa hex [] sawdot sawdigits m fd = ((sawdigits, m, fd), [])"
| "mantissa hex (c # cs) sawdot sawdigits m fd =
     (if c = CHR ''_'' then mantissa hex cs sawdot sawdigits m fd
      else if c = CHR ''.'' \<and> \<not> sawdot then mantissa hex cs True sawdigits m fd
      else if digit c \<or> hex \<and> ufloat_hex c then
        mantissa hex cs sawdot True (m * (if hex then 16 else 10) + hex_val c) (if sawdot then fd + 1 else fd)
      else ((sawdigits, m, fd), c # cs))"

text \<open>The digits of the exponent; from 10000 on further digits are skipped.\<close>

definition exp_digits :: "string \<Rightarrow> int" where
  "exp_digits s = foldl (\<lambda>e c. if c = CHR ''_'' then e else if e < 10000 then e * 10 + digit_val c else e) 0 s"

text \<open>An exponent that covers the whole rest, or none where the base allows that.\<close>

definition exponent :: "bool \<Rightarrow> string \<Rightarrow> int option" where
  "exponent hex s =
     (case s of
        [] \<Rightarrow> if hex then None else Some 0
      | c # cs \<Rightarrow>
          if lower1 c \<noteq> (if hex then CHR ''p'' else CHR ''e'') then None
          else (case split_sign cs of
             (neg, d # ds) \<Rightarrow>
               if digit d \<and> list_all (\<lambda>x. digit x \<or> x = CHR ''_'') ds
               then Some (if neg then - exp_digits (d # ds) else exp_digits (d # ds)) else None
           | _ \<Rightarrow> None))"

definition pow_int :: "int \<Rightarrow> int \<Rightarrow> rat" where
  "pow_int b k = (if 0 \<le> k then of_int b ^ nat k else 1 / of_int b ^ nat (- k))"

text \<open>\<open>readFloat\<close> on a whole string: the number it denotes.\<close>

definition read_float :: "string \<Rightarrow> rat option" where
  "read_float s =
     (let (neg, s1) = split_sign s;
          hex = (length s1 > 2 \<and> s1 ! 0 = CHR ''0'' \<and> lower1 (s1 ! 1) = CHR ''x'');
          ((sawdigits, m, fd), s2) = mantissa hex (if hex then drop 2 s1 else s1) False False 0 0
      in if \<not> sawdigits then None
         else (case exponent hex s2 of
            None \<Rightarrow> None
          | Some e \<Rightarrow>
              if CHR ''_'' \<in> set s \<and> \<not> underscoreOK s then None
              else
                (let v = of_int m * (if hex then pow_int 2 (e - 4 * fd) else pow_int 10 (e - fd))
                 in Some (if neg then - v else v))))"

text \<open>The spellings of the infinities and of "not a number", in any case.\<close>

definition special :: "string \<Rightarrow> float64 option" where
  "special s =
     (let (neg, s1) = split_sign s; w = map lower_byte s1 in
      if w = ''inf'' \<or> w = ''infinity'' then Some (if neg then NegInf else PosInf)
      else if map lower_byte s = ''nan'' then Some NaN else None)"

text \<open>\<open>strconv.ParseFloat(s, 64)\<close>: no value for a malformed number, or one that is out of range.\<close>

definition ParseFloat :: "string \<Rightarrow> float64 option" where
  "ParseFloat s =
     (case special s of Some x \<Rightarrow> Some x
      | None \<Rightarrow> (case read_float s of None \<Rightarrow> None
         | Some x \<Rightarrow> (case round_double x of Fin y \<Rightarrow> Some (Fin y) | _ \<Rightarrow> None)))"

subsection \<open>Durations\<close>

text \<open>\<open>leadingInt\<close>: the digits in front, no value where they exceed \<open>2 ^ 63\<close>.\<close>

fun leadingInt :: "int \<Rightarrow> string \<Rightarrow> (int \<times> string) option" where
  "leadingInt x [] = Some (x, [])"
| "leadingInt x (c # cs) =
     (if \<not> digit c then Some (x, c # cs)
      else if x > 2 ^ 63 div 10 then None
      else let y = x * 10 + digit_val c in if y > 2 ^ 63 then None else leadingInt y cs)"

text \<open>\<open>leadingFraction\<close>: the digits after the dot and their power of ten, dropping digits beyond 63 bits.\<close>

fun leadingFraction :: "int \<Rightarrow> int \<Rightarrow> bool \<Rightarrow> string \<Rightarrow> int \<times> int \<times> string" where
  "leadingFraction x scale overflow [] = (x, scale, [])"
| "leadingFraction x scale overflow (c # cs) =
     (if \<not> digit c then (x, scale, c # cs)
      else if overflow \<or> x > (2 ^ 63 - 1) div 10 \<or> x * 10 + digit_val c > 2 ^ 63
      then leadingFraction x scale True cs
      else leadingFraction (x * 10 + digit_val c) (scale * 10) False cs)"

definition unitMap :: "(string \<times> int) list" where
  "unitMap = [(''ns'', 1), (''us'', 1000), ([CHR 0xC2, CHR 0xB5, CHR ''s''], 1000),
     ([CHR 0xCE, CHR 0xBC, CHR ''s''], 1000), (''ms'', 1000000), (''s'', 1000000000),
     (''m'', 60000000000), (''h'', 3600000000000)]"

text \<open>The product of doubles \<open>float64(f) * (float64(unit) / scale)\<close>, cut to an integer.\<close>

definition fin_val :: "float64 \<Rightarrow> rat" where
  "fin_val x = (case x of Fin v \<Rightarrow> v | _ \<Rightarrow> 0)"

definition fraction_ns :: "int \<Rightarrow> int \<Rightarrow> int \<Rightarrow> int" where
  "fraction_ns f unit scale =
     \<lfloor>fin_val (round_double (fin_val (round_double (of_int f))
        * fin_val (round_double (of_int unit / of_int scale))))\<rfloor>"

text \<open>One number with its unit: the nanoseconds and the rest.\<close>

definition is_unit_char :: "char \<Rightarrow> bool" where
  "is_unit_char c \<longleftrightarrow> c \<noteq> CHR ''.'' \<and> \<not> digit c"

definition duration_term :: "string \<Rightarrow> (int \<times> string) option" where
  "duration_term s =
     (case leadingInt 0 s of None \<Rightarrow> None
      | Some (v, s1) \<Rightarrow>
          (let pre = (length s1 \<noteq> length s);
               dot = (s1 \<noteq> [] \<and> hd s1 = CHR ''.'');
               (f, scale, s2) = (if dot then leadingFraction 0 1 False (tl s1) else (0, 1, s1));
               post = (dot \<and> length s2 \<noteq> length (tl s1));
               u = takeWhile is_unit_char s2;
               s3 = dropWhile is_unit_char s2
           in if \<not> pre \<and> \<not> post then None
              else (case map_of unitMap u of None \<Rightarrow> None
                 | Some unit \<Rightarrow>
                     if v > 2 ^ 63 div unit then None
                     else
                       (let w = v * unit + (if f > 0 then fraction_ns f unit scale else 0) in
                        if w > 2 ^ 63 then None else Some (w, s3)))))"

lemma leadingInt_length: "leadingInt x s = Some (v, r) \<Longrightarrow> length r \<le> length s"
  by (induction x s rule: leadingInt.induct) (auto simp: Let_def split: if_splits)

lemma leadingFraction_length: "leadingFraction x sc ov s = (f, sc', r) \<Longrightarrow> length r \<le> length s"
  by (induction x sc ov s rule: leadingFraction.induct) (auto split: if_splits)

lemma duration_term_length:
  assumes "duration_term s = Some (w, r)"
  shows "length r < length s"
proof -
  from assms obtain v s1 where l: "leadingInt 0 s = Some (v, s1)" by (auto simp: duration_term_def split: option.splits)
  define dot where "dot \<longleftrightarrow> s1 \<noteq> [] \<and> hd s1 = CHR ''.''"
  obtain f sc s2 where f: "(if dot then leadingFraction 0 1 False (tl s1) else (0, 1, s1)) = (f, sc, s2)"
    by (cases "if dot then leadingFraction 0 1 False (tl s1) else (0, 1, s1)")
  have "length s2 \<le> length s1" using f leadingFraction_length [of 0 1 False "tl s1" f sc s2]
    by (cases s1) (auto split: if_splits)
  moreover from assms l f have "map_of unitMap (takeWhile is_unit_char s2) \<noteq> None" "r = dropWhile is_unit_char s2"
    by (auto simp: duration_term_def dot_def Let_def split: option.splits if_splits)
  then have "takeWhile is_unit_char s2 \<noteq> []" by (auto simp: unitMap_def)
  with \<open>r = dropWhile is_unit_char s2\<close>
  have "length r < length s2"
    by (metis length_append length_greater_0_conv less_add_same_cancel2 takeWhile_dropWhile_id)
  ultimately show ?thesis using leadingInt_length [OF l] by simp
qed

function duration_terms :: "int \<Rightarrow> string \<Rightarrow> int option" where
  "duration_terms d s =
     (if s = [] then Some d
      else if \<not> (hd s = CHR ''.'' \<or> digit (hd s)) then None
      else (case duration_term s of None \<Rightarrow> None
         | Some (w, r) \<Rightarrow> if d + w > 2 ^ 63 then None else duration_terms (d + w) r))"
  by auto
termination by (relation "measure (length \<circ> snd)") (auto dest: duration_term_length)

declare duration_terms.simps [simp del]

text \<open>\<open>time.ParseDuration\<close>, in nanoseconds.\<close>

definition ParseDuration :: "string \<Rightarrow> int option" where
  "ParseDuration s =
     (let (neg, r) = split_sign s in
      if r = ''0'' then Some 0
      else if r = [] then None
      else (case duration_terms 0 r of None \<Rightarrow> None
         | Some d \<Rightarrow> if neg then Some (- d) else if d > 2 ^ 63 - 1 then None else Some d))"


subsection \<open>Rounding is monotone\<close>

lemma two_pow_pos [simp]: "0 < two_pow k"
  by (simp add: two_pow_def)

lemma two_pow_nonzero [simp]: "two_pow k \<noteq> 0"
  using two_pow_pos [of k] by linarith

lemma two_pow_add: "two_pow (i + j) = two_pow i * two_pow j"
proof -
  have "two_pow k = (2::rat) powi k" for k by (simp add: two_pow_def power_int_def field_simps)
  then show ?thesis by (simp add: power_int_add)
qed

lemma two_pow_mono: "i \<le> j \<Longrightarrow> two_pow i \<le> two_pow j"
proof -
  assume "i \<le> j"
  then have "1 \<le> two_pow (j - i)" by (simp add: two_pow_def)
  then have "two_pow i * 1 \<le> two_pow i * two_pow (j - i)" by (intro mult_left_mono) (simp_all add: less_imp_le)
  then show ?thesis by (simp flip: two_pow_add)
qed

lemma two_pow_less_cancel: "two_pow i < two_pow j \<Longrightarrow> i < j"
  using two_pow_mono [of j i] by (rule_tac ccontr) (simp add: not_less)

lemma two_pow_div_int: "i \<le> j \<Longrightarrow> two_pow j / two_pow i = of_int (2 ^ nat (j - i))"
proof -
  assume "i \<le> j"
  moreover have "two_pow j = two_pow (j - i) * two_pow i" by (simp flip: two_pow_add)
  ultimately show ?thesis using two_pow_pos [of i] by (simp add: two_pow_def [of "j - i"])
qed

lemma bit_len_bounds: "0 < n \<Longrightarrow> 1 \<le> bit_len n \<and> two_pow (bit_len n - 1) \<le> of_int n \<and> of_int n < two_pow (bit_len n)"
proof (induction n rule: bit_len.induct)
  case (1 n)
  show ?case
  proof (cases "n = 1")
    case True
    then show ?thesis by (simp add: bit_len.simps [of 1] bit_len.simps [of 0] two_pow_def)
  next
    case False
    let ?k = "bit_len (n div 2)"
    have b: "bit_len n = ?k + 1" using 1(2) by (simp add: bit_len.simps [of n])
    have ih: "1 \<le> ?k" "two_pow (?k - 1) \<le> of_int (n div 2)" "of_int (n div 2) < two_pow ?k"
      using 1 False by simp_all
    have d: "two_pow (bit_len n - 1) = 2 * two_pow (?k - 1)" "two_pow (bit_len n) = 2 * two_pow ?k"
      using two_pow_add [of 1 "?k - 1"] two_pow_add [of 1 ?k] by (simp_all add: b two_pow_def [of 1] add.commute)
    have i: "two_pow (?k - 1) = of_int (2 ^ nat (?k - 1))" "two_pow ?k = of_int (2 ^ nat ?k)"
      using ih(1) by (simp_all add: two_pow_def)
    have lo: "2 ^ nat (?k - 1) \<le> n div 2" and hi: "n div 2 < 2 ^ nat ?k"
      using ih(2,3) unfolding i by linarith+
    have "2 * 2 ^ nat (?k - 1) \<le> n" "n < 2 * 2 ^ nat ?k" using lo hi by linarith+
    then have "(of_int (2 * 2 ^ nat (?k - 1)) :: rat) \<le> of_int n" "(of_int n :: rat) < of_int (2 * 2 ^ nat ?k)"
      by linarith+
    then show ?thesis unfolding d i using ih(1) by (simp add: b)
  qed
qed

lemma binary_exponent_bounds:
  assumes "0 < x"
  shows "two_pow (binary_exponent x) \<le> x \<and> x < two_pow (binary_exponent x + 1)"
proof -
  obtain a b where q: "quotient_of x = (a, b)" by fastforce
  then have x: "x = of_int a / of_int b" and b: "0 < b" by (simp_all add: quotient_of_div quotient_of_denom_pos)
  with assms have a: "0 < a" by (simp add: zero_less_divide_iff)
  define k where "k = bit_len a - bit_len b"
  note la = bit_len_bounds [OF a] and lb = bit_len_bounds [OF b]
  have "two_pow (k - 1) * of_int b \<le> of_int a"
  proof -
    have "two_pow (k - 1) * of_int b \<le> two_pow (k - 1) * two_pow (bit_len b)"
      using lb by (intro mult_left_mono) (simp_all add: less_imp_le)
    also have "\<dots> = two_pow (bit_len a - 1)" by (simp add: k_def flip: two_pow_add)
    finally show ?thesis using la by linarith
  qed
  moreover have "of_int a < two_pow (k + 1) * of_int b"
  proof -
    have "two_pow (bit_len a) = two_pow (k + 1) * two_pow (bit_len b - 1)" by (simp add: k_def flip: two_pow_add)
    also have "\<dots> \<le> two_pow (k + 1) * of_int b" using lb by (intro mult_left_mono) (simp_all add: less_imp_le)
    finally show ?thesis using la by linarith
  qed
  ultimately have "two_pow (k - 1) \<le> x" "x < two_pow (k + 1)" using b by (simp_all add: x field_simps)
  then show ?thesis by (auto simp: binary_exponent_def q k_def [symmetric])
qed

lemma round_even_mono: "x \<le> y \<Longrightarrow> round_even x \<le> round_even y"
proof -
  assume le: "x \<le> y"
  then have f: "\<lfloor>x\<rfloor> \<le> \<lfloor>y\<rfloor>" by (rule floor_mono)
  show ?thesis
  proof (cases "\<lfloor>x\<rfloor> = \<lfloor>y\<rfloor>")
    case True
    then show ?thesis using le by (auto simp: round_even_def Let_def)
  next
    case False
    with f show ?thesis by (auto simp: round_even_def Let_def)
  qed
qed

lemma round_even_of_int [simp]: "round_even (of_int n) = n"
  by (simp add: round_even_def Let_def)


lemma round_pos_nonneg: "0 < x \<Longrightarrow> 0 \<le> round_pos x"
proof -
  assume "0 < x"
  then have "round_even (of_int 0) \<le> round_even (x / two_pow p)" for p
    by (intro round_even_mono) (simp add: less_imp_le)
  then show ?thesis by (auto simp: round_pos_def Let_def less_imp_le simp del: of_int_0)
qed

lemma round_pos_mono:
  assumes "0 < x" and "x \<le> y"
  shows "round_pos x \<le> round_pos y"
proof -
  define e f p q where "e = binary_exponent x" and "f = binary_exponent y"
    and "p = max (e - 52) (- 1074)" and "q = max (f - 52) (- 1074)"
  have x: "round_pos x = of_int (round_even (x / two_pow p)) * two_pow p"
    and y: "round_pos y = of_int (round_even (y / two_pow q)) * two_pow q"
    by (simp_all add: round_pos_def p_def q_def e_def f_def Let_def)
  have ex: "two_pow e \<le> x" and ey: "y < two_pow (f + 1)" "two_pow f \<le> y" and lx: "x < two_pow (e + 1)"
    using binary_exponent_bounds [of x] binary_exponent_bounds [of y] assms by (auto simp: e_def f_def)
  have "two_pow e < two_pow (f + 1)" using ex ey assms(2) by linarith
  then have "e \<le> f" using two_pow_less_cancel by fastforce
  show ?thesis
  proof (cases "p = q")
    case True
    have "round_even (x / two_pow q) \<le> round_even (y / two_pow q)"
      using assms(2) by (intro round_even_mono divide_right_mono) (simp_all add: less_imp_le)
    then show ?thesis by (simp add: x y True)
  next
    case False
    with \<open>e \<le> f\<close> have pq: "p \<le> q" "q = f - 52" "e + 1 \<le> f" by (auto simp: p_def q_def)
    have "x \<le> two_pow f" using lx two_pow_mono [OF pq(3)] by linarith
    then have "round_even (x / two_pow p) \<le> round_even (two_pow f / two_pow p)"
      by (intro round_even_mono divide_right_mono) (simp_all add: less_imp_le)
    also have "two_pow f / two_pow p = of_int (2 ^ nat (f - p))" using pq by (intro two_pow_div_int) simp
    finally have "of_int (round_even (x / two_pow p)) \<le> two_pow f / two_pow p"
      using two_pow_div_int [of p f] pq by (simp only: round_even_of_int of_int_le_iff)
    then have "round_pos x \<le> two_pow f" by (simp add: x field_simps)
    moreover have "round_even (two_pow f / two_pow q) \<le> round_even (y / two_pow q)"
      using ey(2) by (intro round_even_mono divide_right_mono) (simp_all add: less_imp_le)
    then have "two_pow f / two_pow q \<le> of_int (round_even (y / two_pow q))"
      using two_pow_div_int [of q f] pq by (simp only: round_even_of_int of_int_le_iff)
    then have "two_pow f \<le> round_pos y" by (simp add: y field_simps)
    ultimately show ?thesis by linarith
  qed
qed

text \<open>Numbers in order stay in order as doubles, the overflow to an infinity included.\<close>

lemma round_double_mono:
  assumes "x \<le> y"
  shows "\<not> flt_less (round_double y) (round_double x)"
proof -
  consider "x < 0" "y < 0" | "x < 0" "0 \<le> y" | "x = 0" | "0 < x" by linarith
  then show ?thesis
  proof cases
    case 1
    with assms round_pos_mono [of "- y" "- x"] show ?thesis by (auto simp: round_double_def Let_def)
  next
    case 2
    with round_pos_nonneg [of "- x"] round_pos_nonneg [of y] show ?thesis
      by (auto simp: round_double_def Let_def)
  next
    case 3
    with assms round_pos_nonneg [of y] show ?thesis by (auto simp: round_double_def Let_def)
  next
    case 4
    with assms round_pos_mono [of x y] show ?thesis by (auto simp: round_double_def Let_def)
  qed
qed

text \<open>A number with at most 53 significant bits is a double.\<close>

lemma binary_exponent_eq:
  assumes "two_pow e \<le> x" and "x < two_pow (e + 1)"
  shows "binary_exponent x = e"
proof -
  have "0 < x" using assms(1) two_pow_pos [of e] by linarith
  note b = binary_exponent_bounds [OF this]
  have "two_pow e < two_pow (binary_exponent x + 1)" "two_pow (binary_exponent x) < two_pow (e + 1)"
    using assms b by linarith+
  then show ?thesis by (fastforce dest: two_pow_less_cancel)
qed

lemma round_double_exact:
  assumes "two_pow e \<le> x" and "x < two_pow (e + 1)" and "e < 1024"
    and "x / two_pow (max (e - 52) (- 1074)) = of_int n"
  shows "round_double x = Fin x"
proof -
  have "0 < x" using assms(1) two_pow_pos [of e] by linarith
  moreover have "round_pos x = x"
    unfolding round_pos_def Let_def binary_exponent_eq [OF assms(1,2)] assms(4) round_even_of_int
    using assms(4) by (simp add: field_simps)
  moreover have "x < two_pow 1024" using assms(2,3) two_pow_mono [of "e + 1" 1024] by linarith
  ultimately show ?thesis by (simp add: round_double_def)
qed

lemma round_double_not_NaN [simp]: "round_double x \<noteq> NaN"
  by (auto simp: round_double_def Let_def)

text \<open>Two doubles between two numbers keep them apart.\<close>

lemma round_double_apart:
  assumes "x \<le> a" and "a < b" and "b \<le> y" and "round_double a = Fin a" and "round_double b = Fin b"
  shows "flt_less (round_double x) (round_double y)"
proof -
  have "\<not> flt_less (Fin a) (round_double x)" "\<not> flt_less (round_double y) (Fin b)"
    using round_double_mono [OF assms(1)] round_double_mono [OF assms(3)] assms(4,5) by simp_all
  with assms(2) round_double_not_NaN [of x] round_double_not_NaN [of y] show ?thesis
    by (cases "round_double x"; cases "round_double y") auto
qed

lemma unit_double:
  assumes "0 \<le> x" and "x \<le> 1"
  shows "\<exists>q. round_double x = Fin q"
proof -
  have "round_double 1 = Fin 1" by (rule round_double_exact [of 0 _ "2 ^ 52"]) (simp_all add: two_pow_def)
  moreover have "round_double 0 = Fin 0" by (simp add: round_double_def)
  ultimately have "\<not> flt_less (Fin 1) (round_double x)" "\<not> flt_less (round_double x) (Fin 0)"
    using round_double_mono [OF assms(2)] round_double_mono [OF assms(1)] by simp_all
  then show ?thesis using round_double_not_NaN [of x] by (cases "round_double x") auto
qed

text \<open>A number that is read digit by digit is not one of the special spellings.\<close>

lemma lower_digit: "digit c \<Longrightarrow> lower_byte c = c"
  by (simp add: lower_byte_def digit_def)

lemma lower_marks: "lower_byte (CHR ''_'') = CHR ''_''" "lower_byte (CHR ''.'') = CHR ''.''"
  "lower_byte (CHR ''-'') = CHR ''-''" "lower_byte (CHR ''+'') = CHR ''+''"
  by (simp_all add: lower_byte_def)

lemma letters_not_digits: "\<not> digit (CHR ''i'')" "\<not> digit (CHR ''n'')" "digit (CHR ''0'')"
  by (simp_all add: digit_def)

lemma lower_letter:
  assumes "lower_byte c = CHR ''i'' \<or> lower_byte c = CHR ''n''"
  shows "\<not> digit c" "c \<noteq> CHR ''0''" "c \<noteq> CHR ''_''" "c \<noteq> CHR ''.''" "c \<noteq> CHR ''-''" "c \<noteq> CHR ''+''"
  using assms lower_digit [of c] lower_marks letters_not_digits by auto

lemma no_digits:
  assumes "lower_byte c = CHR ''i'' \<or> lower_byte c = CHR ''n''" and "split_sign s = (neg, c # cs)"
  shows "read_float s = None"
  unfolding read_float_def assms(2) by (simp add: lower_letter [OF assms(1)] Let_def)

lemma read_float_not_special: "read_float u = Some z \<Longrightarrow> special u = None"
proof (rule ccontr)
  assume r: "read_float u = Some z" and "special u \<noteq> None"
  obtain neg s1 where sp: "split_sign u = (neg, s1)" by fastforce
  from \<open>special u \<noteq> None\<close> consider "map lower_byte s1 = ''inf'' \<or> map lower_byte s1 = ''infinity''" | "map lower_byte u = ''nan''"
    by (auto simp: special_def sp Let_def split: if_splits)
  then show False
  proof cases
    case 1
    then obtain c cs where "s1 = c # cs" "lower_byte c = CHR ''i''" by (cases s1) auto
    with no_digits [of c u neg cs] sp r show False by simp
  next
    case 2
    then obtain c cs where c: "u = c # cs" "lower_byte c = CHR ''n''" by (cases u) auto
    then have "split_sign u = (False, c # cs)" using lower_letter [of c] by simp
    with no_digits [of c u False cs] c r show False by simp
  qed
qed

subsection \<open>Printed numbers are read back\<close>

lemma digit_chr: "n < 10 \<Longrightarrow> digit (chr (48 + n)) \<and> digit_val (chr (48 + n)) = int n"
  by (simp add: digit_def digit_val_def)

lemma digits_nonempty: "digits n \<noteq> []"
  by (subst digits.simps) simp

lemma digits_digit: "list_all digit (digits n)"
proof (induction n rule: digits.induct)
  case (1 n)
  then show ?case using digit_chr [of n] digit_chr [of "n mod 10"] by (subst digits.simps) (simp del: chr_def)
qed

lemma last_digit: "int (n div 10) * 10 + int (n mod 10) = int n"
  by (metis div_mult_mod_eq of_nat_add of_nat_mult of_nat_numeral)

lemma dec_val_digits: "dec_val (digits n) = int n"
proof (induction n rule: digits.induct)
  case (1 n)
  show ?case
  proof (cases "n < 10")
    case True
    then show ?thesis using digit_chr [of n] by (subst digits.simps) (simp add: dec_val_def del: chr_def)
  next
    case False
    with 1 have "dec_val (digits (n div 10)) = int (n div 10)" by simp
    then show ?thesis using False digit_chr [of "n mod 10"]
      by (subst digits.simps) (simp add: dec_val_def last_digit del: chr_def)
  qed
qed

lemma leadingInt_append: "leadingInt x s = Some (y, []) \<Longrightarrow> leadingInt x (s @ t) = leadingInt y t"
  by (induction x s rule: leadingInt.induct) (auto simp: Let_def split: if_splits)

lemma leadingInt_digits: "int n \<le> 2 ^ 63 \<Longrightarrow> leadingInt 0 (digits n) = Some (int n, [])"
proof (induction n rule: digits.induct)
  case (1 n)
  show ?case
  proof (cases "n < 10")
    case True
    then show ?thesis using digit_chr [of n] by (subst digits.simps) (simp del: chr_def)
  next
    case False
    with 1 have "leadingInt 0 (digits (n div 10)) = Some (int (n div 10), [])" by simp
    from leadingInt_append [OF this] show ?thesis
      using False digit_chr [of "n mod 10"] "1.prems" by (subst digits.simps) (simp add: Let_def last_digit del: chr_def)
  qed
qed

lemma split_sign_digits: "split_sign (digits n @ s) = (False, digits n @ s)"
proof (cases "digits n")
  case (Cons c cs)
  then have "digit c" using digits_digit [of n] by simp
  then have "c \<noteq> CHR ''-''" "c \<noteq> CHR ''+''" by (auto simp: digit_def)
  with Cons show ?thesis by simp
qed (simp add: digits_nonempty)

lemma Atoi_Itoa: "0 \<le> n \<Longrightarrow> n < 2 ^ 63 \<Longrightarrow> Atoi (Itoa n) = Some n"
  using split_sign_digits [of "nat n" "[]"] by (simp add: Atoi_def Itoa_def dec_val_digits digits_digit digits_nonempty)

lemma ParseDuration_ns:
  assumes "0 \<le> n" and "n < 2 ^ 63"
  shows "ParseDuration (Itoa n @ ''ns'') = Some n"
proof -
  let ?s = "digits (nat n) @ ''ns''"
  have "leadingInt 0 (digits (nat n)) = Some (n, [])" using leadingInt_digits [of "nat n"] assms by simp
  from leadingInt_append [OF this] have l: "leadingInt 0 ?s = Some (n, ''ns'')" by (simp add: digit_def)
  then have "duration_term ?s = Some (n, [])"
    using assms by (simp add: duration_term_def digits_nonempty is_unit_char_def digit_def unitMap_def)
  moreover have "hd ?s = CHR ''.'' \<or> digit (hd ?s)" using digits_nonempty [of "nat n"] digits_digit [of "nat n"]
    by (cases "digits (nat n)") auto
  ultimately have "duration_terms 0 ?s = Some n"
    using assms by (simp add: duration_terms.simps [of 0 ?s] duration_terms.simps [of n "[]"])
  moreover have "?s \<noteq> ''0''" by (cases "digits (nat n)") (auto simp: digits_nonempty)
  ultimately show ?thesis
    using assms split_sign_digits [of "nat n" "''ns''"] by (simp add: ParseDuration_def Itoa_def)
qed

end
