(* ===== verification/Go_Decode.thy ===== *)
theory Go_Decode
  imports Go_Num
begin

text \<open>
  \<open>json.Unmarshal\<close> as far as the program uses it. A document that the scanner accepts is read into a
  tree (\<open>jval\<close>) by descent, then stored into the target: a field is found by its exact name or,
  failing that, by a case-insensitive one; a value of the wrong type is an error that is
  remembered while decoding goes on; \<open>null\<close> clears a pointer, a slice or a map and leaves everything else;
  a repeated key decodes into what the earlier one left.
\<close>

datatype jval =
    JNull
  | JBool bool
  | JNum string
  | JStr string
  | JArr "jval list"
  | JObj "(string \<times> jval) list"

subsection \<open>Strings\<close>

definition escape_rune :: "char \<Rightarrow> rune" where
  "escape_rune c =
     (if c = CHR ''b'' then 8 else if c = CHR ''f'' then 12 else if c = CHR ''n'' then 10
      else if c = CHR ''r'' then 13 else if c = CHR ''t'' then 9 else byte c)"

fun hex4 :: "string \<Rightarrow> rune" where
  "hex4 s = nat (foldl (\<lambda>n c. n * 16 + hex_val c) 0 s)"

text \<open>The second half of a surrogate pair that follows an escaped first half.\<close>

definition low_surrogate :: "string \<Rightarrow> rune option" where
  "low_surrogate s =
     (case s of
        b # u # cs \<Rightarrow>
          let r = hex4 (take 4 cs) in
          if byte b = 0x5C \<and> u = CHR ''u'' \<and> length cs \<ge> 4 \<and> list_all hex_digit (take 4 cs) \<and> 0xDC00 \<le> r \<and> r < 0xE000
          then Some r else None
      | _ \<Rightarrow> None)"

text \<open>One character of a quoted string: the bytes it stands for and the rest of the text.\<close>

definition unquote_char :: "char \<Rightarrow> string \<Rightarrow> (string \<times> string) option" where
  "unquote_char c cs =
     (if byte c \<noteq> 0x5C then (let (r, n) = decode1 c cs in Some (encode1 r, drop n cs))
      else
        (case cs of
           [] \<Rightarrow> None
         | e # es \<Rightarrow>
             if e \<noteq> CHR ''u'' then Some (encode1 (escape_rune e), es)
             else if length es < 4 \<or> \<not> list_all hex_digit (take 4 es) then None
             else
               (let r = hex4 (take 4 es); rest = drop 4 es in
                if 0xD800 \<le> r \<and> r < 0xDC00 then
                  (case low_surrogate rest of
                     Some r2 \<Rightarrow> Some (encode1 (0x10000 + (r - 0xD800) * 1024 + (r2 - 0xDC00)), drop 6 rest)
                   | None \<Rightarrow> Some (encode1 RuneError, rest))
                else Some (encode1 r, rest))))"

lemma unquote_char_length: "unquote_char c cs = Some (b, r) \<Longrightarrow> length r \<le> length cs"
  by (auto simp: unquote_char_def Let_def split: if_splits list.splits option.splits prod.splits)

text \<open>\<open>unquote\<close> on the text after the opening quote: the bytes, and what follows the closing quote.\<close>

function unquote :: "string \<Rightarrow> (string \<times> string) option" where
  "unquote [] = None"
| "unquote (c # cs) =
     (if byte c = 0x22 then Some ([], cs)
      else (case unquote_char c cs of None \<Rightarrow> None
         | Some (b, r) \<Rightarrow> map_option (apfst ((@) b)) (unquote r)))"
  by pat_completeness auto
termination by (relation "measure length") (auto dest!: unquote_char_length)

subsection \<open>Values\<close>

definition skip_space :: "string \<Rightarrow> string" where
  "skip_space s = dropWhile json_space s"

definition num_char :: "char \<Rightarrow> bool" where
  "num_char c \<longleftrightarrow> digit c \<or> c \<in> set ''+-.eE''"

text \<open>The next character after white space, if it is the one that is expected.\<close>

definition expect :: "char \<Rightarrow> string \<Rightarrow> string option" where
  "expect c s = (case skip_space s of [] \<Rightarrow> None | x # r \<Rightarrow> if x = c then Some r else None)"

lemma skip_space_length: "length (skip_space s) \<le> length s"
  by (simp add: skip_space_def length_dropWhile_le)

lemma skip_space_Cons_length: "skip_space s = c # r \<Longrightarrow> length r < length s"
  using skip_space_length [of s] by simp

lemma expect_length: "expect c s = Some r \<Longrightarrow> length r < length s"
  by (auto simp: expect_def dest: skip_space_Cons_length split: list.splits if_splits)

text \<open>
  The descent. Each call hands the rest of the text on; that the rest is shorter is
  tested where the recursion needs it, and always holds (\<open>parse_shorter\<close> below).
\<close>

function (sequential)
  parse_value :: "string \<Rightarrow> (jval \<times> string) option" and
  parse_elements :: "string \<Rightarrow> (jval list \<times> string) option" and
  parse_members :: "string \<Rightarrow> ((string \<times> jval) list \<times> string) option" where
  "parse_value s =
     (case skip_space s of
        [] \<Rightarrow> None
      | c # cs \<Rightarrow>
          if c = CHR ''{'' then
            (case expect (CHR ''}'') cs of
               Some r \<Rightarrow> Some (JObj [], r)
             | None \<Rightarrow> map_option (apfst JObj) (parse_members cs))
          else if c = CHR ''['' then
            (case expect (CHR '']'') cs of
               Some r \<Rightarrow> Some (JArr [], r)
             | None \<Rightarrow> map_option (apfst JArr) (parse_elements cs))
          else if byte c = 0x22 then map_option (apfst JStr) (unquote cs)
          else if c = CHR ''t'' then Some (JBool True, drop 3 cs)
          else if c = CHR ''f'' then Some (JBool False, drop 4 cs)
          else if c = CHR ''n'' then Some (JNull, drop 3 cs)
          else if num_char c then Some (JNum (takeWhile num_char (c # cs)), dropWhile num_char (c # cs))
          else None)"
| "parse_elements s =
     (case parse_value s of None \<Rightarrow> None
      | Some (v, r) \<Rightarrow>
          (case expect (CHR '','') r of
             Some r' \<Rightarrow>
               if length r' < length s then map_option (apfst ((#) v)) (parse_elements r') else None
           | None \<Rightarrow> map_option (Pair [v]) (expect (CHR '']'') r)))"
| "parse_members s =
     (case expect (CHR 0x22) s of None \<Rightarrow> None
      | Some cs \<Rightarrow>
          (case unquote cs of None \<Rightarrow> None
           | Some (k, r0) \<Rightarrow>
               (case expect (CHR '':'') r0 of None \<Rightarrow> None
                | Some r1 \<Rightarrow>
                    if length r1 < length s then
                      (case parse_value r1 of None \<Rightarrow> None
                       | Some (v, r) \<Rightarrow>
                           (case expect (CHR '','') r of
                              Some r' \<Rightarrow>
                                if length r' < length s
                                then map_option (apfst ((#) (k, v))) (parse_members r') else None
                            | None \<Rightarrow> map_option (Pair [(k, v)]) (expect (CHR ''}'') r)))
                    else None)))"
  by pat_completeness auto
termination
  by (relation "measure (\<lambda>x. case x of Inl s \<Rightarrow> 2 * length s | Inr (Inl s) \<Rightarrow> 2 * length s + 1 | Inr (Inr s) \<Rightarrow> 2 * length s + 1)")
    (auto dest!: skip_space_Cons_length)

declare parse_value.simps [simp del] parse_elements.simps [simp del] parse_members.simps [simp del]

subsection \<open>What the decoder stores\<close>

text \<open>
  A value of type \<open>any\<close>. A map keeps one entry per key, the last one; a number out of
  range is \<open>nil\<close> (and an error).
\<close>

datatype any =
    ANil
  | ABool bool
  | ANum float64
  | AStr string
  | AArr "any list"
  | AMap "(string \<times> any) list"

fun map_set :: "string \<Rightarrow> 'v \<Rightarrow> (string \<times> 'v) list \<Rightarrow> (string \<times> 'v) list" where
  "map_set k v [] = [(k, v)]"
| "map_set k v ((k', v') # m) = (if k' = k then (k, v) # m else (k', v') # map_set k v m)"

definition map_sets :: "(string \<times> 'v) list \<Rightarrow> (string \<times> 'v) list \<Rightarrow> (string \<times> 'v) list" where
  "map_sets kvs m = fold (\<lambda>(k, v). map_set k v) kvs m"

fun to_any :: "jval \<Rightarrow> any" where
  "to_any JNull = ANil"
| "to_any (JBool b) = ABool b"
| "to_any (JNum t) = (case ParseFloat t of Some x \<Rightarrow> ANum x | None \<Rightarrow> ANil)"
| "to_any (JStr s) = AStr s"
| "to_any (JArr vs) = AArr (map to_any vs)"
| "to_any (JObj kvs) = AMap (map_sets (map (\<lambda>(k, v). (k, to_any v)) kvs) [])"

fun any_error :: "jval \<Rightarrow> bool" where
  "any_error (JNum t) \<longleftrightarrow> ParseFloat t = None"
| "any_error (JArr vs) \<longleftrightarrow> list_ex any_error vs"
| "any_error (JObj kvs) \<longleftrightarrow> list_ex (\<lambda>(k, v). any_error v) kvs"
| "any_error _ \<longleftrightarrow> False"

text \<open>
  A decoder stores a value over what the target holds; the flag says that an error was
  remembered.
\<close>

type_synonym 'a decoder = "jval \<Rightarrow> 'a \<Rightarrow> 'a \<times> bool"

fun dec_string :: "string decoder" where
  "dec_string (JStr s) x = (s, False)"
| "dec_string JNull x = (x, False)"
| "dec_string _ x = (x, True)"

fun dec_bool :: "bool decoder" where
  "dec_bool (JBool b) x = (b, False)"
| "dec_bool JNull x = (x, False)"
| "dec_bool _ x = (x, True)"

fun dec_float64 :: "float64 decoder" where
  "dec_float64 (JNum t) x = (case ParseFloat t of Some y \<Rightarrow> (y, False) | None \<Rightarrow> (x, True))"
| "dec_float64 JNull x = (x, False)"
| "dec_float64 _ x = (x, True)"

text \<open>A pointer to an integer: the target is allocated before the value is looked at.\<close>

definition alloc :: "int option \<Rightarrow> int option" where
  "alloc x = (case x of None \<Rightarrow> Some 0 | Some y \<Rightarrow> Some y)"

fun dec_int64_ptr :: "int option decoder" where
  "dec_int64_ptr (JNum t) x = (case Atoi t of Some n \<Rightarrow> (Some n, False) | None \<Rightarrow> (alloc x, True))"
| "dec_int64_ptr JNull x = (None, False)"
| "dec_int64_ptr _ x = (alloc x, True)"

fun dec_map :: "(string \<times> any) list decoder" where
  "dec_map (JObj kvs) m =
     (map_sets (map (\<lambda>(k, v). (k, to_any v)) kvs) m, list_ex (\<lambda>(k, v). any_error v) kvs)"
| "dec_map JNull m = ([], False)"
| "dec_map _ m = (m, True)"

text \<open>
  The key of a field, folded: letters to upper case, and the two characters beyond ASCII that
  fold to an ASCII letter (the long s and the Kelvin sign).
\<close>

definition fold_rune :: "rune \<Rightarrow> rune" where
  "fold_rune r = (if 97 \<le> r \<and> r \<le> 122 then r - 32 else if r = 0x17F then 83 else if r = 0x212A then 75 else r)"

definition fold_name :: "string \<Rightarrow> rune list" where
  "fold_name s = map fold_rune (runes s)"

definition find_field :: "string \<Rightarrow> (string \<times> 'f) list \<Rightarrow> 'f option" where
  "find_field k fs =
     (case map_of fs k of Some f \<Rightarrow> Some f
      | None \<Rightarrow> map_option snd (find (\<lambda>(n, f). fold_name n = fold_name k) fs))"

text \<open>A struct: the members in order, each into its field; a member with no field is skipped.\<close>

fun dec_members :: "(string \<times> 'a decoder) list \<Rightarrow> (string \<times> jval) list \<Rightarrow> 'a \<Rightarrow> 'a \<times> bool" where
  "dec_members fs [] x = (x, False)"
| "dec_members fs ((k, v) # kvs) x =
     (let (y, e) = (case find_field k fs of None \<Rightarrow> (x, False) | Some f \<Rightarrow> f v x);
          (z, e') = dec_members fs kvs y
      in (z, e \<or> e'))"

fun dec_struct :: "(string \<times> 'a decoder) list \<Rightarrow> 'a decoder" where
  "dec_struct fs (JObj kvs) x = dec_members fs kvs x"
| "dec_struct fs JNull x = (x, False)"
| "dec_struct fs _ x = (x, True)"

text \<open>A field of a record as a decoder of the record.\<close>

definition field :: "('a \<Rightarrow> 'f) \<Rightarrow> ('f \<Rightarrow> 'a \<Rightarrow> 'a) \<Rightarrow> 'f decoder \<Rightarrow> 'a decoder" where
  "field get put dec v x = (let (y, e) = dec v (get x) in (put y x, e))"

text \<open>
  A slice: its elements and, behind them, what its backing array still holds from a longer
  one. Elements are decoded in place; an empty array makes a fresh slice.
\<close>

record 'e slice =
  sl_elems :: "'e list"
  sl_stale :: "'e list"

fun dec_elems :: "'e decoder \<Rightarrow> 'e \<Rightarrow> jval list \<Rightarrow> 'e list \<Rightarrow> 'e list \<times> bool \<times> 'e list" where
  "dec_elems dec zero [] back = ([], False, back)"
| "dec_elems dec zero (v # vs) back =
     (let (x, back') = (case back of [] \<Rightarrow> (zero, []) | b # bs \<Rightarrow> (b, bs));
          (y, e) = dec v x;
          (ys, e', rest) = dec_elems dec zero vs back'
      in (y # ys, e \<or> e', rest))"

fun dec_slice :: "'e decoder \<Rightarrow> 'e \<Rightarrow> 'e slice decoder" where
  "dec_slice dec zero (JArr vs) x =
     (if vs = [] then (\<lparr>sl_elems = [], sl_stale = []\<rparr>, False)
      else let (ys, e, rest) = dec_elems dec zero vs (sl_elems x @ sl_stale x)
           in (\<lparr>sl_elems = ys, sl_stale = rest\<rparr>, e))"
| "dec_slice dec zero JNull x = (\<lparr>sl_elems = [], sl_stale = []\<rparr>, False)"
| "dec_slice dec zero _ x = (x, True)"

text \<open>
  \<open>json.Unmarshal\<close>: nothing is stored from a document that is not JSON. The flag is the
  error.
\<close>

definition parse_doc :: "string \<Rightarrow> jval option" where
  "parse_doc s = (if json_Valid s then map_option fst (parse_value s) else None)"

definition Unmarshal :: "'a decoder \<Rightarrow> string \<Rightarrow> 'a \<Rightarrow> 'a \<times> bool" where
  "Unmarshal dec data x = (case parse_doc data of None \<Rightarrow> (x, True) | Some v \<Rightarrow> dec v x)"


subsection \<open>The descent always advances\<close>

lemma unquote_length: "unquote s = Some (t, r) \<Longrightarrow> length r < length s"
  by (induction s arbitrary: t r rule: unquote.induct)
    (force dest: unquote_char_length split: if_splits option.splits)+

lemma parse_shorter:
  "parse_value s = Some (v, r) \<Longrightarrow> length r < length s"
  "parse_elements s = Some (vs, r) \<Longrightarrow> length r < length s"
  "parse_members s = Some (kvs, r) \<Longrightarrow> length r < length s"
proof (induction s and s and s arbitrary: v r and vs r and kvs r rule: parse_value_parse_elements_parse_members.induct)
  case (1 s)
  note u = "1.prems" [unfolded parse_value.simps [of s]]
  show ?case
  proof (cases "skip_space s")
    case (Cons c cs)
    have "length r \<le> length cs"
      using u Cons "1.IH"(1) [OF Cons] "1.IH"(2) [OF Cons] length_dropWhile_le [of num_char cs]
      by (auto dest!: expect_length unquote_length split: if_splits option.splits)
    with skip_space_Cons_length [OF Cons] show ?thesis by simp
  qed (use u in simp)
next
  case (2 s)
  from "2.prems" [unfolded parse_elements.simps [of s]] obtain v r1 where p: "parse_value s = Some (v, r1)"
    by (auto split: option.splits)
  with "2.prems" [unfolded parse_elements.simps [of s]] "2.IH"(1) [OF p] "2.IH"(2) [OF p refl] show ?case
    by (auto dest!: expect_length split: option.splits if_splits) fastforce
next
  case (3 s)
  from "3.prems" [unfolded parse_members.simps [of s]] obtain cs k r0 r1 v r2 where
    p: "expect (CHR 0x22) s = Some cs" "unquote cs = Some (k, r0)" "expect (CHR '':'') r0 = Some r1"
      "length r1 < length s" "parse_value r1 = Some (v, r2)"
    by (auto split: option.splits if_splits)
  note ih = "3.IH"(1) [OF p(1) p(2) refl p(3,4)] "3.IH"(2) [OF p(1) p(2) refl p(3,4,5) refl]
  with p "3.prems" [unfolded parse_members.simps [of s]] ih(1) [OF p(5)] show ?case
    by (auto dest!: expect_length split: option.splits if_splits) fastforce
qed

subsection \<open>Evaluation\<close>

text \<open>Reading a string from the left, for evaluating the decoder on a concrete text.\<close>

definition unquote_to :: "string \<Rightarrow> string \<Rightarrow> (string \<times> string) option" where
  "unquote_to acc s = map_option (apfst ((@) acc)) (unquote s)"

lemma unquote_start: "unquote (c # cs) = unquote_to [] (c # cs)"
  by (cases "unquote (c # cs)") (auto simp: unquote_to_def simp del: unquote.simps)

lemma unquote_next:
  "unquote_to acc (c # cs) =
     (if byte c = 34 then Some (acc, cs)
      else case unquote_char c cs of None \<Rightarrow> None | Some (b, r) \<Rightarrow> unquote_to (acc @ b) r)"
proof (cases "unquote_char c cs")
  case (Some br)
  then show ?thesis by (cases br; cases "unquote (snd br)") (auto simp: unquote_to_def unquote.simps)
qed (simp add: unquote_to_def unquote.simps)

lemma unquote_char_ascii:
  "of_char c < (128::nat) \<Longrightarrow> of_char c \<noteq> (92::nat) \<Longrightarrow> unquote_char c cs = Some ([c], cs)"
  by (simp add: unquote_char_def encode1_def valid_rune_def)

declare unquote.simps [simp del]

lemmas parse_eval = parse_value.simps [of "c # cs" for c cs] parse_members.simps [of "c # cs" for c cs]
  parse_elements.simps [of "c # cs" for c cs] expect_def [of d "c # cs" for d c cs] expect_def [of d "[]" for d]
  skip_space_def [of "c # cs" for c cs] skip_space_def [of "[]"] json_space_def digit_def num_char_def
  unquote_start unquote_next unquote_char_ascii

end
