(* ===== verification/Go_Json_Parse.thy ===== *)
theory Go_Json_Parse
  imports Go_Decode
begin

text \<open>
  The scanner and the descent agree: whatever \<open>json.Valid\<close> accepts, the decoder can read. So the only
  documents \<open>Unmarshal\<close> refuses as a whole are those the scanner rejects.
\<close>

definition accepts :: "scanner \<Rightarrow> string \<Rightarrow> bool" where
  "accepts s cs = scan_eof (fold scan_byte cs s)"

definition sc :: "sstate \<Rightarrow> pstate list \<Rightarrow> scanner" where
  "sc st ps = \<lparr>sc_step = st, sc_stack = ps, sc_endTop = False\<rparr>"

lemma sc_simps [simp]:
  "sc_step (sc st ps) = st" "(sc st ps)\<lparr>sc_step := st'\<rparr> = sc st' ps"
  "sc_stack (sc st ps) = ps" "(sc st ps)\<lparr>sc_stack := qs\<rparr> = sc st qs"
  by (simp_all add: sc_def)

lemmas scan_defs = scan_byte_def sc_def to_error_def stateEndTop_def stateEndValue_def stateBeginString_def
  stateBeginValue_def state0_def stateESign_def

lemma accepts_Cons: "accepts s (c # cs) = accepts (scan_byte c s) cs"
  by (simp add: accepts_def)

lemma scan_error: "sc_step s = ScanError \<Longrightarrow> fold scan_byte cs s = s"
  by (induction cs) (simp_all add: scan_byte_def)

lemma accepts_error: "sc_step s = ScanError \<Longrightarrow> \<not> accepts s cs"
  by (simp add: accepts_def scan_error scan_eof_def)

lemma accepts_to_error [simp]: "\<not> accepts (to_error s) cs"
  by (rule accepts_error) (simp add: to_error_def)

lemma accepts_top:
  "accepts \<lparr>sc_step = EndTop, sc_stack = [], sc_endTop = True\<rparr> cs = accepts (sc EndValue []) cs"
  by (cases cs) (simp_all add: accepts_def scan_defs scan_eof_def json_space_def)

lemma accepts_pop: "accepts (popParseState (sc st (p # ps))) cs = accepts (sc EndValue ps) cs"
  by (simp add: popParseState_def sc_def accepts_top [unfolded sc_def])

lemma end_space: "json_space c \<Longrightarrow> accepts (sc EndValue ps) (c # cs) = accepts (sc EndValue ps) cs"
  using accepts_top [of cs]
  by (cases ps) (simp_all add: accepts_Cons scan_byte_def stateEndValue_def stateEndTop_def sc_def)

lemma end_skip: "accepts (sc EndValue ps) (skip_space cs) = accepts (sc EndValue ps) cs"
  by (induction cs) (simp_all add: skip_space_def end_space)

lemma begin_skip:
  "st \<in> {BeginValue, BeginValueOrEmpty, BeginStringOrEmpty, BeginString} \<Longrightarrow>
   accepts (sc st ps) (skip_space cs) = accepts (sc st ps) cs"
  by (induction cs) (auto simp: skip_space_def accepts_Cons scan_defs)

lemma skip_space_head: "skip_space s = c # cs \<Longrightarrow> \<not> json_space c"
  by (auto simp: skip_space_def dropWhile_eq_Cons_conv)

lemma not_done: "st \<noteq> EndTop \<Longrightarrow> st \<in> {BeginValue, BeginValueOrEmpty, BeginStringOrEmpty, BeginString, InString, InStringEsc} \<Longrightarrow>
   \<not> accepts (sc st ps) []"
  by (auto simp: accepts_def scan_eof_def scan_defs json_space_def)

lemma not_done_more: "\<not> accepts (sc (InStringEscU n) ps) []" "\<not> accepts (sc (Literal w) ps) []" "ps \<noteq> [] \<Longrightarrow> \<not> accepts (sc EndValue ps) []"
  by (auto simp: accepts_def scan_eof_def scan_defs json_space_def hex_digit_def digit_def split: list.splits)

text \<open>A literal, a string and a number end where the descent ends them.\<close>

lemma accepts_literal: "w \<noteq> [] \<Longrightarrow> accepts (sc (Literal w) ps) cs \<Longrightarrow> accepts (sc EndValue ps) (drop (length w) cs)"
proof (induction w arbitrary: cs)
  case (Cons x xs)
  then show ?case
    by (cases cs) (auto simp: not_done_more accepts_Cons scan_byte_def split: if_splits)
qed simp

definition number_state :: "sstate \<Rightarrow> bool" where
  "number_state st \<longleftrightarrow> st \<in> {Neg, Digits, Zero, Dot, Dot0, Exp, ExpSign, Exp0}"

lemma num_char_not: "num_char c \<Longrightarrow> accepts (stateEndValue c s) cs \<Longrightarrow> False"
  by (auto simp: stateEndValue_def stateEndTop_def num_char_def digit_def json_space_def split: list.splits pstate.splits if_splits)

lemma number_states:
  "number_state Neg" "number_state Digits" "number_state Zero" "number_state Dot" "number_state Dot0"
  "number_state Exp" "number_state ExpSign" "number_state Exp0"
  by (simp_all add: number_state_def)

lemma number_state_cases:
  assumes "number_state st"
  obtains "st = Neg" | "st = Digits" | "st = Zero" | "st = Dot" | "st = Dot0" | "st = Exp" | "st = ExpSign" | "st = Exp0"
  using assms by (auto simp: number_state_def)

lemma sc_eq [simp]: "sc st ps = sc st' ps' \<longleftrightarrow> st = st' \<and> ps = ps'"
  by (simp add: sc_def)

lemma digit_zero [simp]: "digit (CHR ''0'')"
  by (simp add: digit_def)

lemma number_step:
  "number_state st \<Longrightarrow>
   num_char c \<and> (\<exists>st'. number_state st' \<and> scan_byte c (sc st ps) = sc st' ps)
   \<or> scan_byte c (sc st ps) = to_error (sc st ps)
   \<or> scan_byte c (sc st ps) = stateEndValue c (sc st ps)"
  by (erule number_state_cases)
    (simp_all add: scan_byte_def state0_def stateESign_def num_char_def number_states)

lemma stateEndValue_any: "stateEndValue c (sc st ps) = scan_byte c (sc EndValue ps)"
  by (auto simp: scan_defs popParseState_def split: list.splits pstate.splits)

lemma accepts_number:
  "number_state st \<Longrightarrow> accepts (sc st ps) cs \<Longrightarrow> accepts (sc EndValue ps) (dropWhile num_char cs)"
proof (induction cs arbitrary: st)
  case Nil
  then show ?case
    by (elim number_state_cases; cases ps)
      (simp_all add: accepts_def scan_eof_def scan_defs json_space_def digit_def)
next
  case (Cons c cs)
  from number_step [OF Cons.prems(1), of c ps] show ?case
  proof (elim disjE conjE exE)
    fix st'
    assume "num_char c" "number_state st'" "scan_byte c (sc st ps) = sc st' ps"
    with Cons show ?thesis by (simp add: accepts_Cons)
  next
    assume "scan_byte c (sc st ps) = to_error (sc st ps)"
    with Cons.prems(2) show ?thesis by (simp add: accepts_Cons)
  next
    assume e: "scan_byte c (sc st ps) = stateEndValue c (sc st ps)"
    with Cons.prems(2) have "\<not> num_char c" by (auto simp: accepts_Cons dest: num_char_not)
    with e Cons.prems(2) show ?thesis by (simp add: accepts_Cons stateEndValue_any)
  qed
qed

lemma decode1_cont: "decode1 c cs = (r, n) \<Longrightarrow> list_all (\<lambda>x. 128 \<le> byte x) (take n cs)"
  by (auto simp: decode1_def Let_def split: if_splits list.splits)

lemma string_high: "list_all (\<lambda>x. 128 \<le> byte x) xs \<Longrightarrow> accepts (sc InString ps) (xs @ ys) = accepts (sc InString ps) ys"
  by (induction xs) (simp_all add: accepts_Cons scan_byte_def)

lemma string_hex:
  "accepts (sc (InStringEscU n) ps) (c # cs) \<Longrightarrow>
   hex_digit c \<and> accepts (sc (if n = 3 then InString else InStringEscU (n + 1)) ps) cs"
  by (auto simp: accepts_Cons scan_byte_def split: if_splits)

lemma string_unicode:
  assumes "accepts (sc (InStringEscU 0) ps) es"
  shows "4 \<le> length es \<and> list_all hex_digit (take 4 es) \<and> accepts (sc InString ps) (drop 4 es)"
proof -
  obtain a es1 where 1: "es = a # es1" using assms not_done_more(1) by (cases es) auto
  have a: "hex_digit a \<and> accepts (sc (InStringEscU 1) ps) es1"
    using string_hex [of 0 ps a es1] assms by (simp add: 1)
  then obtain b es2 where 2: "es1 = b # es2" using not_done_more(1) by (cases es1) auto
  have b: "hex_digit b \<and> accepts (sc (InStringEscU 2) ps) es2"
    using string_hex [of 1 ps b es2] a by (simp add: 2 numeral_2_eq_2)
  then obtain c es3 where 3: "es2 = c # es3" using not_done_more(1) by (cases es2) auto
  have c: "hex_digit c \<and> accepts (sc (InStringEscU 3) ps) es3"
    using string_hex [of 2 ps c es3] b by (simp add: 3)
  then obtain d es4 where 4: "es3 = d # es4" using not_done_more(1) by (cases es3) auto
  have d: "hex_digit d \<and> accepts (sc InString ps) es4"
    using string_hex [of 3 ps d es4] c by (simp add: 4)
  from a b c d show ?thesis by (simp add: 1 2 3 4)
qed

lemma string_escape:
  assumes "accepts (sc InString ps) (c # cs)" and "byte c = 0x5C"
  obtains e es where "cs = e # es" and "e \<noteq> CHR ''u'' \<Longrightarrow> accepts (sc InString ps) es"
    and "e = CHR ''u'' \<Longrightarrow> accepts (sc (InStringEscU 0) ps) es"
proof (cases cs)
  case Nil
  with assms not_done [of InStringEsc ps] show thesis by (simp add: accepts_Cons scan_byte_def)
next
  case (Cons e es)
  with assms have "accepts (scan_byte e (sc InStringEsc ps)) es" by (simp add: accepts_Cons scan_byte_def)
  with Cons show thesis by (intro that [of e es]) (auto simp: scan_byte_def split: if_splits)
qed

lemma string_low:
  assumes "accepts (sc InString ps) rest" and "low_surrogate rest = Some r2"
  shows "accepts (sc InString ps) (drop 6 rest)"
proof -
  from assms(2) obtain b cs where r: "rest = b # CHR ''u'' # cs" "byte b = 0x5C"
    by (auto simp: low_surrogate_def Let_def split: list.splits if_splits)
  from assms(1) r(2) have "accepts (sc (InStringEscU 0) ps) cs"
    unfolding r(1) by (rule string_escape) auto
  then show ?thesis using string_unicode by (simp add: r(1))
qed

lemma string_char:
  assumes "accepts (sc InString ps) (c # cs)" and "byte c \<noteq> 0x22"
  shows "\<exists>b r. unquote_char c cs = Some (b, r) \<and> accepts (sc InString ps) r"
proof (cases "byte c = 0x5C")
  case False
  obtain ch n where d: "decode1 c cs = (ch, n)" by fastforce
  have "accepts (sc InString ps) cs" using assms False by (auto simp: accepts_Cons scan_byte_def split: if_splits)
  then have "accepts (sc InString ps) (drop n cs)"
    using string_high [OF decode1_cont [OF d], of ps "drop n cs"] by simp
  with False d show ?thesis by (simp add: unquote_char_def)
next
  case True
  from assms(1) True show ?thesis
  proof (rule string_escape)
    fix e es
    assume e: "cs = e # es" "e \<noteq> CHR ''u'' \<Longrightarrow> accepts (sc InString ps) es"
      "e = CHR ''u'' \<Longrightarrow> accepts (sc (InStringEscU 0) ps) es"
    show ?thesis
    proof (cases "e = CHR ''u''")
      case False
      with e True show ?thesis by (simp add: unquote_char_def)
    next
      case u: True
      note h = string_unicode [OF e(3) [OF u]]
      with True string_low [of ps "drop 4 es"] show ?thesis
        by (auto simp: unquote_char_def e(1) u Let_def simp del: drop_drop split: option.splits)
    qed
  qed
qed

lemma accepts_string:
  "accepts (sc InString ps) cs \<Longrightarrow> \<exists>t r. unquote cs = Some (t, r) \<and> accepts (sc EndValue ps) r"
proof (induction cs rule: unquote.induct)
  case 1
  then show ?case using not_done [of InString ps] by simp
next
  case (2 c cs)
  show ?case
  proof (cases "byte c = 0x22")
    case True
    with 2 show ?thesis by (simp add: accepts_Cons scan_byte_def unquote.simps)
  next
    case False
    with string_char [OF 2(2)] obtain b r where u: "unquote_char c cs = Some (b, r)" "accepts (sc InString ps) r"
      by blast
    from "2.IH" [OF False u(1) refl u(2)] False u(1) show ?thesis by (auto simp: unquote.simps)
  qed
qed

text \<open>Between the brackets: what the scanner demands is what the descent looks for.\<close>

lemma end_expect:
  assumes "accepts (sc EndValue (p # ps)) r"
  obtains (colon) r' where "p = parseObjectKey" "expect (CHR '':'') r = Some r'" "accepts (sc BeginValue (parseObjectValue # ps)) r'"
  | (member) r' where "p = parseObjectValue" "expect (CHR '','') r = Some r'" "accepts (sc BeginString (parseObjectKey # ps)) r'"
  | (close) r' where "p = parseObjectValue" "expect (CHR '','') r = None" "expect (CHR ''}'') r = Some r'" "accepts (sc EndValue ps) r'"
  | (element) r' where "p = parseArrayValue" "expect (CHR '','') r = Some r'" "accepts (sc BeginValue (parseArrayValue # ps)) r'"
  | (close_array) r' where "p = parseArrayValue" "expect (CHR '','') r = None" "expect (CHR '']'') r = Some r'" "accepts (sc EndValue ps) r'"
proof (cases "skip_space r")
  case Nil
  with assms end_skip [of "p # ps" r] not_done_more(3) show thesis by simp
next
  case (Cons c cs)
  have a: "accepts (stateEndValue c (sc EndValue (p # ps))) cs"
    using assms end_skip [of "p # ps" r] Cons by (simp add: accepts_Cons scan_byte_def)
  show thesis
    using a skip_space_head [OF Cons] that
    by (cases p) (auto simp: stateEndValue_def accepts_pop expect_def Cons split: if_splits)
qed

lemma accepts_push: "accepts (pushParseState p st (sc st0 ps)) cs \<Longrightarrow> accepts (sc st (p # ps)) cs"
  by (auto simp: pushParseState_def sc_def Let_def split: if_splits)

lemma accepts_object:
  assumes "accepts (sc BeginStringOrEmpty (parseObjectKey # ps)) cs"
  shows "(\<exists>r. expect (CHR ''}'') cs = Some r \<and> accepts (sc EndValue ps) r)
    \<or> expect (CHR ''}'') cs = None \<and> accepts (sc BeginString (parseObjectKey # ps)) cs"
proof (cases "skip_space cs")
  case Nil
  with assms begin_skip [of BeginStringOrEmpty "parseObjectKey # ps" cs] not_done [of BeginStringOrEmpty] show ?thesis by simp
next
  case (Cons c r)
  from Cons assms begin_skip [of BeginStringOrEmpty "parseObjectKey # ps" cs]
    begin_skip [of BeginString "parseObjectKey # ps" cs] skip_space_head [OF Cons] show ?thesis
    by (auto simp: accepts_Cons scan_byte_def expect_def stateEndValue_def stateBeginString_def accepts_pop split: if_splits)
qed

lemma accepts_array:
  assumes "accepts (sc BeginValueOrEmpty (parseArrayValue # ps)) cs"
  shows "(\<exists>r. expect (CHR '']'') cs = Some r \<and> accepts (sc EndValue ps) r)
    \<or> expect (CHR '']'') cs = None \<and> accepts (sc BeginValue (parseArrayValue # ps)) cs"
proof (cases "skip_space cs")
  case Nil
  with assms begin_skip [of BeginValueOrEmpty "parseArrayValue # ps" cs] not_done [of BeginValueOrEmpty] show ?thesis by simp
next
  case (Cons c r)
  have same: "stateBeginValue c (sc BeginValueOrEmpty (parseArrayValue # ps)) = stateBeginValue c (sc BeginValue (parseArrayValue # ps))"
    if "\<not> json_space c" using that by (auto simp: stateBeginValue_def pushParseState_def to_error_def sc_def)
  from Cons assms begin_skip [of BeginValueOrEmpty "parseArrayValue # ps" cs]
    begin_skip [of BeginValue "parseArrayValue # ps" cs] skip_space_head [OF Cons] show ?thesis
    by (auto simp: accepts_Cons scan_byte_def expect_def stateEndValue_def same accepts_pop split: if_splits)
qed

lemma quote_byte: "of_char c = (34::nat) \<Longrightarrow> c = CHR 0x22"
proof -
  assume "of_char c = (34::nat)"
  then have "of_char c = (of_char (CHR 0x22) :: nat)" by simp
  then show ?thesis by (simp only: of_char_eq_iff)
qed

lemma parse_value_scalar:
  assumes "skip_space s = c # cs" and "c \<noteq> CHR ''{''" and "c \<noteq> CHR ''[''"
    and "accepts (stateBeginValue c (sc BeginValue ps)) cs"
  shows "\<exists>v r. parse_value s = Some (v, r) \<and> accepts (sc EndValue ps) r"
proof -
  note ns = skip_space_head [OF assms(1)]
  have literals: "accepts (sc (Literal ''rue'') ps) cs \<Longrightarrow> accepts (sc EndValue ps) (drop 3 cs)"
    "accepts (sc (Literal ''ull'') ps) cs \<Longrightarrow> accepts (sc EndValue ps) (drop 3 cs)"
    "accepts (sc (Literal ''alse'') ps) cs \<Longrightarrow> accepts (sc EndValue ps) (drop 4 cs)"
    using accepts_literal [of "''rue''" ps cs] accepts_literal [of "''ull''" ps cs] accepts_literal [of "''alse''" ps cs]
    by (simp_all add: eval_nat_numeral)
  consider "byte c = 34" | "byte c \<noteq> 34" "c = CHR ''t''" | "byte c \<noteq> 34" "c = CHR ''f''" | "byte c \<noteq> 34" "c = CHR ''n''"
    | "byte c \<noteq> 34" "c \<noteq> CHR ''t''" "c \<noteq> CHR ''f''" "c \<noteq> CHR ''n''" by blast
  then show ?thesis
  proof cases
    case 1
    with assms ns have "accepts (sc InString ps) cs" by (simp add: stateBeginValue_def)
    from accepts_string [OF this] 1 assms(1-3) show ?thesis by (auto simp: parse_value.simps [of s])
  next
    case 5
    then have "num_char c \<and> (\<exists>st. number_state st \<and> accepts (sc st ps) cs)"
      using assms(2-4) ns
      by (auto simp: stateBeginValue_def num_char_def intro: number_states split: if_splits)
    then show ?thesis using accepts_number 5 assms(1-3) by (auto simp: parse_value.simps [of s])
  qed (use assms ns literals in \<open>auto simp: stateBeginValue_def parse_value.simps [of s]\<close>)
qed

lemma accepts_parse:
  "accepts (sc BeginValue ps) s \<Longrightarrow> \<exists>v r. parse_value s = Some (v, r) \<and> accepts (sc EndValue ps) r"
  "accepts (sc BeginValue (parseArrayValue # ps)) s \<Longrightarrow> \<exists>vs r. parse_elements s = Some (vs, r) \<and> accepts (sc EndValue ps) r"
  "accepts (sc BeginString (parseObjectKey # ps)) s \<Longrightarrow> \<exists>kvs r. parse_members s = Some (kvs, r) \<and> accepts (sc EndValue ps) r"
proof (induction s and s and s arbitrary: ps and ps and ps rule: parse_value_parse_elements_parse_members.induct)
  case (1 s)
  have a: "accepts (sc BeginValue ps) (skip_space s)" using 1(3) begin_skip [of BeginValue ps s] by simp
  with not_done [of BeginValue ps] obtain c cs where s: "skip_space s = c # cs" by (cases "skip_space s") auto
  have b: "accepts (stateBeginValue c (sc BeginValue ps)) cs" using a s by (simp add: accepts_Cons scan_byte_def)
  note ns = skip_space_head [OF s]
  consider "c = CHR ''{''" | "c = CHR ''[''" | "c \<noteq> CHR ''{''" "c \<noteq> CHR ''[''" by blast
  then show ?case
  proof cases
    case 1
    with b ns have "accepts (sc BeginStringOrEmpty (parseObjectKey # ps)) cs"
      by (simp add: stateBeginValue_def accepts_push)
    from accepts_object [OF this] "1.IH"(1) [OF s 1] 1 s show ?thesis by (fastforce simp: parse_value.simps [of s])
  next
    case 2
    with b ns have "accepts (sc BeginValueOrEmpty (parseArrayValue # ps)) cs"
      by (simp add: stateBeginValue_def accepts_push)
    from accepts_array [OF this] "1.IH"(2) [OF s _ 2] 2 s show ?thesis by (fastforce simp: parse_value.simps [of s])
  next
    case 3
    with parse_value_scalar [OF s _ _ b] show ?thesis by blast
  qed
next
  case (2 s)
  from "2.IH"(1) [OF "2.prems"] obtain v r where p: "parse_value s = Some (v, r)" "accepts (sc EndValue (parseArrayValue # ps)) r"
    by blast
  from p(2) show ?case
  proof (cases rule: end_expect)
    case (element r')
    have l: "length r' < length s" using parse_shorter(1) [OF p(1)] expect_length [OF element(2)] by simp
    from "2.IH"(2) [OF p(1) refl element(2) l element(3)] element(2) l p(1) show ?thesis
      by (auto simp: parse_elements.simps [of s])
  next
    case (close_array r')
    with p(1) show ?thesis by (simp add: parse_elements.simps [of s])
  qed simp_all
next
  case (3 s)
  have a: "accepts (sc BeginString (parseObjectKey # ps)) (skip_space s)"
    using 3(3) begin_skip [of BeginString "parseObjectKey # ps" s] by simp
  with not_done [of BeginString] obtain c cs where s: "skip_space s = c # cs" by (cases "skip_space s") auto
  with a skip_space_head [OF s] have q: "expect (CHR 0x22) s = Some cs" "accepts (sc InString (parseObjectKey # ps)) cs"
    by (auto simp: accepts_Cons scan_byte_def stateBeginString_def expect_def dest: quote_byte split: if_splits)
  from accepts_string [OF q(2)] obtain k r0 where u: "unquote cs = Some (k, r0)" "accepts (sc EndValue (parseObjectKey # ps)) r0"
    by blast
  from u(2) obtain r1 where c: "expect (CHR '':'') r0 = Some r1" "accepts (sc BeginValue (parseObjectValue # ps)) r1"
    by (cases rule: end_expect) auto
  have l: "length r1 < length s"
    using expect_length [OF q(1)] unquote_length [OF u(1)] expect_length [OF c(1)] by simp
  from "3.IH"(1) [OF q(1) u(1) refl c(1) l c(2)] obtain v r where
    p: "parse_value r1 = Some (v, r)" "accepts (sc EndValue (parseObjectValue # ps)) r" by blast
  from p(2) show ?case
  proof (cases rule: end_expect)
    case (member r')
    have l': "length r' < length s" using parse_shorter(1) [OF p(1)] expect_length [OF member(2)] l by simp
    from "3.IH"(2) [OF q(1) u(1) refl c(1) l p(1) refl member(2) l' member(3)] member(2) l l' p(1) q(1) u(1) c(1) show ?thesis
      by (auto simp: parse_members.simps [of s])
  next
    case (close r')
    with p(1) q(1) u(1) c(1) l show ?thesis by (simp add: parse_members.simps [of s])
  qed simp_all
qed

text \<open>\<open>Unmarshal\<close> refuses a document exactly where \<open>Valid\<close> does.\<close>

lemma parse_doc_Valid: "json_Valid s \<longleftrightarrow> (\<exists>v. parse_doc s = Some v)"
proof -
  have "reset = sc BeginValue []" by (simp add: reset_def sc_def)
  then show ?thesis using accepts_parse(1) [of "[]" s] by (auto simp: parse_doc_def json_Valid_def accepts_def)
qed

end
