(* ===== verification/Go_Format.thy ===== *)
theory Go_Format
  imports Go_Num
begin

text \<open>
  Numbers printed with package \<open>strconv\<close>, as the JSON encoder prints them: a double with the fewest digits
  that still denote it, the closest such decimal, in positional notation or with an exponent. Every
  finite double has one with at most 17 digits, and reading it gives the double back.
\<close>

subsection \<open>The shortest decimal\<close>

text \<open>The decimal digits of an integer, counted down by division.\<close>

function dec_digits :: "int \<Rightarrow> string" where
  "dec_digits n = (if n < 10 then [chr (48 + nat n)] else dec_digits (n div 10) @ [chr (48 + nat (n mod 10))])"
  by auto
termination by (relation "measure nat") auto

declare dec_digits.simps [simp del]

text \<open>\<open>10 ^ k \<le> x < 10 ^ (k + 1)\<close> for a positive \<open>x\<close>.\<close>

definition decimal_exponent :: "rat \<Rightarrow> int" where
  "decimal_exponent x =
     (let (a, b) = quotient_of x; k = int (length (dec_digits a)) - int (length (dec_digits b)) in
      if pow_int 10 k \<le> x then k else k - 1)"

text \<open>The decimals of \<open>n\<close> digits around \<open>x\<close>, the nearest one first: \<open>(c, k)\<close> stands for \<open>c * 10 ^ k\<close>.\<close>

definition decimals :: "rat \<Rightarrow> nat \<Rightarrow> (int \<times> int) list" where
  "decimals x n =
     (let k = decimal_exponent x - int n + 1; q = x / pow_int 10 k
      in [(round_even q, k), (\<lfloor>q\<rfloor>, k), (\<lfloor>q\<rfloor> + 1, k)])"

definition denotes :: "rat \<Rightarrow> int \<times> int \<Rightarrow> bool" where
  "denotes x d \<longleftrightarrow> 0 < fst d \<and> round_double (of_int (fst d) * pow_int 10 (snd d)) = Fin x"

text \<open>From \<open>n\<close> digits on, \<open>m\<close> more tries.\<close>

fun shortest_from :: "rat \<Rightarrow> nat \<Rightarrow> nat \<Rightarrow> (int \<times> int) option" where
  "shortest_from x n 0 = None"
| "shortest_from x n (Suc m) =
     (case find (denotes x) (decimals x n) of Some d \<Rightarrow> Some d | None \<Rightarrow> shortest_from x (Suc n) m)"

definition shortest :: "rat \<Rightarrow> (int \<times> int) option" where
  "shortest x = shortest_from x 1 17"

function trim_zeros :: "int \<times> int \<Rightarrow> int \<times> int" where
  "trim_zeros (c, k) = (if 0 < c \<and> c mod 10 = 0 then trim_zeros (c div 10, k + 1) else (c, k))"
  by pat_completeness auto
termination by (relation "measure (nat \<circ> fst)") auto

declare trim_zeros.simps [simp del]

text \<open>Positional notation, and notation with an exponent, of \<open>c * 10 ^ k\<close> for a positive \<open>c\<close>.\<close>

definition format_f :: "int \<times> int \<Rightarrow> string" where
  "format_f d =
     (let ds = dec_digits (fst d); dp = int (length ds) + snd d in
      (if 0 < dp then take (nat dp) ds @ replicate (nat dp - length ds) (CHR ''0'') else ''0'')
      @ (if snd d < 0 then CHR ''.'' # replicate (nat (- dp)) (CHR ''0'') @ drop (nat dp) ds else []))"

definition format_e :: "int \<times> int \<Rightarrow> string" where
  "format_e d =
     (let ds = dec_digits (fst d); e = int (length ds) + snd d - 1 in
      hd ds # (if tl ds = [] then [] else CHR ''.'' # tl ds)
      @ CHR ''e'' # (if e < 0 then CHR ''-'' else CHR ''+'') # dec_digits \<bar>e\<bar>)"

text \<open>
  The float encoder of \<open>encoding/json\<close>: an exponent below \<open>1e-6\<close> and from \<open>1e21\<close> on, with no zero in front of it; a
  value that is not finite is refused.
\<close>

definition format_pos :: "rat \<Rightarrow> string" where
  "format_pos q =
     (let d = trim_zeros (the (shortest q)) in
      if flt_less (Fin q) (round_double (1 / 1000000)) \<or> \<not> flt_less (Fin q) (round_double (10 ^ 21))
      then format_e d else format_f d)"

definition json_float :: "float64 \<Rightarrow> string option" where
  "json_float x =
     (case x of
        Fin q \<Rightarrow> Some (if q = 0 then ''0'' else if q < 0 then CHR ''-'' # format_pos (- q) else format_pos q)
      | _ \<Rightarrow> None)"

subsection \<open>Digits\<close>

lemma dec_digits_eq: "0 \<le> n \<Longrightarrow> dec_digits n = digits (nat n)"
proof (induction n rule: dec_digits.induct)
  case (1 n)
  show ?case
  proof (cases "n < 10")
    case True
    with 1 show ?thesis by (subst dec_digits.simps, subst digits.simps) (simp add: nat_less_iff)
  next
    case False
    with 1 have "dec_digits (n div 10) = digits (nat n div 10)" by (simp add: nat_div_distrib)
    with False 1(2) show ?thesis
      by (subst dec_digits.simps, subst digits.simps) (simp add: nat_mod_distrib nat_less_iff)
  qed
qed

lemma digits_length: "0 < n \<Longrightarrow> 10 ^ (length (digits n) - 1) \<le> n \<and> n < 10 ^ length (digits n)"
proof (induction n rule: digits.induct)
  case (1 n)
  show ?case
  proof (cases "n < 10")
    case True
    with 1 show ?thesis by (subst (1 2) digits.simps) simp
  next
    case False
    let ?l = "length (digits (n div 10))"
    have ih: "10 ^ (?l - 1) \<le> n div 10" "n div 10 < 10 ^ ?l" using 1 False by auto
    have l: "length (digits n) = Suc ?l" "0 < ?l" using False digits_nonempty [of "n div 10"] by (simp_all add: digits.simps [of n])
    have "10 * 10 ^ (?l - 1) \<le> n" "n < 10 * 10 ^ ?l" using ih by linarith+
    moreover have "10 ^ ?l = (10::nat) * 10 ^ (?l - 1)" using l(2) by (cases ?l) simp_all
    ultimately show ?thesis by (simp add: l(1))
  qed
qed

lemma pow10: "pow_int 10 k = (10::rat) powi k"
  by (simp add: pow_int_def power_int_def field_simps)

lemma pow10_pos [simp]: "0 < pow_int 10 k"
  by (simp add: pow10)

lemma pow10_nonzero [simp]: "pow_int 10 k \<noteq> 0"
  by (simp add: pow10)

lemma pow10_not_neg [simp]: "\<not> pow_int 10 k < 0"
  by (simp add: pow10 not_less)

lemma pow10_add: "pow_int 10 (i + j) = pow_int 10 i * pow_int 10 j"
  by (simp add: pow10 power_int_add)

lemma dec_digits_length:
  assumes "0 < a"
  shows "pow_int 10 (int (length (dec_digits a)) - 1) \<le> of_int a \<and> of_int a < pow_int 10 (int (length (dec_digits a)))"
proof -
  let ?l = "length (digits (nat a))"
  have l: "1 \<le> ?l" using digits_nonempty [of "nat a"] by (simp add: Suc_le_eq)
  have b: "10 ^ (?l - 1) \<le> nat a" "nat a < 10 ^ ?l" using digits_length [of "nat a"] assms by auto
  have "(of_nat (10 ^ (?l - 1)) :: rat) \<le> of_nat (nat a)" "(of_nat (nat a) :: rat) < of_nat (10 ^ ?l)"
    using b by (simp_all only: of_nat_le_iff of_nat_less_iff)
  then show ?thesis using assms l by (simp add: dec_digits_eq pow_int_def nat_diff_distrib)
qed

lemma decimal_exponent_bounds:
  assumes "0 < x"
  shows "pow_int 10 (decimal_exponent x) \<le> x \<and> x < pow_int 10 (decimal_exponent x + 1)"
proof -
  obtain a b where q: "quotient_of x = (a, b)" by fastforce
  then have x: "x = of_int a / of_int b" and b: "0 < b" by (simp_all add: quotient_of_div quotient_of_denom_pos)
  with assms have a: "0 < a" by (simp add: zero_less_divide_iff)
  define la lb where "la = int (length (dec_digits a))" and "lb = int (length (dec_digits b))"
  note da = dec_digits_length [OF a, folded la_def] and db = dec_digits_length [OF b, folded lb_def]
  have "pow_int 10 (la - lb - 1) * of_int b \<le> of_int a"
  proof -
    have "pow_int 10 (la - lb - 1) * of_int b \<le> pow_int 10 (la - lb - 1) * pow_int 10 lb"
      using db by (intro mult_left_mono) (simp_all add: less_imp_le)
    also have "\<dots> = pow_int 10 (la - 1)" by (simp flip: pow10_add)
    finally show ?thesis using da by linarith
  qed
  moreover have "of_int a < pow_int 10 (la - lb + 1) * of_int b"
  proof -
    have "pow_int 10 la = pow_int 10 (la - lb + 1) * pow_int 10 (lb - 1)" by (simp flip: pow10_add)
    also have "\<dots> \<le> pow_int 10 (la - lb + 1) * of_int b" using db by (intro mult_left_mono) (simp_all add: less_imp_le)
    finally show ?thesis using da by linarith
  qed
  ultimately have "pow_int 10 (la - lb - 1) \<le> x" "x < pow_int 10 (la - lb + 1)" using b by (simp_all add: x field_simps)
  then show ?thesis by (auto simp: decimal_exponent_def q la_def lb_def Let_def)
qed

subsection \<open>Seventeen digits are enough\<close>

lemma round_even_near: "\<bar>z - of_int m\<bar> < 1 / 2 \<Longrightarrow> round_even z = m"
proof -
  assume a: "\<bar>z - of_int m\<bar> < 1 / 2"
  consider "of_int m \<le> z" | "z < of_int m" by linarith
  then show ?thesis
  proof cases
    case 1
    with a have "\<lfloor>z\<rfloor> = m" "z - of_int m < 1 / 2" by (simp_all add: floor_unique)
    with 1 show ?thesis by (simp add: round_even_def Let_def)
  next
    case 2
    with a have "\<lfloor>z\<rfloor> = m - 1" by (intro floor_unique) simp_all
    moreover have "1 / 2 < z - of_int (m - 1)" using a 2 by simp
    ultimately show ?thesis using 2 by (simp add: round_even_def Let_def)
  qed
qed

lemma round_even_error: "\<bar>of_int (round_even z) - z\<bar> \<le> 1 / 2"
proof -
  have "of_int \<lfloor>z\<rfloor> \<le> z" "z < of_int \<lfloor>z\<rfloor> + 1" by linarith+
  then show ?thesis by (auto simp: round_even_def Let_def)
qed

text \<open>The binade of a positive double: its exponent, the exponent of its unit, and its multiple of the unit.\<close>

lemma double_parts:
  assumes "0 < x" and "round_double x = Fin x"
  obtains e p m where "two_pow e \<le> x" "x < two_pow (e + 1)" "p = max (e - 52) (- 1074)" "p \<le> e" "x = of_int m * two_pow p"
    "x < two_pow 1024"
proof -
  define e where "e = binary_exponent x"
  define p where "p = max (e - 52) (- 1074)"
  have r: "round_pos x = x" "x < two_pow 1024"
    using assms by (auto simp: round_double_def Let_def not_le split: if_splits)
  define m where "m = round_even (x / two_pow p)"
  have x: "x = of_int m * two_pow p" using r(1) by (simp add: round_pos_def Let_def m_def p_def e_def)
  note b = binary_exponent_bounds [OF assms(1), folded e_def]
  have "0 < m" using assms(1) x two_pow_pos [of p] by (metis mult_less_cancel_right_pos mult_zero_left of_int_0_less_iff)
  then have "two_pow p \<le> x" using mult_right_mono [of 1 "of_int m" "two_pow p"] x by (simp add: less_imp_le)
  then have "two_pow p < two_pow (e + 1)" using b by linarith
  then have "p \<le> e" using two_pow_less_cancel by fastforce
  with that b x r(2) p_def show thesis by blast
qed

lemma two_pow_step: "two_pow (k + 1) = 2 * two_pow k" "two_pow (k - 1) = two_pow k / 2"
  using two_pow_add [of k 1] two_pow_add [of "k - 1" 1] by (simp_all add: two_pow_def [of 1])

lemma round_pos_unit:
  assumes "0 < y" and "max (binary_exponent y - 52) (- 1074) = p" and "\<bar>y - of_int m * two_pow p\<bar> < two_pow p / 2"
  shows "round_pos y = of_int m * two_pow p"
proof -
  have "\<bar>y - of_int m * two_pow p\<bar> / two_pow p < 1 / 2" using assms(3) by (simp add: field_simps)
  moreover have "\<bar>y - of_int m * two_pow p\<bar> / two_pow p = \<bar>y / two_pow p - of_int m\<bar>"
  proof -
    have "y / two_pow p - of_int m = (y - of_int m * two_pow p) / two_pow p" by (simp add: field_simps)
    then show ?thesis by (simp add: abs_divide less_imp_le)
  qed
  ultimately have "round_even (y / two_pow p) = m" by (intro round_even_near) simp
  then show ?thesis using assms(2) by (simp add: round_pos_def)
qed

lemma multiple_gap:
  assumes "p \<le> e" and "of_int m * two_pow p < two_pow e"
  shows "of_int m * two_pow p \<le> two_pow e - two_pow p"
proof -
  have e: "two_pow e = of_int (2 ^ nat (e - p)) * two_pow p"
    using two_pow_div_int [OF assms(1)] by (simp add: field_simps)
  have "(of_int m :: rat) < of_int (2 ^ nat (e - p))"
    using assms(2) unfolding e by (simp add: mult_less_cancel_right_pos)
  then have "m + 1 \<le> 2 ^ nat (e - p)" by (simp only: of_int_less_iff)
  then have "(of_int (m + 1) :: rat) * two_pow p \<le> of_int (2 ^ nat (e - p)) * two_pow p"
    by (intro mult_right_mono) (simp_all only: of_int_le_iff less_imp_le two_pow_pos)
  then show ?thesis unfolding e by (simp add: algebra_simps)
qed

lemma multiple_above:
  assumes "p \<le> e" and "two_pow e < of_int m * two_pow p"
  shows "two_pow e + two_pow p \<le> of_int m * two_pow p"
proof -
  have e: "two_pow e = of_int (2 ^ nat (e - p)) * two_pow p"
    using two_pow_div_int [OF assms(1)] by (simp add: field_simps)
  have "2 ^ nat (e - p) + 1 \<le> m"
    using assms(2) unfolding e by (simp only: mult_less_cancel_right_pos two_pow_pos of_int_less_iff)
  then have "(of_int (2 ^ nat (e - p) + 1) :: rat) * two_pow p \<le> of_int m * two_pow p"
    by (intro mult_right_mono) (simp_all only: of_int_le_iff less_imp_le two_pow_pos)
  then show ?thesis unfolding e by (simp add: algebra_simps)
qed

text \<open>A number closer to a double than half the way to its neighbours rounds to it.\<close>

lemma near_double:
  assumes "0 < x" and "round_double x = Fin x" and "0 < y" and "two_pow e \<le> x" "x < two_pow (e + 1)"
    and "p = max (e - 52) (- 1074)" and "\<bar>y - x\<bar> < two_pow p / 2" and "x = two_pow e \<Longrightarrow> \<bar>y - x\<bar> < two_pow p / 4"
  shows "round_double y = Fin x"
proof -
  obtain e' p' m where "two_pow e' \<le> x" "x < two_pow (e' + 1)" and parts: "p' = max (e' - 52) (- 1074)" "p' \<le> e'"
    "x = of_int m * two_pow p'" "x < two_pow 1024"
    using double_parts [OF assms(1,2)] by blast
  with assms(4,5) binary_exponent_eq [of e x] binary_exponent_eq [of e' x] have "e' = e" by simp
  then have pe: "p \<le> e" and x: "x = of_int m * two_pow p" using parts assms(6) by auto
  have top: "x \<le> two_pow (e + 1) - two_pow p" using multiple_gap [of p "e + 1" m] pe assms(5) by (simp add: x)
  have y: "y < two_pow (e + 1)" using top assms(7) two_pow_pos [of p] by linarith
  have "round_pos y = x"
  proof (cases "two_pow e \<le> y \<or> e - 52 \<le> - 1074")
    case True
    have "max (binary_exponent y - 52) (- 1074) = p"
    proof (cases "two_pow e \<le> y")
      case True
      then show ?thesis using binary_exponent_eq [OF _ y] assms(6) by simp
    next
      case False
      have "two_pow (binary_exponent y) < two_pow e" using binary_exponent_bounds [OF assms(3)] False by linarith
      then have "binary_exponent y < e" by (rule two_pow_less_cancel)
      with True False assms(6) show ?thesis by simp
    qed
    with round_pos_unit [OF assms(3), of p m] assms(7) show ?thesis by (simp add: x)
  next
    case False
    then have p: "p = e - 52" "- 1074 < p" using assms(6) by auto
    have "x = two_pow e" using multiple_above [OF pe, of m] assms(4,7) False two_pow_pos [of p] unfolding x by linarith
    then have d: "\<bar>y - x\<bar> < two_pow (p - 1) / 2" using assms(8) by (simp add: two_pow_step)
    have "two_pow (p - 1) \<le> two_pow e" using pe by (intro two_pow_mono) simp
    then have "two_pow (e - 1) \<le> y" using d \<open>x = two_pow e\<close> two_pow_step(2) [of e] by linarith
    with False have "binary_exponent y = e - 1" by (intro binary_exponent_eq) auto
    then have "max (binary_exponent y - 52) (- 1074) = p - 1" using p by simp
    moreover have "x = of_int (2 ^ nat (e - (p - 1))) * two_pow (p - 1)"
      using two_pow_div_int [of "p - 1" e] pe \<open>x = two_pow e\<close> by (simp add: field_simps)
    ultimately show ?thesis using round_pos_unit [OF assms(3)] d by metis
  qed
  then show ?thesis using assms(1,3) parts(4) by (simp add: round_double_def)
qed

lemma pow10_2_53: "pow_int 10 k \<le> two_pow e \<Longrightarrow> 2 * pow_int 10 (k - 16) < two_pow (e - 52)"
proof -
  assume a: "pow_int 10 k \<le> two_pow e"
  have "pow_int 10 k = pow_int 10 (k - 16) * 10 ^ 16" using pow10_add [of "k - 16" 16] by (simp add: pow_int_def [of 10 16])
  moreover have "two_pow e = two_pow (e - 52) * 2 ^ 52" using two_pow_add [of "e - 52" 52] by (simp add: two_pow_def [of 52])
  ultimately have "pow_int 10 (k - 16) * 10 ^ 16 \<le> two_pow (e - 52) * 2 ^ 52" using a by simp
  then have "152587890625 * pow_int 10 (k - 16) \<le> 68719476736 * two_pow (e - 52)" by simp
  with two_pow_pos [of "e - 52"] show ?thesis by linarith
qed

lemma seventeen_digits:
  assumes "0 < x" and "round_double x = Fin x"
  shows "find (denotes x) (decimals x 17) \<noteq> None"
proof -
  define k where "k = decimal_exponent x"
  let ?s = "pow_int 10 (k - 16)"
  define c where "c = round_even (x / ?s)"
  let ?y = "of_int c * ?s"
  obtain e p m where e: "two_pow e \<le> x" "x < two_pow (e + 1)" "p = max (e - 52) (- 1074)"
    using double_parts [OF assms] by blast
  have k: "pow_int 10 k \<le> x" using decimal_exponent_bounds [OF assms(1)] by (simp add: k_def)
  have up: "two_pow (e - 52) \<le> two_pow p" using e(3) by (intro two_pow_mono) simp
  have s: "?s < two_pow (e - 52)"
    using pow10_2_53 [of k "e + 1"] k e(2) two_pow_step(1) [of "e - 52"] by (simp add: algebra_simps)
  have "\<bar>of_int c - x / ?s\<bar> * ?s \<le> 1 / 2 * ?s"
    unfolding c_def by (intro mult_right_mono round_even_error) (simp add: less_imp_le)
  moreover have "\<bar>of_int c - x / ?s\<bar> * ?s = \<bar>(of_int c - x / ?s) * ?s\<bar>" by (simp add: abs_mult less_imp_le)
  moreover have "(of_int c - x / ?s) * ?s = ?y - x" by (simp add: field_simps)
  ultimately have d: "\<bar>?y - x\<bar> \<le> ?s / 2" by simp
  have "pow_int 10 k = ?s * 10000000000000000" using pow10_add [of "k - 16" 16] by (simp add: pow_int_def [of 10 16])
  then have y: "0 < ?y" using d k pow10_pos [of "k - 16"] by linarith
  have "round_double ?y = Fin x"
  proof (rule near_double [OF assms y e])
    show "\<bar>?y - x\<bar> < two_pow p / 2" using d s up by linarith
    assume "x = two_pow e"
    then show "\<bar>?y - x\<bar> < two_pow p / 4" using d k pow10_2_53 [of k e] up by simp
  qed
  moreover have "0 < c" using y by (simp add: zero_less_mult_iff less_asym')
  ultimately have "denotes x (c, k - 16)" by (simp add: denotes_def)
  then show ?thesis by (simp add: decimals_def k_def c_def Let_def)
qed

lemma find_denotes: "find (denotes x) ds = Some d \<Longrightarrow> denotes x d"
  by (auto simp: find_Some_iff)

lemma shortest_from_Some: "shortest_from x n m = Some d \<Longrightarrow> denotes x d"
  by (induction x n m rule: shortest_from.induct) (auto dest: find_denotes split: option.splits)

lemma shortest_from_exists:
  "find (denotes x) (decimals x k) \<noteq> None \<Longrightarrow> n \<le> k \<Longrightarrow> k < n + m \<Longrightarrow> shortest_from x n m \<noteq> None"
proof (induction x n m rule: shortest_from.induct)
  case (2 x n m)
  then show ?case by (cases "n = k") (auto split: option.splits)
qed simp

lemma shortest_denotes:
  assumes "0 < x" and "round_double x = Fin x"
  shows "denotes x (the (shortest x))"
proof -
  have "shortest x \<noteq> None"
    unfolding shortest_def by (rule shortest_from_exists [OF seventeen_digits [OF assms]]) simp_all
  then show ?thesis using shortest_from_Some by (auto simp: shortest_def)
qed

lemma trim_zeros_value:
  "0 < fst d \<Longrightarrow> 0 < fst (trim_zeros d) \<and> of_int (fst (trim_zeros d)) * pow_int 10 (snd (trim_zeros d)) = of_int (fst d) * pow_int 10 (snd d)"
proof (induction d rule: trim_zeros.induct)
  case (1 c k)
  show ?case
  proof (cases "0 < c \<and> c mod 10 = 0")
    case True
    then have c: "c = c div 10 * 10" "0 < c div 10" by auto
    have "of_int c * pow_int 10 k = of_int (c div 10) * pow_int 10 (k + 1)"
      using pow10_add [of k 1] by (subst c(1)) (simp add: pow_int_def [of 10 1])
    with 1 True c(2) show ?thesis by (simp add: trim_zeros.simps [of c k])
  next
    case False
    with 1 show ?thesis by (subst (1 2 3) trim_zeros.simps) simp
  qed
qed

subsection \<open>Printed doubles are read back\<close>

lemma hex_val_digit: "digit c \<Longrightarrow> hex_val c = digit_val c"
  by (simp add: hex_val_def)

lemma digit_marks: "\<not> digit (CHR ''_'')" "\<not> digit (CHR ''.'')" "\<not> digit (CHR ''e'')" "\<not> digit (CHR ''-'')" "\<not> digit (CHR ''+'')"
  by (simp_all add: digit_def)

lemma digit_not: "digit c \<Longrightarrow> c \<noteq> CHR ''_'' \<and> c \<noteq> CHR ''.'' \<and> c \<noteq> CHR ''-'' \<and> c \<noteq> CHR ''+'' \<and> c \<noteq> CHR ''e''"
  using digit_marks by auto

lemma dec_val_append: "dec_val (s @ t) = dec_val s * 10 ^ length t + dec_val t"
proof -
  have "foldl (\<lambda>n c. n * 10 + digit_val c) a t = a * 10 ^ length t + dec_val t" for a
    unfolding dec_val_def
  proof (induction t arbitrary: a)
    case (Cons c t)
    have "foldl (\<lambda>n c. n * 10 + digit_val c) a (c # t) =
        (a * 10 + digit_val c) * 10 ^ length t + foldl (\<lambda>n c. n * 10 + digit_val c) 0 t"
      using Cons [of "a * 10 + digit_val c"] by simp
    moreover have "foldl (\<lambda>n c. n * 10 + digit_val c) 0 (c # t) =
        digit_val c * 10 ^ length t + foldl (\<lambda>n c. n * 10 + digit_val c) 0 t"
      using Cons [of "digit_val c"] by simp
    ultimately show ?case by (simp add: distrib_right)
  qed simp
  from this [of "dec_val s"] show ?thesis by (simp only: dec_val_def foldl_append)
qed

lemma dec_val_Nil [simp]: "dec_val [] = 0"
  by (simp add: dec_val_def)

lemma mantissa_digits:
  "list_all digit ds \<Longrightarrow> mantissa False (ds @ r) dot saw m fd =
     mantissa False r dot (saw \<or> ds \<noteq> []) (m * 10 ^ length ds + dec_val ds) (fd + (if dot then int (length ds) else 0))"
proof (induction ds arbitrary: saw m fd)
  case (Cons c ds)
  then have c: "digit c" by simp
  have "dec_val (c # ds) = digit_val c * 10 ^ length ds + dec_val ds"
    using dec_val_append [of "[c]" ds] by (simp add: dec_val_def)
  with Cons c digit_not [OF c] show ?case by (simp add: hex_val_digit algebra_simps)
qed (simp add: dec_val_def)

lemma zeros: "list_all digit (replicate n (CHR ''0''))" "dec_val (replicate n (CHR ''0'')) = 0"
proof -
  show "list_all digit (replicate n (CHR ''0''))" by (induction n) (simp_all add: digit_def)
  have "digit_val (CHR ''0'') = 0" by (simp add: digit_val_def)
  then show "dec_val (replicate n (CHR ''0'')) = 0"
    by (induction n) (simp_all add: dec_val_append [of "[CHR ''0'']", simplified] dec_val_def)
qed

lemma digit_lower1: "digit c \<Longrightarrow> lower1 c \<noteq> CHR ''x''"
proof -
  assume "digit c"
  then have "byte c = 48 \<or> byte c = 49 \<or> byte c = 50 \<or> byte c = 51 \<or> byte c = 52 \<or> byte c = 53
      \<or> byte c = 54 \<or> byte c = 55 \<or> byte c = 56 \<or> byte c = 57"
    unfolding digit_def byte_def by arith
  then show ?thesis by (elim disjE) (simp_all add: lower1_def char_of_def)
qed

lemma lower1_marks: "lower1 (CHR ''.'') = CHR ''.''" "lower1 (CHR ''e'') = CHR ''e''"
  by code_simp+

lemma read_float_plain:
  assumes "split_sign s = (False, s)" and "\<not> (length s > 2 \<and> s ! 0 = CHR ''0'' \<and> lower1 (s ! 1) = CHR ''x'')"
    and "mantissa False s False False 0 0 = ((True, m, fd), t)" and "exponent False t = Some e" and "CHR ''_'' \<notin> set s"
  shows "read_float s = Some (of_int m * pow_int 10 (e - fd))"
  unfolding read_float_def using assms by auto

text \<open>
  A number as JSON writes it, without its sign: an integral part with no superfluous zero, a
  fraction, and an exponent with a sign.
\<close>

definition decimal_text :: "string \<Rightarrow> string \<Rightarrow> string \<Rightarrow> string" where
  "decimal_text u w t = u @ (if w = [] then [] else CHR ''.'' # w) @ t"

definition exp_text :: "string \<Rightarrow> bool" where
  "exp_text t \<longleftrightarrow> t = [] \<or> (\<exists>sg x. t = CHR ''e'' # sg # x \<and> (sg = CHR ''+'' \<or> sg = CHR ''-'') \<and> x \<noteq> [] \<and> list_all digit x)"

definition number_parts :: "string \<Rightarrow> string \<Rightarrow> string \<Rightarrow> bool" where
  "number_parts u w t \<longleftrightarrow> list_all digit u \<and> list_all digit w \<and> u \<noteq> [] \<and> (u = ''0'' \<or> hd u \<noteq> CHR ''0'') \<and> exp_text t"

lemma number_parts_sign: "number_parts u w t \<Longrightarrow> split_sign (decimal_text u w t) = (False, decimal_text u w t)"
  by (cases u) (auto simp: number_parts_def decimal_text_def dest: digit_not)

lemma number_parts_plain: "number_parts u w t \<Longrightarrow> CHR ''_'' \<notin> set (decimal_text u w t)"
  using digit_marks by (auto simp: number_parts_def decimal_text_def exp_text_def list_all_iff)

lemma read_decimal:
  assumes n: "number_parts u w t" and ex: "exponent False t = Some e"
  shows "read_float (decimal_text u w t) = Some (of_int (dec_val (u @ w)) * pow_int 10 (e - int (length w)))"
proof (rule read_float_plain)
  let ?s = "decimal_text u w t"
  show "split_sign ?s = (False, ?s)" "CHR ''_'' \<notin> set ?s" using number_parts_sign [OF n] number_parts_plain [OF n] by blast+
  have p: "list_all digit u" "list_all digit w" "u \<noteq> []" "exp_text t" using n by (simp_all add: number_parts_def)
  then show "\<not> (length ?s > 2 \<and> ?s ! 0 = CHR ''0'' \<and> lower1 (?s ! 1) = CHR ''x'')"
    using digit_lower1 by (cases u; cases "tl u"; cases w) (auto simp: decimal_text_def exp_text_def lower1_marks)
  have "mantissa False t dot saw m fd = ((saw, m, fd), t)" for dot saw m fd
    using p(4) by (auto simp: exp_text_def digit_marks)
  with p show "mantissa False ?s False False 0 0 = ((True, dec_val (u @ w), int (length w)), t)"
    by (simp add: decimal_text_def mantissa_digits dec_val_append digit_marks)
qed (rule ex)

lemma dec_digits_facts:
  assumes "0 < c"
  shows "list_all digit (dec_digits c)" "dec_digits c \<noteq> []" "dec_val (dec_digits c) = c"
  using assms digits_digit digits_nonempty dec_val_digits by (simp_all add: dec_digits_eq)

lemma digits_head: "0 < n \<Longrightarrow> hd (digits n) \<noteq> CHR ''0''"
proof (induction n rule: digits.induct)
  case (1 n)
  show ?case
  proof (cases "n < 10")
    case True
    have "digit_val (CHR ''0'') = 0" by (simp add: digit_val_def)
    with True 1(2) digit_chr [of n] show ?thesis by (subst digits.simps) (auto simp del: chr_def)
  next
    case False
    with 1 digits_nonempty [of "n div 10"] show ?thesis by (subst digits.simps) simp
  qed
qed

lemma format_f_shape:
  assumes "0 < c"
  shows "\<exists>u w. format_f (c, k) = decimal_text u w [] \<and> number_parts u w []
    \<and> of_int (dec_val (u @ w)) * pow_int 10 (- int (length w)) = (of_int c * pow_int 10 k :: rat)"
proof -
  define ds where "ds = dec_digits c"
  define dp where "dp = int (length ds) + k"
  have ds: "list_all digit ds" "ds \<noteq> []" "dec_val ds = c" unfolding ds_def using dec_digits_facts [OF assms] by blast+
  have h: "hd ds \<noteq> CHR ''0''" unfolding ds_def using digits_head [of "nat c"] assms by (simp add: dec_digits_eq)
  have part: "list_all digit (take n ds)" "list_all digit (drop n ds)" for n
    using ds(1) by (auto simp: list_all_iff dest: in_set_takeD in_set_dropD)
  have f: "format_f (c, k) = (if 0 < dp then take (nat dp) ds @ replicate (nat dp - length ds) (CHR ''0'') else ''0'')
      @ (if k < 0 then CHR ''.'' # replicate (nat (- dp)) (CHR ''0'') @ drop (nat dp) ds else [])"
    by (simp add: format_f_def ds_def dp_def Let_def)
  consider "0 \<le> k" | "k < 0" "0 < dp" | "k < 0" "dp \<le> 0" by linarith
  then show ?thesis
  proof cases
    case 1
    moreover have "0 < length ds" using ds(2) by simp
    ultimately have "0 < dp" "nat dp = length ds + nat k" unfolding dp_def by linarith+
    with 1 have "format_f (c, k) = decimal_text (ds @ replicate (nat k) (CHR ''0'')) [] []" by (simp add: f decimal_text_def)
    moreover have "number_parts (ds @ replicate (nat k) (CHR ''0'')) [] []"
      using ds zeros(1) h by (simp add: number_parts_def exp_text_def)
    moreover have "of_int (dec_val ((ds @ replicate (nat k) (CHR ''0'')) @ [])) * pow_int 10 (- int (length [])) = (of_int c * pow_int 10 k :: rat)"
      using 1 ds(3) zeros(2) by (simp add: dec_val_append pow_int_def)
    ultimately show ?thesis by blast
  next
    case 2
    let ?u = "take (nat dp) ds" and ?w = "drop (nat dp) ds"
    have w: "?w \<noteq> []" "- int (length ?w) = k" "?u \<noteq> []" "hd ?u = hd ds" using 2 ds(2) by (auto simp: dp_def)
    with 2 have "format_f (c, k) = decimal_text ?u ?w []" by (simp add: f decimal_text_def dp_def)
    moreover have "number_parts ?u ?w []" using part w h by (simp add: number_parts_def exp_text_def)
    moreover have "of_int (dec_val (?u @ ?w)) * pow_int 10 (- int (length ?w)) = (of_int c * pow_int 10 k :: rat)"
      unfolding w(2) by (simp add: ds(3))
    ultimately show ?thesis by blast
  next
    case 3
    let ?w = "replicate (nat (- dp)) (CHR ''0'') @ ds"
    have w: "?w \<noteq> []" "- int (length ?w) = k" using 3 ds(2) by (auto simp: dp_def)
    have "format_f (c, k) = decimal_text ''0'' ?w []" using 3 ds(2) by (simp add: f decimal_text_def)
    moreover have "number_parts ''0'' ?w []" using ds zeros(1) by (simp add: number_parts_def exp_text_def digit_def)
    moreover have "dec_val (''0'' @ ?w) = c"
      unfolding dec_val_append [of "''0''"] using zeros(2) [of 1] zeros(2) ds(3) by (simp add: dec_val_append)
    then have "of_int (dec_val (''0'' @ ?w)) * pow_int 10 (- int (length ?w)) = (of_int c * pow_int 10 k :: rat)"
      unfolding w(2) by simp
    ultimately show ?thesis by blast
  qed
qed

lemma exp_digits_digits: "n < 100000 \<Longrightarrow> exp_digits (digits n) = int n"
proof (induction n rule: digits.induct)
  case (1 n)
  show ?case
  proof (cases "n < 10")
    case True
    then show ?thesis using digit_chr [of n] digit_not [of "chr (48 + n)"]
      by (subst digits.simps) (simp add: exp_digits_def del: chr_def)
  next
    case False
    with 1 have "exp_digits (digits (n div 10)) = int (n div 10)" by simp
    moreover have "int (n div 10) < 10000" using 1(2) by simp
    ultimately show ?thesis using False digit_chr [of "n mod 10"] digit_not [of "chr (48 + n mod 10)"]
      by (subst digits.simps) (simp add: exp_digits_def last_digit del: chr_def)
  qed
qed

lemma format_e_shape:
  assumes "0 < c" and "\<bar>int (length (dec_digits c)) + k - 1\<bar> < 100000"
  shows "\<exists>u w t e. format_e (c, k) = decimal_text u w t \<and> number_parts u w t \<and> exponent False t = Some e
    \<and> of_int (dec_val (u @ w)) * pow_int 10 (e - int (length w)) = (of_int c * pow_int 10 k :: rat)"
proof -
  define ds where "ds = dec_digits c"
  define e where "e = int (length ds) + k - 1"
  have ds: "list_all digit ds" "ds \<noteq> []" "dec_val ds = c" unfolding ds_def using dec_digits_facts [OF assms(1)] by blast+
  have h: "hd ds \<noteq> CHR ''0''" unfolding ds_def using digits_head [of "nat c"] assms(1) by (simp add: dec_digits_eq)
  define x where "x = dec_digits \<bar>e\<bar>"
  have x: "x = digits (nat \<bar>e\<bar>)" by (simp add: x_def dec_digits_eq)
  have xd: "list_all digit x" "x \<noteq> []" "exp_digits x = \<bar>e\<bar>"
    unfolding x using digits_digit digits_nonempty exp_digits_digits [of "nat \<bar>e\<bar>"] assms(2) by (simp_all add: e_def ds_def)
  let ?t = "CHR ''e'' # (if e < 0 then CHR ''-'' else CHR ''+'') # x"
  have "format_e (c, k) = decimal_text [hd ds] (tl ds) ?t"
    unfolding format_e_def fst_conv snd_conv ds_def [symmetric] Let_def e_def [symmetric] x_def decimal_text_def by simp
  moreover have "[hd ds] @ tl ds = ds" "list_all digit [hd ds]" "list_all digit (tl ds)" using ds by (cases ds; simp)+
  moreover from this h xd have "number_parts [hd ds] (tl ds) ?t" by (auto simp: number_parts_def exp_text_def)
  moreover have "exponent False ?t = Some e" using xd by (cases x) (auto simp: exponent_def lower1_marks list_all_iff)
  moreover have "e - int (length (tl ds)) = k" using ds(2) by (cases ds) (simp_all add: e_def)
  ultimately show ?thesis using ds(3) by metis
qed

lemma two_pow_not [simp]: "\<not> two_pow k < 0" "\<not> two_pow k \<le> 0"
  using two_pow_pos [of k] by linarith+

lemma pow10_less_cancel: "pow_int 10 i < pow_int 10 j \<Longrightarrow> i < j"
  by (rule ccontr) (auto simp: pow10 not_less dest!: power_int_increasing [of _ _ "10::rat"])

lemma two_pow_pow10: "0 \<le> k \<Longrightarrow> two_pow k \<le> pow_int 10 k" "0 \<le> k \<Longrightarrow> pow_int 10 (- k) \<le> two_pow (- k)"
proof -
  assume k: "0 \<le> k"
  have p: "(2::rat) ^ nat k \<le> 10 ^ nat k" by (rule power_mono) simp_all
  with k show "two_pow k \<le> pow_int 10 k" by (simp add: two_pow_def pow_int_def)
  have "1 / (10::rat) ^ nat k \<le> 1 / 2 ^ nat k" using p by (intro divide_left_mono) simp_all
  with k show "pow_int 10 (- k) \<le> two_pow (- k)" by (cases "k = 0") (simp_all add: two_pow_def pow_int_def)
qed

lemma round_double_tiny: "round_double (two_pow (- 1075)) = Fin 0"
proof -
  have "binary_exponent (two_pow (- 1075)) = - 1075"
    using two_pow_step(1) [of "- 1075"] two_pow_pos [of "- 1075"] by (intro binary_exponent_eq) simp_all
  moreover have "two_pow (- 1075) / two_pow (- 1074) = 1 / 2" using two_pow_step(2) [of "- 1074"] by simp
  moreover have "\<lfloor>1 / 2 :: rat\<rfloor> = 0" by (simp add: floor_eq_iff)
  then have "round_even (1 / 2) = 0" by (simp add: round_even_def Let_def)
  ultimately have "round_pos (two_pow (- 1075)) = 0" by (simp add: round_pos_def)
  then show ?thesis by (simp add: round_double_def abs_of_pos)
qed

lemma round_double_huge: "round_double (two_pow 1024) = PosInf"
proof -
  have "binary_exponent (two_pow 1024) = 1024"
    using two_pow_step(1) [of 1024] two_pow_pos [of 1024] by (intro binary_exponent_eq) simp_all
  moreover have "two_pow 1024 / two_pow 972 = of_int (2 ^ 52)" using two_pow_div_int [of 972 1024] by simp
  ultimately have "round_pos (two_pow 1024) = two_pow 1024"
    using two_pow_add [of 972 52] round_even_of_int [of "2 ^ 52"] by (simp add: round_pos_def two_pow_def [of 52])
  then show ?thesis by (simp add: round_double_def abs_of_pos)
qed

lemma denotes_range:
  assumes "denotes x (c, k)" and "0 < x"
  shows "\<bar>int (length (dec_digits c)) + k - 1\<bar> < 100000"
proof -
  let ?y = "of_int c * pow_int 10 k" and ?l = "int (length (dec_digits c))"
  have c: "0 < c" and r: "round_double ?y = Fin x" using assms(1) by (simp_all add: denotes_def)
  have y: "?y < two_pow 1024" "two_pow (- 1075) < ?y"
    using round_double_mono [of "two_pow 1024" ?y] round_double_mono [of ?y "two_pow (- 1075)"] assms(2)
    unfolding r round_double_tiny round_double_huge by (auto simp: not_le [symmetric])
  note l = dec_digits_length [OF c]
  have "pow_int 10 (?l - 1) * pow_int 10 k \<le> ?y" "?y < pow_int 10 ?l * pow_int 10 k"
    using l by (intro mult_right_mono mult_strict_right_mono; simp add: less_imp_le)+
  then have "pow_int 10 (?l - 1 + k) \<le> ?y" "?y < pow_int 10 (?l + k)" by (simp_all only: pow10_add)
  with y two_pow_pow10 [of 1024] two_pow_pow10(2) [of 1075]
  have "pow_int 10 (?l - 1 + k) < pow_int 10 1024" "pow_int 10 (- 1075) < pow_int 10 (?l + k)" by simp_all
  then show ?thesis by (auto dest!: pow10_less_cancel)
qed

text \<open>What is printed for a positive double is a JSON number that is read as the double.\<close>

lemma format_pos_shape:
  assumes "0 < q" and "round_double q = Fin q"
  shows "\<exists>u w t y. format_pos q = decimal_text u w t \<and> number_parts u w t
    \<and> read_float (format_pos q) = Some y \<and> round_double y = Fin q"
proof -
  obtain c k where s: "trim_zeros (the (shortest q)) = (c, k)" by fastforce
  have d: "denotes q (c, k)"
    using shortest_denotes [OF assms] trim_zeros_value [of "the (shortest q)"] s by (simp add: denotes_def)
  then have c: "0 < c" "round_double (of_int c * pow_int 10 k) = Fin q" by (simp_all add: denotes_def)
  have e0: "exponent False [] = Some 0" by (simp add: exponent_def)
  have "format_pos q = format_e (c, k) \<or> format_pos q = format_f (c, k)" by (simp add: format_pos_def s Let_def)
  then show ?thesis
  proof
    assume f: "format_pos q = format_e (c, k)"
    from format_e_shape [OF c(1) denotes_range [OF d assms(1)]] obtain u w t e where
      "format_e (c, k) = decimal_text u w t" "number_parts u w t" "exponent False t = Some e"
      "of_int (dec_val (u @ w)) * pow_int 10 (e - int (length w)) = (of_int c * pow_int 10 k :: rat)" by blast
    with read_decimal [of u w t e] c(2) f show ?thesis by auto
  next
    assume f: "format_pos q = format_f (c, k)"
    from format_f_shape [OF c(1)] obtain u w where
      "format_f (c, k) = decimal_text u w []" "number_parts u w []"
      "of_int (dec_val (u @ w)) * pow_int 10 (- int (length w)) = (of_int c * pow_int 10 k :: rat)" by blast
    with read_decimal [OF _ e0, of u w] c(2) f show ?thesis by auto
  qed
qed

lemma read_float_neg:
  assumes "split_sign s = (False, s)" and "CHR ''_'' \<notin> set s" and "read_float s = Some y"
  shows "read_float (CHR ''-'' # s) = Some (- y)"
  using assms by (auto simp: read_float_def Let_def split: prod.splits if_splits option.splits)

lemma round_double_neg: "0 < y \<Longrightarrow> round_double y = Fin q \<Longrightarrow> round_double (- y) = Fin (- q)"
  by (auto simp: round_double_def Let_def split: if_splits)

text \<open>Every finite double that is printed is read back exactly.\<close>

lemma ParseFloat_json_float:
  assumes "round_double q = Fin q" and "json_float (Fin q) = Some t"
  shows "ParseFloat t = Some (Fin q)"
proof -
  have read: "ParseFloat t = Some (Fin q)" if "read_float t = Some y" "round_double y = Fin q" for y
    using that read_float_not_special [OF that(1)] by (simp add: ParseFloat_def)
  consider "q = 0" | "0 < q" | "q < 0" by linarith
  then show ?thesis
  proof cases
    case 1
    have "read_float ''0'' = Some 0" by code_simp
    then show ?thesis using read [of 0] assms(2) 1 by (simp add: json_float_def round_double_def)
  next
    case 2
    with format_pos_shape [OF 2 assms(1)] assms(2) read show ?thesis by (auto simp: json_float_def)
  next
    case 3
    then have "round_double (- q) = Fin (- q)" "0 < - q"
      using assms(1) by (auto simp: round_double_def Let_def split: if_splits)
    from format_pos_shape [OF this(2,1)] obtain u w t' y where
      f: "format_pos (- q) = decimal_text u w t'" "number_parts u w t'" "read_float (format_pos (- q)) = Some y" "round_double y = Fin (- q)"
      by blast
    have "0 < y" using f(4) 3 round_pos_nonneg [of "- y"] by (auto simp: round_double_def Let_def not_le split: if_splits)
    have "read_float (CHR ''-'' # format_pos (- q)) = Some (- y)"
      using read_float_neg f number_parts_sign number_parts_plain by metis
    with read [of "- y"] round_double_neg [OF \<open>0 < y\<close> f(4)] 3 assms(2) show ?thesis by (simp add: json_float_def)
  qed
qed

end
