(* ===== verification/Go_Clock.thy ===== *)
theory Go_Clock
  imports Normalize
begin

text \<open>
  Times printed by \<open>time.Time.MarshalJSON\<close>: RFC 3339 with as many digits of a second as it needs, in the local zone
  of the process, whose offset from UTC at an instant is the parameter \<open>zone\<close>. An instant is a number of
  nanoseconds since 1970. A year outside 0 to 9999 is refused. What is printed is read back by the
  parser of the gate as the same instant.
\<close>

subsection \<open>The date of a day\<close>

definition jan1 :: "nat \<Rightarrow> int" where
  "jan1 y = days_since_1970 y 1 1"

definition year_of :: "int \<Rightarrow> nat" where
  "year_of d =
     (let y = nat ((d - jan1 0) * 400 div 146097) in
      if d < jan1 y then y - 1 else if jan1 (Suc y) \<le> d then Suc y else y)"

definition month_of :: "nat \<Rightarrow> int \<Rightarrow> nat" where
  "month_of y d = hd (filter (\<lambda>m. days_since_1970 y m 1 \<le> d) [12, 11, 10, 9, 8, 7, 6, 5, 4, 3, 2, 1])"

definition civil_of :: "int \<Rightarrow> nat \<times> nat \<times> nat" where
  "civil_of d =
     (let y = year_of d; m = month_of y d in (y, m, nat (d - days_since_1970 y m 1) + 1))"

subsection \<open>Marshalling\<close>

type_synonym zone = "int \<Rightarrow> int"

definition nine :: "nat \<Rightarrow> string" where
  "nine n = map (\<lambda>i. dig (n div 10 ^ i mod 10)) [8, 7, 6, 5, 4, 3, 2, 1, 0]"

definition fraction :: "nat \<Rightarrow> string" where
  "fraction ns = (if ns = 0 then [] else CHR ''.'' # TrimRight1 (CHR ''0'') (nine ns))"

text \<open>The offset in minutes, cut towards zero.\<close>

definition zone_text :: "int \<Rightarrow> string" where
  "zone_text off =
     (let m = nat (\<bar>off\<bar> div 60) in
      if off = 0 then ''Z''
      else (if off \<le> - 60 then ''-'' else ''+'') @ two (m div 60) @ '':'' @ two (m mod 60))"

definition MarshalTime :: "zone \<Rightarrow> int \<Rightarrow> string option" where
  "MarshalTime zone t =
     (let off = zone t; local = t div 1000000000 + off; sod = nat (local mod 86400)
      in if local < jan1 0 * 86400 \<or> jan1 10000 * 86400 \<le> local \<or> 24 * 3600 \<le> \<bar>off\<bar> then None
         else
           (let (y, mo, d) = civil_of (local div 86400) in
            Some (four y @ ''-'' @ two mo @ ''-'' @ two d
              @ ''T'' @ two (sod div 3600) @ '':'' @ two (sod div 60 mod 60) @ '':'' @ two (sod mod 60)
              @ fraction (nat (t mod 1000000000)) @ zone_text off)))"

subsection \<open>The date is the calendar's\<close>

lemma jan1_formula: "jan1 y = 365 * (int y - 1970) + ((int y - 1) div 4 - (int y - 1) div 100 + (int y - 1) div 400 - 477)"
  by (simp add: jan1_def days_since_1970_def days_before_def Let_def)

lemma jan1_0: "jan1 0 = - 719528"
  by (simp add: jan1_formula)

lemma div_bounds: "0 < k \<Longrightarrow> k * (z div k) \<le> z \<and> z < k * (z div k) + k" for k z :: int
  using pos_mod_bound [of k z] pos_mod_sign [of k z] mult_div_mod_eq [of k z] by linarith

lemma jan1_parts:
  obtains a b c :: int where "jan1 y = 365 * int y - 719527 + a - b + c" "4 * a \<le> int y - 1" "int y - 1 < 4 * a + 4"
    "100 * b \<le> int y - 1" "int y - 1 < 100 * b + 100" "400 * c \<le> int y - 1" "int y - 1 < 400 * c + 400"
  using div_bounds [of 4 "int y - 1"] div_bounds [of 100 "int y - 1"] div_bounds [of 400 "int y - 1"]
    that [of "(int y - 1) div 4" "(int y - 1) div 100" "(int y - 1) div 400"]
  by (simp add: jan1_formula)

lemma mean_year:
  fixes j Y a b c :: int
  assumes "j = 365 * Y + 1 + a - b + c" "4 * a \<le> Y - 1" "Y - 1 < 4 * a + 4" "100 * b \<le> Y - 1" "Y - 1 < 100 * b + 100"
    "400 * c \<le> Y - 1" "Y - 1 < 400 * c + 400"
  shows "146097 * Y - 2000 \<le> 400 * j" "400 * j \<le> 146097 * Y + 2000"
  using assms by linarith+

lemma jan1_bounds: "146097 * int y - 2000 \<le> 400 * (jan1 y - jan1 0)" "400 * (jan1 y - jan1 0) \<le> 146097 * int y + 2000"
proof -
  obtain a b c :: int where j: "jan1 y - jan1 0 = 365 * int y + 1 + a - b + c" and p: "4 * a \<le> int y - 1" "int y - 1 < 4 * a + 4"
    "100 * b \<le> int y - 1" "int y - 1 < 100 * b + 100" "400 * c \<le> int y - 1" "int y - 1 < 400 * c + 400"
    by (rule jan1_parts [of y]) (simp add: jan1_0)
  show "146097 * int y - 2000 \<le> 400 * (jan1 y - jan1 0)" "400 * (jan1 y - jan1 0) \<le> 146097 * int y + 2000"
    by (rule mean_year [OF j p])+
qed

lemma jan1_Suc: "jan1 y \<le> jan1 (Suc y)"
  by (rule jan1_parts [of y]; rule jan1_parts [of "Suc y"]) simp

lemma jan1_mono: "x \<le> y \<Longrightarrow> jan1 x \<le> jan1 y"
  by (rule lift_Suc_mono_le [of jan1]) (rule jan1_Suc)

lemma year_of_bounds:
  assumes "jan1 0 \<le> d"
  shows "jan1 (year_of d) \<le> d \<and> d < jan1 (Suc (year_of d))"
proof -
  define y where "y = nat ((d - jan1 0) * 400 div 146097)"
  have y: "int y = (d - jan1 0) * 400 div 146097" using assms by (simp add: y_def)
  have b: "146097 * int y \<le> 400 * (d - jan1 0)" "400 * (d - jan1 0) < 146097 * int y + 146097"
    unfolding y using div_bounds [of 146097 "(d - jan1 0) * 400"] by linarith+
  have up: "d < jan1 (Suc (Suc y))" using jan1_bounds(1) [of "Suc (Suc y)"] b(2) by simp
  have lo: "jan1 (y - 1) \<le> d" if "0 < y" using jan1_bounds(2) [of "y - 1"] b(1) that by simp
  have "0 < y" if "d < jan1 y" using assms that by (cases "y = 0") auto
  with up lo show ?thesis unfolding year_of_def Let_def y_def [symmetric] by auto
qed

lemma month_bounds:
  assumes "jan1 y \<le> d" and "d < jan1 (Suc y)"
  shows "1 \<le> month_of y d \<and> month_of y d \<le> 12 \<and> days_since_1970 y (month_of y d) 1 \<le> d
    \<and> d \<le> days_since_1970 y (month_of y d) (days_in (month_of y d) y)"
proof -
  have next_month: "days_since_1970 y (Suc m) 1 = days_since_1970 y m (days_in m y) + 1" if "1 \<le> m" "m < 12" for m
    using days_since_1970_month that by blast
  have last: "d \<le> days_since_1970 y 12 (days_in 12 y)"
    using assms(2) days_since_1970_year [of y] by (simp add: jan1_def days_in_def)
  have first: "days_since_1970 y 1 1 \<le> d" using assms(1) by (simp add: jan1_def)
  have feb: "days_since_1970 y 2 1 = days_since_1970 y 1 (days_in 1 y) + 1"
    using next_month [of 1] by (simp add: numeral_2_eq_2)
  note n = next_month [of 2] next_month [of 3] next_month [of 4] next_month [of 5] next_month [of 6]
    next_month [of 7] next_month [of 8] next_month [of 9] next_month [of 10] next_month [of 11]
  show ?thesis using n feb last first by (simp add: month_of_def)
qed

lemma civil_of_correct:
  assumes "jan1 0 \<le> d" and "civil_of d = (y, m, k)"
  shows "1 \<le> m" "m \<le> 12" "1 \<le> k" "k \<le> days_in m y" "days_since_1970 y m k = d" "jan1 y \<le> d"
proof -
  note y = year_of_bounds [OF assms(1)]
  note m = month_bounds [OF conjunct1 [OF y] conjunct2 [OF y]]
  have e: "y = year_of d" "m = month_of y d" "k = nat (d - days_since_1970 y m 1) + 1"
    using assms(2) by (auto simp: civil_of_def Let_def)
  have step: "days_since_1970 y m (Suc n) = days_since_1970 y m 1 + int n" for n
    by (simp add: days_since_1970_def Let_def)
  show "1 \<le> m" "m \<le> 12" "1 \<le> k" "jan1 y \<le> d" using m y e by auto
  have d: "days_since_1970 y m 1 \<le> d" "d \<le> days_since_1970 y m (days_in m y)" using m e by auto
  then show "days_since_1970 y m k = d" using step [of "nat (d - days_since_1970 y m 1)"] e(3) by simp
  have "1 \<le> days_in m y" by (simp add: days_in_def)
  then have "days_since_1970 y m (days_in m y) = days_since_1970 y m 1 + int (days_in m y - 1)"
    using step [of "days_in m y - 1"] by simp
  with d e(3) \<open>1 \<le> days_in m y\<close> show "k \<le> days_in m y" by simp
qed

subsection \<open>A fraction is read back\<close>

lemma num_append: "num (s @ t) = num s * 10 ^ length t + num t"
proof -
  have "foldl (\<lambda>n c. 10 * n + digit_val c) a t = a * 10 ^ length t + num t" for a
    unfolding num_def
  proof (induction t arbitrary: a)
    case (Cons c t)
    have "foldl (\<lambda>n c. 10 * n + digit_val c) a (c # t) =
        (10 * a + digit_val c) * 10 ^ length t + foldl (\<lambda>n c. 10 * n + digit_val c) 0 t"
      using Cons [of "10 * a + digit_val c"] by simp
    moreover have "foldl (\<lambda>n c. 10 * n + digit_val c) 0 (c # t) =
        digit_val c * 10 ^ length t + foldl (\<lambda>n c. 10 * n + digit_val c) 0 t"
      using Cons [of "digit_val c"] by simp
    ultimately show ?case by (simp add: distrib_right)
  qed simp
  from this [of "num s"] show ?thesis by (simp only: num_def foldl_append)
qed

lemma num_zeros: "num (replicate n (CHR ''0'')) = 0"
  by (induction n) (simp_all add: num_append [of "[CHR ''0'']", simplified] num_def digit_val_def)

lemma nine_digits: "list_all is_digit (nine n)" "length (nine n) = 9"
  by (simp_all add: nine_def is_digit_dig)

lemma digits9:
  assumes "n < 10 ^ 9"
  shows "num (nine n) = n"
proof -
  define f where "f i = n div 10 ^ i" for i
  have s: "f i = f (i + 1) * 10 + f i mod 10" for i
    unfolding f_def by (metis Suc_eq_plus1 div_mult2_eq div_mult_mod_eq power_Suc2)
  have f: "f 9 = 0" "f 0 = n" using assms by (simp_all add: f_def)
  have "num (nine n) = f 8 mod 10 * 100000000 + f 7 mod 10 * 10000000 + f 6 mod 10 * 1000000 + f 5 mod 10 * 100000
      + f 4 mod 10 * 10000 + f 3 mod 10 * 1000 + f 2 mod 10 * 100 + f 1 mod 10 * 10 + f 0 mod 10"
    unfolding f_def by (simp add: nine_def num_def digit_val_dig)
  moreover have "f 8 = f 9 * 10 + f 8 mod 10" "f 7 = f 8 * 10 + f 7 mod 10" "f 6 = f 7 * 10 + f 6 mod 10" "f 5 = f 6 * 10 + f 5 mod 10"
    "f 4 = f 5 * 10 + f 4 mod 10" "f 3 = f 4 * 10 + f 3 mod 10" "f 2 = f 3 * 10 + f 2 mod 10" "f 1 = f 2 * 10 + f 1 mod 10"
    "f 0 = f 1 * 10 + f 0 mod 10"
    using s [of 8] s [of 7] s [of 6] s [of 5] s [of 4] s [of 3] s [of 2] s [of 1] s [of 0] by (simp_all only: numeral_plus_one one_plus_numeral add_0 one_add_one semiring_norm)
  ultimately show ?thesis using f by linarith
qed

lemma TrimRight1_split: "\<exists>k. s = TrimRight1 c s @ replicate k c"
proof -
  have "rev s = takeWhile (\<lambda>d. d = c) (rev s) @ dropWhile (\<lambda>d. d = c) (rev s)" by simp
  then have "s = TrimRight1 c s @ rev (takeWhile (\<lambda>d. d = c) (rev s))"
    unfolding TrimRight1_def by (metis rev_append rev_rev_ident)
  moreover have "takeWhile (\<lambda>d. d = c) t = replicate (length (takeWhile (\<lambda>d. d = c) t)) c" for t
    by (induction t) auto
  ultimately show ?thesis by (metis rev_replicate)
qed

lemma parse_fraction:
  assumes "ns < 10 ^ 9" and "v = [] \<or> \<not> is_digit (hd v) \<and> hd v \<noteq> CHR ''.'' \<and> hd v \<noteq> CHR '',''"
  shows "parse_frac (fraction ns @ v) = (ns, v)"
proof (cases "ns = 0")
  case True
  then show ?thesis using assms(2) parse_frac_none [of v] by (auto simp: fraction_def)
next
  case False
  let ?t = "TrimRight1 (CHR ''0'') (nine ns)"
  obtain k where k: "nine ns = ?t @ replicate k (CHR ''0'')" using TrimRight1_split by blast
  have n: "num ?t * 10 ^ k = ns" using digits9 [OF assms(1)] k num_append [of ?t "replicate k (CHR ''0'')"] by (simp add: num_zeros)
  have l: "length ?t + k = 9" using nine_digits(2) [of ns] k by (metis length_append length_replicate)
  have d: "list_all is_digit ?t" using nine_digits(1) [of ns] k by (metis list_all_append)
  have ne: "?t \<noteq> []" using n False by (auto simp: num_def)
  then obtain c cs where c: "?t = c # cs" by (cases ?t) auto
  have tw: "takeWhile is_digit (?t @ v) = ?t" "dropWhile is_digit (?t @ v) = v"
    using d assms(2) by (cases v; auto simp: list_all_iff takeWhile_append2 dropWhile_append2)+
  have "9 - length ?t = k" "take 9 ?t = ?t" using l by simp_all
  moreover have "is_digit c" using d c by simp
  ultimately show ?thesis using tw n False c by (simp add: fraction_def parse_frac_def)
qed

subsection \<open>A printed time is read back\<close>

text \<open>The parser takes a fraction after the seconds, whatever the layout.\<close>

lemma parse_clock_fraction:
  assumes "h < 24" "mi < 60" "s < 60" "ns < 10 ^ 9" "v = [] \<or> \<not> is_digit (hd v) \<and> hd v \<noteq> CHR ''.'' \<and> hd v \<noteq> CHR '',''"
  shows "parse_fields (clock_layout ''T'' @ rest) p (''T'' @ two h @ '':'' @ two mi @ '':'' @ two s @ fraction ns @ v) =
    parse_fields rest (p\<lparr>hour := h, minute := mi, second := s, nsec := ns\<rparr>) v"
  using assms by (simp add: clock_layout_def getnum_two parse_fraction del: getnum.simps)

lemma zone_text_facts:
  "zone_text off \<noteq> []" "\<not> is_digit (hd (zone_text off))" "hd (zone_text off) \<noteq> CHR ''.''" "hd (zone_text off) \<noteq> CHR '',''"
  by (simp_all add: zone_text_def Let_def is_digit_def)

lemma parse_zone:
  assumes "off mod 60 = 0" and "\<bar>off\<bar> < 24 * 3600"
  shows "parse_fields [('''', StdISO8601ColonTZ)] p (zone_text off) = Some (p\<lparr>zone_off := Some off\<rparr>)"
proof (cases "off = 0")
  case False
  define m where "m = nat (\<bar>off\<bar> div 60)"
  have "\<bar>off\<bar> div 60 * 60 = \<bar>off\<bar>" using assms(1) by (cases "0 \<le> off") (auto simp: dvd_eq_mod_eq_0 [symmetric])
  moreover have "0 \<le> \<bar>off\<bar> div 60" by simp
  ultimately have m: "int m * 60 = \<bar>off\<bar>" unfolding m_def by simp
  then have b: "m div 60 \<le> 24" "m mod 60 \<le> 60" using assms(2) by simp_all
  have "int m = int (m div 60) * 60 + int (m mod 60)" by (metis div_mult_mod_eq of_nat_add of_nat_mult of_nat_numeral)
  then have "int (m div 60) * 3600 + int (m mod 60) * 60 = int m * 60" by linarith
  then have v: "int (m div 60) * 3600 + int (m mod 60) * 60 = (if off \<le> - 60 then - off else off)"
    using m False by (cases "m = 0") auto
  have z: "zone_text off = (if off \<le> - 60 then ''-'' else ''+'') @ two (m div 60) @ '':'' @ two (m mod 60)"
    using False by (simp add: zone_text_def m_def Let_def)
  show ?thesis using parse_offset_two [OF b] unfolding v by (cases "off \<le> - 60") (simp_all add: z)
qed (simp add: zone_text_def)

lemma sod_parts:
  assumes "sod < 86400"
  shows "sod div 3600 < 24" "sod div 60 mod 60 < 60" "sod mod 60 < (60::nat)"
    "int (sod div 3600) * 3600 + int (sod div 60 mod 60) * 60 + int (sod mod 60) = int sod"
proof -
  show "sod div 3600 < 24" using assms by simp
  have "sod = sod div 60 * 60 + sod mod 60" "sod div 60 = sod div 3600 * 60 + sod div 60 mod 60"
    using div_mult_mod_eq [of "sod div 60" 60] by (simp_all add: div_mult2_eq [symmetric])
  then have "int sod = int (sod div 60) * 60 + int (sod mod 60)" "int (sod div 60) = int (sod div 3600) * 60 + int (sod div 60 mod 60)"
    by (metis of_nat_add of_nat_mult of_nat_numeral)+
  then show "int (sod div 3600) * 3600 + int (sod div 60 mod 60) * 60 + int (sod mod 60) = int sod" by simp
qed simp_all

lemma MarshalTime_parse:
  assumes "MarshalTime zone t = Some s" and "zone t mod 60 = 0"
  shows "time_Parse (hd eventTimeLayouts) s = Some \<lparr>unix_sec = t div 1000000000, nanosec = nat (t mod 1000000000)\<rparr>"
proof -
  define off where "off = zone t"
  define l where "l = t div 1000000000 + off"
  define sod where "sod = nat (l mod 86400)"
  define ns where "ns = nat (t mod 1000000000)"
  obtain y mo d where c: "civil_of (l div 86400) = (y, mo, d)" by (metis prod_cases3)
  have r: "jan1 0 * 86400 \<le> l" "l < jan1 10000 * 86400" "\<bar>off\<bar> < 24 * 3600" and
    s: "s = four y @ ''-'' @ two mo @ ''-'' @ two d @ ''T'' @ two (sod div 3600) @ '':'' @ two (sod div 60 mod 60)
      @ '':'' @ two (sod mod 60) @ fraction ns @ zone_text off"
    using assms(1) c by (auto simp: MarshalTime_def Let_def off_def l_def sod_def ns_def not_less not_le split: if_splits)
  have day: "jan1 0 \<le> l div 86400" "l div 86400 < jan1 10000" using r(1,2) by simp_all
  note v = civil_of_correct [OF day(1) c]
  have y: "y < 10000" using v(6) day(2) jan1_mono [of 10000 y] by (cases "y < 10000") auto
  have sod: "sod < 86400" "int sod = l mod 86400" by (simp_all add: sod_def nat_less_iff)
  have ns: "ns < 10 ^ 9" by (simp add: ns_def nat_less_iff)
  have d: "d \<le> 31" using v(4) days_in_le [of mo y] by simp
  have "parse_fields (hd eventTimeLayouts) no_fields s =
    Some \<lparr>year = y, month = mo, day = d, hour = sod div 3600, minute = sod div 60 mod 60, second = sod mod 60, nsec = ns, zone_off = Some off\<rparr>"
    using parse_date [OF y v(1,2) d] parse_clock_fraction [OF sod_parts(1-3) [OF sod(1)] ns, of "zone_text off"]
      zone_text_facts [of off] parse_zone [of off] assms(2) r(3)
    by (simp add: eventTimeLayouts_def s off_def [symmetric] no_fields_def del: append_assoc append.simps)
  moreover have "civil_sec y mo d (sod div 3600) (sod div 60 mod 60) (sod mod 60) = l"
    using v(5) sod_parts(4) [OF sod(1)] sod(2) div_mult_mod_eq [of l 86400] unfolding civil_sec_def by linarith
  ultimately show ?thesis using v(3,4) by (simp add: time_Parse_def l_def ns_def)
qed

text \<open>The characters of a printed time.\<close>

definition time_char :: "char \<Rightarrow> bool" where
  "time_char c \<longleftrightarrow> is_digit c \<or> c \<in> set ''-:TZ.+''"

lemma time_char_two: "n < 100 \<Longrightarrow> list_all time_char (two n)"
  by (simp add: two_def time_char_def is_digit_dig)

lemma time_char_four: "n < 10000 \<Longrightarrow> list_all time_char (four n)"
  by (simp add: four_def time_char_two)

lemma time_char_fraction: "list_all time_char (fraction ns)"
proof -
  obtain k where k: "nine ns = TrimRight1 (CHR ''0'') (nine ns) @ replicate k (CHR ''0'')" using TrimRight1_split by blast
  have "list_all is_digit (TrimRight1 (CHR ''0'') (nine ns))" using nine_digits(1) [of ns] k by (metis list_all_append)
  then show ?thesis by (auto simp: fraction_def time_char_def list_all_iff)
qed

lemma time_char_zone: "\<bar>off\<bar> < 24 * 3600 \<Longrightarrow> list_all time_char (zone_text off)"
proof -
  assume a: "\<bar>off\<bar> < 24 * 3600"
  have "nat (\<bar>off\<bar> div 60) div 60 < 100" "nat (\<bar>off\<bar> div 60) mod 60 < 100" using a by (simp_all add: nat_less_iff)
  then show ?thesis by (auto simp: zone_text_def Let_def time_char_two) (simp_all add: time_char_def)
qed

lemma time_char_plain: "time_char c \<Longrightarrow> 32 \<le> byte c \<and> byte c < 128 \<and> c \<notin> set ''<>&'' \<and> byte c \<noteq> 34 \<and> byte c \<noteq> 92 \<and> \<not> space_byte c"
  by (auto simp: time_char_def is_digit_def space_byte_def IsSpace_def)

text \<open>Where a time is printed: the conditions, the text and its characters.\<close>

lemma MarshalTime_chars:
  assumes "MarshalTime zone t = Some s"
  shows "list_all time_char s" "s \<noteq> []"
proof -
  define l where "l = t div 1000000000 + zone t"
  define sod where "sod = nat (l mod 86400)"
  obtain y mo d where c: "civil_of (l div 86400) = (y, mo, d)" by (metis prod_cases3)
  have r: "jan1 0 * 86400 \<le> l" "l < jan1 10000 * 86400" "\<bar>zone t\<bar> < 24 * 3600" and
    s: "s = four y @ ''-'' @ two mo @ ''-'' @ two d @ ''T'' @ two (sod div 3600) @ '':'' @ two (sod div 60 mod 60)
      @ '':'' @ two (sod mod 60) @ fraction (nat (t mod 1000000000)) @ zone_text (zone t)"
    using assms c by (auto simp: MarshalTime_def Let_def l_def sod_def not_less not_le split: if_splits)
  have day: "jan1 0 \<le> l div 86400" "l div 86400 < jan1 10000" using r(1,2) by (simp_all add: int_div_less_self)
  note v = civil_of_correct [OF day(1) c]
  have "y < 10000" using v(6) day(2) jan1_mono [of 10000 y] by (cases "y < 10000") auto
  moreover have "mo < 100" "d < 100" using v(2,4) days_in_le [of mo y] by simp_all
  moreover have "sod < 86400" by (simp add: sod_def nat_less_iff)
  ultimately show "list_all time_char s"
    using time_char_two [of mo] time_char_two [of d] time_char_two [of "sod div 3600"] time_char_two [of "sod div 60 mod 60"]
      time_char_two [of "sod mod 60"] time_char_zone [OF r(3)] time_char_four [of y] time_char_fraction
    by (simp add: s) (simp add: time_char_def)
  show "s \<noteq> []" by (simp add: s)
qed

lemma parseEventTime_MarshalTime:
  assumes "MarshalTime zone t = Some s" and "zone t mod 60 = 0"
  shows "parseEventTime s = Some \<lparr>unix_sec = t div 1000000000, nanosec = nat (t mod 1000000000)\<rparr>"
proof -
  note c = MarshalTime_chars [OF assms(1)]
  have "is_ascii s" "list_all (\<lambda>c. \<not> space_byte c) s" using c(1) time_char_plain by (auto simp: is_ascii_def list_all_iff)
  then have "TrimSpace s = s"
    by (simp add: TrimSpace_ascii) (metis (no_types, lifting) dropWhile_eq_self_iff list_all_iff hd_in_set rev_rev_ident set_rev)
  with c(2) MarshalTime_parse [OF assms] show ?thesis
    by (simp add: parseEventTime_def try_layouts_hd)
qed

end
