(* ===== verification/Go_Encode.thy ===== *)
theory Go_Encode
  imports Go_Json_Parse Go_Format Go_Clock
begin

text \<open>
  \<open>json.Marshal\<close> and \<open>json.Encoder\<close> as far as the program uses them. A value is what the encoder sees of it: a struct is
  the list of its fields in order, with those left out that \<open>omitempty\<close> drops, a map the list of its members
  sorted by key. Strings are quoted with HTML characters and line separators escaped and malformed
  bytes replaced; floats and times are printed as \<open>Go_Format\<close> and \<open>Go_Clock\<close> say, and refused where these refuse them.
  What is encoded is valid JSON, and the decoder reads the value back from it.
\<close>

datatype json =
    VNull
  | VBool bool
  | VInt int
  | VFloat float64
  | VStr string
  | VTime int
  | VArr "json list"
  | VObj "(string \<times> json) list"

subsection \<open>Quoting\<close>

definition hex_lower :: "nat \<Rightarrow> char" where
  "hex_lower n = ''0123456789abcdef'' ! n"

definition quote_ascii :: "char \<Rightarrow> string" where
  "quote_ascii c =
     (let b = byte c in
      if b = 0x22 \<or> b = 0x5C then [CHR 0x5C, c]
      else if b = 8 then [CHR 0x5C, CHR ''b''] else if b = 12 then [CHR 0x5C, CHR ''f'']
      else if b = 10 then [CHR 0x5C, CHR ''n''] else if b = 13 then [CHR 0x5C, CHR ''r'']
      else if b = 9 then [CHR 0x5C, CHR ''t'']
      else if b < 0x20 \<or> b = 0x3C \<or> b = 0x3E \<or> b = 0x26
      then [CHR 0x5C, CHR ''u'', CHR ''0'', CHR ''0'', hex_lower (b div 16), hex_lower (b mod 16)]
      else [c])"

fun quote_body :: "string \<Rightarrow> string" where
  "quote_body [] = []"
| "quote_body (c # cs) =
     (if byte c < 128 then quote_ascii c @ quote_body cs
      else
        (let (r, n) = decode1 c cs in
         (if r = RuneError \<and> n = 0 then CHR 0x5C # ''ufffd''
          else if r = 0x2028 \<or> r = 0x2029 then CHR 0x5C # ''u202'' @ [hex_lower (r mod 16)]
          else c # take n cs)
         @ quote_body (drop n cs)))"

definition quoted :: "string \<Rightarrow> string" where
  "quoted s = CHR 0x22 # quote_body s @ [CHR 0x22]"

text \<open>The string a decoder sees: malformed bytes are replaced.\<close>

definition to_valid :: "string \<Rightarrow> string" where
  "to_valid s = encode (runes s)"

definition utf8 :: "string \<Rightarrow> bool" where
  "utf8 s \<longleftrightarrow> to_valid s = s"

subsection \<open>Values\<close>

fun commas :: "string list \<Rightarrow> string" where
  "commas [] = []"
| "commas [t] = t"
| "commas (t # ts) = t @ '','' @ commas ts"

fun all_some :: "'a option list \<Rightarrow> 'a list option" where
  "all_some [] = Some []"
| "all_some (x # xs) = (case x of None \<Rightarrow> None | Some y \<Rightarrow> map_option ((#) y) (all_some xs))"

fun Marshal :: "zone \<Rightarrow> json \<Rightarrow> string option" where
  "Marshal Z VNull = Some ''null''"
| "Marshal Z (VBool b) = Some (if b then ''true'' else ''false'')"
| "Marshal Z (VInt n) = Some (Itoa n)"
| "Marshal Z (VFloat x) = json_float x"
| "Marshal Z (VStr s) = Some (quoted s)"
| "Marshal Z (VTime t) = map_option (\<lambda>s. CHR 0x22 # s @ [CHR 0x22]) (MarshalTime Z t)"
| "Marshal Z (VArr vs) = map_option (\<lambda>ts. ''['' @ commas ts @ '']'') (all_some (map (Marshal Z) vs))"
| "Marshal Z (VObj fs) =
     map_option (\<lambda>ts. ''{'' @ commas ts @ ''}'')
       (all_some (map (\<lambda>(k, v). map_option (\<lambda>t. quoted k @ '':'' @ t) (Marshal Z v)) fs))"

text \<open>The tree the decoder reads from the text of a value.\<close>

fun jval_of :: "zone \<Rightarrow> json \<Rightarrow> jval" where
  "jval_of Z VNull = JNull"
| "jval_of Z (VBool b) = JBool b"
| "jval_of Z (VInt n) = JNum (Itoa n)"
| "jval_of Z (VFloat x) = JNum (the (json_float x))"
| "jval_of Z (VStr s) = JStr (to_valid s)"
| "jval_of Z (VTime t) = JStr (the (MarshalTime Z t))"
| "jval_of Z (VArr vs) = JArr (map (jval_of Z) vs)"
| "jval_of Z (VObj fs) = JObj (map (\<lambda>(k, v). (to_valid k, jval_of Z v)) fs)"

text \<open>The floats of a value are doubles, and its containers are nested no deeper than \<open>n\<close>.\<close>

fun doubles :: "json \<Rightarrow> bool" where
  "doubles (VFloat (Fin q)) \<longleftrightarrow> round_double q = Fin q"
| "doubles (VArr vs) \<longleftrightarrow> list_all doubles vs"
| "doubles (VObj fs) \<longleftrightarrow> list_all (\<lambda>(k, v). doubles v) fs"
| "doubles v \<longleftrightarrow> True"

fun depth_le :: "nat \<Rightarrow> json \<Rightarrow> bool" where
  "depth_le n (VArr vs) \<longleftrightarrow> 0 < n \<and> list_all (depth_le (n - 1)) vs"
| "depth_le n (VObj fs) \<longleftrightarrow> 0 < n \<and> list_all (\<lambda>(k, v). depth_le (n - 1) v) fs"
| "depth_le n v \<longleftrightarrow> True"

subsection \<open>Quoted strings are read back\<close>

text \<open>A piece of a quoted text that stands for some bytes, to the scanner and to the decoder.\<close>

definition piece :: "string \<Rightarrow> string \<Rightarrow> bool" where
  "piece p b \<longleftrightarrow>
     (\<forall>X. unquote (p @ X) = map_option (apfst ((@) b)) (unquote X))
     \<and> (\<forall>ps X. accepts (sc InString ps) (p @ X) = accepts (sc InString ps) X)"

lemma piece_unquote: "piece p b \<Longrightarrow> unquote (p @ X) = map_option (apfst ((@) b)) (unquote X)"
  and piece_accepts: "piece p b \<Longrightarrow> accepts (sc InString ps) (p @ X) = accepts (sc InString ps) X"
  by (simp_all add: piece_def)

lemma nat_less_16:
  assumes "n < (16::nat)" and "P 0" "P 1" "P 2" "P 3" "P 4" "P 5" "P 6" "P 7" "P 8" "P 9" "P 10" "P 11" "P 12" "P 13" "P 14" "P 15"
  shows "P n"
proof -
  have "n \<in> set [0..<16]" using assms(1) by simp
  moreover have "list_all P [0..<16]" using assms(2-) by (simp add: upt_rec eval_nat_numeral)
  ultimately show ?thesis by (simp only: list_all_iff)
qed

lemma hex_lower_digit: "n < 16 \<Longrightarrow> hex_digit (hex_lower n)"
  by (erule nat_less_16) (simp_all add: hex_lower_def hex_digit_def digit_def)

lemma hex_lower_val: "n < 16 \<Longrightarrow> hex_val (hex_lower n) = int n"
  by (erule nat_less_16) (code_simp+)

lemma encode1_ascii: "byte c < 128 \<Longrightarrow> encode1 (byte c) = [c]"
  by (simp add: encode1_def valid_rune_def)

lemma piece_escape:
  assumes "e \<in> set ''bfnrt/'' \<or> byte e = 0x5C \<or> byte e = 0x22"
  shows "piece [CHR 0x5C, e] (encode1 (escape_rune e))"
proof -
  have "e \<noteq> CHR ''u''" using assms by auto
  then show ?thesis using assms
    by (simp add: piece_def unquote.simps unquote_char_def accepts_Cons scan_byte_def)
qed

lemma piece_hex:
  assumes "list_all hex_digit [a, b, d, e]" and "hex4 [a, b, d, e] = r" and "\<not> (0xD800 \<le> r \<and> r < 0xDC00)"
  shows "piece [CHR 0x5C, CHR ''u'', a, b, d, e] (encode1 r)"
  using assms
  by (auto simp: piece_def unquote.simps unquote_char_def accepts_Cons scan_byte_def Let_def numeral_2_eq_2 numeral_3_eq_3 simp del: hex4.simps)

lemma piece_plain:
  assumes "0x20 \<le> byte c" and "byte c < 128" and "byte c \<noteq> 0x22" and "byte c \<noteq> 0x5C"
  shows "piece [c] [c]"
  using assms encode1_ascii [OF assms(2)]
  by (simp add: piece_def unquote.simps unquote_char_def accepts_Cons scan_byte_def decode1_def)

lemma piece_ascii:
  assumes "byte c < 128"
  shows "piece (quote_ascii c) [c]"
proof -
  let ?b = "byte c"
  have short: "piece (quote_ascii c) [c]" if "quote_ascii c = [CHR 0x5C, e]" "e \<in> set ''bfnrt/'' \<or> byte e = 0x5C \<or> byte e = 0x22"
      "escape_rune e = ?b" for e
    using piece_escape [OF that(2)] that(1,3) encode1_ascii [OF assms] by simp
  have long: "piece [CHR 0x5C, CHR ''u'', CHR ''0'', CHR ''0'', hex_lower (?b div 16), hex_lower (?b mod 16)] (encode1 ?b)"
  proof (rule piece_hex)
    have d: "hex_digit (CHR ''0'')" "hex_val (CHR ''0'') = 0" by (simp_all add: hex_digit_def) code_simp
    have n: "?b div 16 < 16" "?b mod 16 < 16" using assms by linarith+
    show "list_all hex_digit [CHR ''0'', CHR ''0'', hex_lower (?b div 16), hex_lower (?b mod 16)]"
      using d hex_lower_digit n by simp
    have "int ?b = int (?b div 16) * 16 + int (?b mod 16)" by (simp add: zdiv_int zmod_int)
    then show "hex4 [CHR ''0'', CHR ''0'', hex_lower (?b div 16), hex_lower (?b mod 16)] = ?b"
      using hex_lower_val [OF n(1)] hex_lower_val [OF n(2)] d(2) by simp
    show "\<not> (0xD800 \<le> ?b \<and> ?b < 0xDC00)" using assms by linarith
  qed
  consider "?b = 0x22 \<or> ?b = 0x5C" | "?b = 8" | "?b = 12" | "?b = 10" | "?b = 13" | "?b = 9"
    | "?b \<notin> {0x22, 0x5C, 8, 12, 10, 13, 9}" "?b < 0x20 \<or> ?b = 0x3C \<or> ?b = 0x3E \<or> ?b = 0x26"
    | "?b \<notin> {0x22, 0x5C, 8, 12, 10, 13, 9}" "\<not> (?b < 0x20 \<or> ?b = 0x3C \<or> ?b = 0x3E \<or> ?b = 0x26)" by blast
  then show ?thesis
  proof cases
    case 1
    then show ?thesis by (intro short [of c]) (auto simp: quote_ascii_def escape_rune_def)
  next
    case 7
    then show ?thesis using long encode1_ascii [OF assms] by (simp add: quote_ascii_def Let_def)
  next
    case 8
    then show ?thesis using piece_plain [OF _ assms] by (simp add: quote_ascii_def Let_def)
  next
    case 2
    then show ?thesis by (intro short [of "CHR ''b''"]) (simp_all add: quote_ascii_def escape_rune_def)
  next
    case 3
    then show ?thesis by (intro short [of "CHR ''f''"]) (simp_all add: quote_ascii_def escape_rune_def)
  next
    case 4
    then show ?thesis by (intro short [of "CHR ''n''"]) (simp_all add: quote_ascii_def escape_rune_def)
  next
    case 5
    then show ?thesis by (intro short [of "CHR ''r''"]) (simp_all add: quote_ascii_def escape_rune_def)
  next
    case 6
    then show ?thesis by (intro short [of "CHR ''t''"]) (simp_all add: quote_ascii_def escape_rune_def)
  qed
qed

lemma piece_rune:
  assumes "decode1 c cs = (r, n)" and "\<not> byte c < 128" and "0 < n"
  shows "piece (c # take n cs) (encode1 r)"
proof -
  have d: "decode1 c (take n cs @ X) = (r, n)" for X
    using assms(1,3) unfolding decode1_def Let_def by (auto split: if_split_asm list.splits)
  have "accepts (sc InString ps) ((c # take n cs) @ X) = accepts (sc InString ps) X" for ps X
    using decode1_cont [OF assms(1)] assms(2) by (intro string_high) simp
  then show ?thesis using assms(2) d decode1_width [OF assms(1)]
    by (simp add: piece_def unquote.simps unquote_char_def)
qed

definition rune_piece :: "char \<Rightarrow> string \<Rightarrow> rune \<Rightarrow> nat \<Rightarrow> string" where
  "rune_piece c cs r n =
     (if r = RuneError \<and> n = 0 then CHR 0x5C # ''ufffd''
      else if r = 0x2028 \<or> r = 0x2029 then CHR 0x5C # ''u202'' @ [hex_lower (r mod 16)]
      else c # take n cs)"

lemma decode1_zero: "decode1 c cs = (r, 0) \<Longrightarrow> \<not> byte c < 128 \<Longrightarrow> r = RuneError"
  unfolding decode1_def Let_def by (auto split: if_split_asm list.split_asm)

lemma hex_marks:
  "hex_val (CHR ''f'') = 15" "hex_val (CHR ''d'') = 13" "hex_val (CHR ''2'') = 2" "hex_val (CHR ''0'') = 0"
  "hex_val (CHR ''8'') = 8" "hex_val (CHR ''9'') = 9"
  using hex_lower_val [of 15] hex_lower_val [of 13] hex_lower_val [of 2] hex_lower_val [of 0] hex_lower_val [of 8] hex_lower_val [of 9]
  by (simp_all add: hex_lower_def)

lemma piece_high:
  assumes "decode1 c cs = (r, n)" and "\<not> byte c < 128"
  shows "piece (rune_piece c cs r n) (encode1 r)"
proof -
  have hd: "list_all hex_digit ''fffd''" "list_all hex_digit ''2028''" "list_all hex_digit ''2029''"
    by (simp_all add: hex_digit_def digit_def)
  have hv: "hex4 ''fffd'' = RuneError" "hex4 ''2028'' = 0x2028" "hex4 ''2029'' = 0x2029"
    by (simp_all only: hex4.simps foldl.simps hex_marks RuneError_def) simp_all
  have z: "0 < n" if "\<not> (r = RuneError \<and> n = 0)" using assms that decode1_zero by (cases n) auto
  consider "r = RuneError" "n = 0" | "\<not> (r = RuneError \<and> n = 0)" "r = 0x2028" | "\<not> (r = RuneError \<and> n = 0)" "r = 0x2029"
    | "\<not> (r = RuneError \<and> n = 0)" "r \<noteq> 0x2028" "r \<noteq> 0x2029" by blast
  then show ?thesis
  proof cases
    case 1
    with piece_hex [OF hd(1) hv(1)] show ?thesis by (simp add: rune_piece_def RuneError_def)
  next
    case 2
    with piece_hex [OF hd(2) hv(2)] show ?thesis by (auto simp: rune_piece_def hex_lower_def)
  next
    case 3
    with piece_hex [OF hd(3) hv(3)] show ?thesis by (auto simp: rune_piece_def hex_lower_def)
  next
    case 4
    with piece_rune [OF assms z] show ?thesis by (auto simp: rune_piece_def)
  qed
qed

lemma piece_Nil: "piece [] []"
  by (auto simp: piece_def apfst_def map_prod_def intro!: option.map_ident_strong [symmetric])

lemma piece_append: "piece p b \<Longrightarrow> piece q d \<Longrightarrow> piece (p @ q) (b @ d)"
  by (auto simp: piece_def option.map_comp comp_def intro!: option.map_cong)

lemma piece_quote_body: "piece (quote_body s) (to_valid s)"
proof (induction s rule: quote_body.induct)
  case 1
  then show ?case by (simp add: to_valid_def runes_def encode_def piece_Nil)
next
  case (2 c cs)
  obtain r n where d: "decode1 c cs = (r, n)" by fastforce
  have v: "to_valid (c # cs) = encode1 r @ to_valid (drop n cs)" using d by (simp add: to_valid_def runes_def encode_def)
  show ?case
  proof (cases "byte c < 128")
    case True
    with d have "r = byte c" "n = 0" by (simp_all add: decode1_def)
    with v True encode1_ascii [OF True] piece_append [OF piece_ascii [OF True] 2(1) [OF True]] show ?thesis by simp
  next
    case False
    with d have "quote_body (c # cs) = rune_piece c cs r n @ quote_body (drop n cs)" by (simp add: rune_piece_def)
    with v piece_append [OF piece_high [OF d False] 2(2) [OF False d [symmetric] refl]] show ?thesis by simp
  qed
qed

lemma unquote_quoted: "unquote (quote_body s @ CHR 0x22 # X) = Some (to_valid s, X)"
  by (simp add: piece_unquote [OF piece_quote_body] unquote.simps)

lemma accepts_quoted: "accepts (sc InString ps) (quote_body s @ CHR 0x22 # X) = accepts (sc EndValue ps) X"
  by (simp add: piece_accepts [OF piece_quote_body] accepts_Cons scan_byte_def)


subsection \<open>Numbers are read back\<close>

definition number_text :: "string \<Rightarrow> bool" where
  "number_text s \<longleftrightarrow> (\<exists>u w t. number_parts u w t \<and> (s = decimal_text u w t \<or> s = CHR ''-'' # decimal_text u w t))"

lemma number_textI: "number_parts u w t \<Longrightarrow> number_text (decimal_text u w t)" "number_parts u w t \<Longrightarrow> number_text (CHR ''-'' # decimal_text u w t)"
  by (auto simp only: number_text_def)

lemma number_text_Itoa: "number_text (Itoa n)"
proof -
  have "number_parts (digits m) [] []" for m
    using digits_head [of m] digits_nonempty [of m] digits_digit [of m]
    by (cases "m = 0") (simp_all add: number_parts_def exp_text_def digits.simps [of 0])
  from number_textI [OF this] show ?thesis by (simp add: Itoa_def decimal_text_def)
qed

lemma number_text_float:
  assumes "round_double q = Fin q" and "json_float (Fin q) = Some t"
  shows "number_text t"
proof -
  consider "q = 0" | "0 < q" | "q < 0" by linarith
  then show ?thesis
  proof cases
    case 1
    have "number_parts ''0'' [] []" by (simp add: number_parts_def exp_text_def)
    from number_textI(1) [OF this] 1 assms(2) show ?thesis by (simp add: json_float_def decimal_text_def)
  next
    case 2
    with format_pos_shape [OF 2 assms(1)] assms(2) show ?thesis by (auto simp: json_float_def intro: number_textI)
  next
    case 3
    then have "0 < - q" "round_double (- q) = Fin (- q)"
      using assms(1) by (auto simp: round_double_def Let_def split: if_splits)
    from format_pos_shape [OF this] 3 assms(2) show ?thesis by (auto simp: json_float_def intro: number_textI)
  qed
qed

text \<open>A text ends a number when nothing follows that a number could contain.\<close>

definition closes :: "string \<Rightarrow> bool" where
  "closes r \<longleftrightarrow> (case r of [] \<Rightarrow> True | c # _ \<Rightarrow> \<not> num_char c)"

lemma closes_step:
  "st \<in> {Digits, Zero, Dot0, Exp0} \<Longrightarrow> \<not> num_char c \<Longrightarrow> scan_byte c (sc st ps) = scan_byte c (sc EndValue ps)"
  using stateEndValue_any [of c st ps] by (auto simp: num_char_def scan_byte_def state0_def)

lemma closes_accepts:
  assumes "closes r" and "st \<in> {Digits, Zero, Dot0, Exp0}"
  shows "accepts (sc st ps) r = accepts (sc EndValue ps) r"
proof (cases r)
  case Nil
  have "\<not> num_char (CHR '' '')" by (simp add: num_char_def digit_def)
  with closes_step [OF assms(2) this, of ps] assms(2) show ?thesis
    by (auto simp: Nil accepts_def scan_eof_def sc_def)
next
  case (Cons c cs)
  with closes_step [OF assms(2), of c ps] assms(1) show ?thesis by (simp add: closes_def accepts_Cons)
qed

lemma accepts_digits:
  assumes "list_all digit ds" and "st \<in> {Digits, Dot0, Exp0}"
  shows "accepts (sc st ps) (ds @ r) = accepts (sc st ps) r"
  using assms by (induction ds) (auto simp: accepts_Cons scan_byte_def)

lemma accepts_exp:
  assumes "exp_text t" and "closes r" and "st \<in> {Digits, Zero, Dot0}"
  shows "accepts (sc st ps) (t @ r) = accepts (sc EndValue ps) r"
proof (cases "t = []")
  case True
  then show ?thesis using closes_accepts [OF assms(2), of st] assms(3) by auto
next
  case False
  with assms(1) obtain sg d x where t: "t = CHR ''e'' # sg # d # x" "sg = CHR ''+'' \<or> sg = CHR ''-''" "digit d" "list_all digit x"
    by (auto simp: exp_text_def neq_Nil_conv)
  have "accepts (sc st ps) (t @ r) = accepts (sc Exp0 ps) (x @ r)"
    using assms(3) t by (auto simp: accepts_Cons scan_byte_def state0_def stateESign_def digit_def)
  then show ?thesis using accepts_digits [OF t(4), of Exp0 ps r] closes_accepts [OF assms(2), of Exp0] by simp
qed

lemma accepts_fraction:
  assumes "list_all digit w" and "exp_text t" and "closes r" and "st \<in> {Digits, Zero}"
  shows "accepts (sc st ps) ((if w = [] then [] else CHR ''.'' # w) @ t @ r) = accepts (sc EndValue ps) r"
proof (cases w)
  case Nil
  then show ?thesis using accepts_exp [OF assms(2,3), of st] assms(4) by auto
next
  case (Cons d x)
  then have "accepts (sc st ps) ((if w = [] then [] else CHR ''.'' # w) @ t @ r) = accepts (sc Dot0 ps) (x @ t @ r)"
    using assms(1,4) by (auto simp: accepts_Cons scan_byte_def state0_def digit_def)
  then show ?thesis using accepts_digits [of x Dot0 ps "t @ r"] accepts_exp [OF assms(2,3), of Dot0] assms(1) Cons by simp
qed

lemma digit_begin:
  assumes "digit c"
  shows "\<not> json_space c" "c \<notin> set ''{[-tfn]}''" "byte c \<noteq> 0x22" "num_char c"
  using assms by (auto simp: digit_def json_space_def num_char_def)

lemma accepts_decimal:
  assumes "number_parts u w t" and "closes r" and "st \<in> {BeginValue, Neg}"
  shows "accepts (sc st ps) (decimal_text u w t @ r) = accepts (sc EndValue ps) r"
proof -
  from assms(1) have p: "list_all digit u" "list_all digit w" "exp_text t" "u = ''0'' \<or> hd u \<noteq> CHR ''0''"
    by (simp_all add: number_parts_def)
  from assms(1) obtain d x where u: "u = d # x" by (auto simp: number_parts_def neq_Nil_conv)
  have first: "scan_byte d (sc st ps) = sc (if d = CHR ''0'' then Zero else Digits) ps"
  proof -
    have d: "digit d" using p(1) u by simp
    have "st = BeginValue \<or> st = Neg" using assms(3) by simp
    then show ?thesis using d digit_begin(1,3) [OF d] digit_begin(2) [OF d]
      by (elim disjE) (simp_all add: scan_byte_def stateBeginValue_def)
  qed
  have "accepts (sc st ps) (decimal_text u w t @ r)
      = accepts (sc (if d = CHR ''0'' then Zero else Digits) ps) (x @ (if w = [] then [] else CHR ''.'' # w) @ t @ r)"
    using first by (simp add: decimal_text_def u accepts_Cons)
  then show ?thesis
    using p u accepts_digits [of x Digits ps] accepts_fraction [OF p(2,3) assms(2), of Digits] accepts_fraction [OF p(2,3) assms(2), of Zero]
    by (auto split: if_splits)
qed

lemma accepts_number_text: "number_text s \<Longrightarrow> closes r \<Longrightarrow> accepts (sc BeginValue ps) (s @ r) = accepts (sc EndValue ps) r"
  using accepts_decimal [of _ _ _ r BeginValue ps] accepts_decimal [of _ _ _ r Neg ps]
  by (auto simp: number_text_def accepts_Cons scan_byte_def stateBeginValue_def json_space_def)

lemma number_text_chars:
  assumes "number_text s"
  shows "s \<noteq> [] \<and> list_all num_char s \<and> (hd s = CHR ''-'' \<or> digit (hd s))"
proof -
  from assms obtain u w t where n: "number_parts u w t" "s = decimal_text u w t \<or> s = CHR ''-'' # decimal_text u w t"
    by (auto simp only: number_text_def)
  have d: "list_all num_char x" if "list_all digit x" for x using that digit_begin(4) by (auto simp: list_all_iff)
  have m: "num_char (CHR ''-'')" "num_char (CHR ''+'')" "num_char (CHR ''.'')" "num_char (CHR ''e'')" by (simp_all add: num_char_def)
  from n(1) obtain c x where u: "u = c # x" "digit c" "list_all digit x" by (cases u) (auto simp: number_parts_def)
  have "list_all num_char (decimal_text u w t)"
    using n(1) d m by (auto simp: decimal_text_def number_parts_def exp_text_def)
  with n(2) u m show ?thesis by (auto simp: decimal_text_def)
qed

lemma parse_number_text:
  assumes "number_text s" and "closes r"
  shows "parse_value (s @ r) = Some (JNum s, r)"
proof -
  from number_text_chars [OF assms(1)] obtain c cs where s: "s = c # cs" "list_all num_char (c # cs)" "c = CHR ''-'' \<or> digit c"
    by (cases s) auto
  have "takeWhile num_char (s @ r) = s" "dropWhile num_char (s @ r) = r"
    using s(1,2) assms(2) by (auto simp: list_all_iff closes_def takeWhile_append dropWhile_append split: list.splits)
  moreover have "\<not> json_space c" using s(3) digit_begin(1) by (auto simp: json_space_def)
  then have "skip_space (s @ r) = s @ r" using s(1) by (simp add: skip_space_def)
  moreover have "c \<noteq> CHR ''{''" "c \<noteq> CHR ''[''" "byte c \<noteq> 34" "c \<noteq> CHR ''t''" "c \<noteq> CHR ''f''" "c \<noteq> CHR ''n''"
    using s(3) digit_begin [of c] by auto
  moreover have "num_char c" using s(2) by simp
  ultimately show ?thesis using s(1) by (simp add: parse_value.simps [of "c # cs @ r"])
qed


subsection \<open>Values are read back\<close>

text \<open>
  A text that stands for a value: wherever a value may begin, the scanner goes over it and the
  decoder reads the value, whatever follows, provided that it is nothing that could continue a number.
\<close>

definition reads :: "pstate list \<Rightarrow> string \<Rightarrow> jval \<Rightarrow> bool" where
  "reads ps s v \<longleftrightarrow>
     (\<exists>c cs. s = c # cs \<and> \<not> json_space c \<and> c \<noteq> CHR '']'')
     \<and> (\<forall>r. closes r \<longrightarrow> parse_value (s @ r) = Some (v, r) \<and> accepts (sc BeginValue ps) (s @ r) = accepts (sc EndValue ps) r)"

lemma reads_number: "number_text s \<Longrightarrow> reads ps s (JNum s)"
  using number_text_chars [of s] digit_begin [of "hd s"] accepts_number_text [of s] parse_number_text [of s]
  by (cases s) (auto simp: reads_def json_space_def)

lemma readsI:
  assumes "s = c # cs" and "\<not> json_space c" and "c \<noteq> CHR '']''"
    and "\<And>r. closes r \<Longrightarrow> parse_value (s @ r) = Some (v, r)"
    and "\<And>r. closes r \<Longrightarrow> accepts (sc BeginValue ps) (s @ r) = accepts (sc EndValue ps) r"
  shows "reads ps s v"
  using assms by (simp add: reads_def)

lemmas begin_defs = skip_space_def json_space_def accepts_Cons scan_byte_def stateBeginValue_def

lemma reads_null: "reads ps ''null'' JNull"
  by (rule readsI, rule refl) (simp_all add: begin_defs parse_value.simps [of "''null'' @ r" for r, simplified])

lemma reads_bool: "reads ps (if b then ''true'' else ''false'') (JBool b)"
proof (cases b)
  case True
  then show ?thesis
    by (intro readsI [of _ "CHR ''t''" "''rue''"]) (simp_all add: begin_defs parse_value.simps [of "''true'' @ r" for r, simplified])
next
  case False
  then show ?thesis
    by (intro readsI [of _ "CHR ''f''" "''alse''"]) (simp_all add: begin_defs parse_value.simps [of "''false'' @ r" for r, simplified])
qed

lemma reads_string:
  assumes "\<And>X. unquote (b @ CHR 0x22 # X) = Some (t, X)"
    and "\<And>X. accepts (sc InString ps) (b @ CHR 0x22 # X) = accepts (sc EndValue ps) X"
  shows "reads ps (CHR 0x22 # b @ [CHR 0x22]) (JStr t)"
  by (rule readsI, rule refl)
    (simp_all add: begin_defs assms parse_value.simps [of "CHR 0x22 # b @ CHR 0x22 # r" for r, simplified])

lemma reads_quoted: "reads ps (quoted s) (JStr (to_valid s))"
  unfolding quoted_def by (rule reads_string) (rule unquote_quoted accepts_quoted)+

lemma piece_list:
  "list_all (\<lambda>c. 0x20 \<le> byte c \<and> byte c < 128 \<and> byte c \<noteq> 0x22 \<and> byte c \<noteq> 0x5C) s \<Longrightarrow> piece s s"
proof (induction s)
  case (Cons c s)
  with piece_append [OF piece_plain [of c]] show ?case by simp
qed (simp add: piece_Nil)

lemma reads_time: "MarshalTime Z t = Some s \<Longrightarrow> reads ps (CHR 0x22 # s @ [CHR 0x22]) (JStr s)"
proof -
  assume "MarshalTime Z t = Some s"
  from MarshalTime_chars [OF this] have p: "piece s s"
    by (intro piece_list) (auto simp: list_all_iff dest!: time_char_plain)
  show ?thesis
    by (rule reads_string) (simp_all add: piece_unquote [OF p] piece_accepts [OF p] unquote.simps accepts_Cons scan_byte_def)
qed

lemma readsD:
  assumes "reads ps s v" and "closes r"
  shows "parse_value (s @ r) = Some (v, r)" "accepts (sc BeginValue ps) (s @ r) = accepts (sc EndValue ps) r"
  using assms by (simp_all add: reads_def)

lemma closes_mark: "c \<in> set '',]}'' \<Longrightarrow> closes (c # r)"
  by (auto simp: closes_def num_char_def digit_def)

lemma expect_head: "\<not> json_space d \<Longrightarrow> expect c (d # r) = (if d = c then Some r else None)"
  by (simp add: expect_def skip_space_def)

lemma marks_not_space: "\<not> json_space (CHR '','')" "\<not> json_space (CHR '']'')" "\<not> json_space (CHR ''}'')" "\<not> json_space (CHR '':'')"
  "\<not> json_space (CHR 0x22)"
  by (simp_all add: json_space_def)

lemma end_marks:
  "accepts (sc EndValue (parseArrayValue # ps)) (CHR '','' # r) = accepts (sc BeginValue (parseArrayValue # ps)) r"
  "accepts (sc EndValue (parseArrayValue # ps)) (CHR '']'' # r) = accepts (sc EndValue ps) r"
  "accepts (sc EndValue (parseObjectValue # ps)) (CHR '','' # r) = accepts (sc BeginString (parseObjectKey # ps)) r"
  "accepts (sc EndValue (parseObjectValue # ps)) (CHR ''}'' # r) = accepts (sc EndValue ps) r"
  "accepts (sc EndValue (parseObjectKey # ps)) (CHR '':'' # r) = accepts (sc BeginValue (parseObjectValue # ps)) r"
  by (simp_all add: accepts_Cons scan_byte_def stateEndValue_def marks_not_space accepts_pop)

lemma commas_Cons: "commas (t # ts) = (if ts = [] then t else t @ '','' @ commas ts)"
  by (cases ts) simp_all

lemma reads_elements:
  assumes "list_all2 (reads (parseArrayValue # ps)) ts vs" and "ts \<noteq> []"
  shows "parse_elements (commas ts @ '']'' @ r) = Some (vs, r)
    \<and> accepts (sc BeginValue (parseArrayValue # ps)) (commas ts @ '']'' @ r) = accepts (sc EndValue ps) r"
  using assms
proof (induction ts vs rule: list_all2_induct)
  case (Cons t ts v vs)
  show ?case
  proof (cases "ts = []")
    case True
    with Cons(2) readsD [OF Cons(1), of "'']'' @ r"] show ?thesis
      by (simp add: closes_mark parse_elements.simps [of "t @ CHR '']'' # r"] expect_head marks_not_space end_marks)
  next
    case False
    let ?r = "CHR '','' # commas ts @ '']'' @ r"
    note ih = Cons(3) [OF False]
    from readsD [OF Cons(1), of ?r] ih False show ?thesis
      by (simp add: commas_Cons closes_mark parse_elements.simps [of "t @ ?r", simplified] expect_head marks_not_space end_marks)
  qed
qed simp

definition member_text :: "string \<Rightarrow> string \<Rightarrow> string" where
  "member_text k t = quoted k @ '':'' @ t"

lemma parse_members_step:
  assumes "parse_value (t @ X) = Some (v, X)"
  shows "parse_members (member_text k t @ X) =
     (case expect (CHR '','') X of
        Some r' \<Rightarrow> if length r' < length (member_text k t @ X) then map_option (apfst ((#) (to_valid k, v))) (parse_members r') else None
      | None \<Rightarrow> map_option (Pair [(to_valid k, v)]) (expect (CHR ''}'') X))"
  unfolding parse_members.simps [of "member_text k t @ X"]
  using assms unquote_quoted [of k "CHR '':'' # t @ X"]
  by (simp add: member_text_def quoted_def expect_head marks_not_space)

lemma accepts_member:
  "accepts (sc BeginString (parseObjectKey # ps)) (member_text k t @ X) = accepts (sc BeginValue (parseObjectValue # ps)) (t @ X)"
  using accepts_quoted [of "parseObjectKey # ps" k "CHR '':'' # t @ X"]
  by (simp add: member_text_def quoted_def accepts_Cons [of "sc BeginString (parseObjectKey # ps)"] scan_byte_def stateBeginString_def marks_not_space end_marks)

lemma reads_members:
  assumes "list_all2 (\<lambda>(k, t) (k', v). k' = to_valid k \<and> reads (parseObjectValue # ps) t v) kts kvs" and "kts \<noteq> []"
  shows "parse_members (commas (map (\<lambda>(k, t). member_text k t) kts) @ ''}'' @ r) = Some (kvs, r)
    \<and> accepts (sc BeginString (parseObjectKey # ps)) (commas (map (\<lambda>(k, t). member_text k t) kts) @ ''}'' @ r) = accepts (sc EndValue ps) r"
  using assms
proof (induction kts kvs rule: list_all2_induct)
  case (Cons kt kts kv kvs)
  obtain k t v where kt: "kt = (k, t)" "kv = (to_valid k, v)" "reads (parseObjectValue # ps) t v"
    using Cons(1) by (cases kt; cases kv) auto
  show ?case
  proof (cases "kts = []")
    case True
    with Cons(2) kt readsD [OF kt(3), of "''}'' @ r"] parse_members_step [of t "''}'' @ r" v k] show ?thesis
      by (simp add: closes_mark expect_head marks_not_space end_marks accepts_member)
  next
    case False
    let ?r = "CHR '','' # commas (map (\<lambda>(k, t). member_text k t) kts) @ ''}'' @ r"
    note ih = Cons(3) [OF False]
    from kt readsD [OF kt(3), of ?r] parse_members_step [of t ?r v k] ih False show ?thesis
      by (simp add: commas_Cons closes_mark expect_head marks_not_space end_marks accepts_member)
  qed
qed simp

lemma accepts_push_iff: "length ps < 10000 \<Longrightarrow> accepts (pushParseState p st (sc st0 ps)) cs = accepts (sc st (p # ps)) cs"
  by (simp add: pushParseState_def sc_def)

lemma reads_head: "reads ps t v \<Longrightarrow> \<exists>c cs. t = c # cs \<and> \<not> json_space c \<and> c \<noteq> CHR '']''"
  by (simp add: reads_def)

lemma parse_array:
  "parse_value (CHR ''['' # X) =
     (case expect (CHR '']'') X of Some r \<Rightarrow> Some (JArr [], r) | None \<Rightarrow> map_option (apfst JArr) (parse_elements X))"
  by (simp add: parse_value.simps [of "CHR ''['' # X"] skip_space_def json_space_def)

lemma parse_object:
  "parse_value (CHR ''{'' # X) =
     (case expect (CHR ''}'') X of Some r \<Rightarrow> Some (JObj [], r) | None \<Rightarrow> map_option (apfst JObj) (parse_members X))"
  by (simp add: parse_value.simps [of "CHR ''{'' # X"] skip_space_def json_space_def)

lemma begin_array:
  assumes "length ps < 10000"
  shows "accepts (sc BeginValue ps) (CHR ''['' # CHR '']'' # r) = accepts (sc EndValue ps) r"
    and "\<not> json_space c \<Longrightarrow> c \<noteq> CHR '']'' \<Longrightarrow>
      accepts (sc BeginValue ps) (CHR ''['' # c # X) = accepts (sc BeginValue (parseArrayValue # ps)) (c # X)"
proof -
  have st: "accepts (sc BeginValue ps) (CHR ''['' # X) = accepts (sc BeginValueOrEmpty (parseArrayValue # ps)) X" for X
    using assms by (simp add: accepts_Cons scan_byte_def stateBeginValue_def json_space_def accepts_push_iff)
  show "accepts (sc BeginValue ps) (CHR ''['' # CHR '']'' # r) = accepts (sc EndValue ps) r"
    by (simp add: st) (simp add: accepts_Cons scan_byte_def stateEndValue_def json_space_def accepts_pop)
  show "accepts (sc BeginValue ps) (CHR ''['' # c # X) = accepts (sc BeginValue (parseArrayValue # ps)) (c # X)"
    if "\<not> json_space c" "c \<noteq> CHR '']''"
    using that by (simp add: st) (simp add: accepts_Cons scan_byte_def stateBeginValue_def pushParseState_def to_error_def sc_def)
qed

lemma begin_object:
  assumes "length ps < 10000"
  shows "accepts (sc BeginValue ps) (CHR ''{'' # CHR ''}'' # r) = accepts (sc EndValue ps) r"
    and "accepts (sc BeginValue ps) (CHR ''{'' # CHR 0x22 # X) = accepts (sc BeginString (parseObjectKey # ps)) (CHR 0x22 # X)"
proof -
  have st: "accepts (sc BeginValue ps) (CHR ''{'' # X) = accepts (sc BeginStringOrEmpty (parseObjectKey # ps)) X" for X
    using assms by (simp add: accepts_Cons scan_byte_def stateBeginValue_def json_space_def accepts_push_iff)
  show "accepts (sc BeginValue ps) (CHR ''{'' # CHR ''}'' # r) = accepts (sc EndValue ps) r"
    by (simp add: st) (simp add: accepts_Cons scan_byte_def stateEndValue_def json_space_def accepts_pop)
  show "accepts (sc BeginValue ps) (CHR ''{'' # CHR 0x22 # X) = accepts (sc BeginString (parseObjectKey # ps)) (CHR 0x22 # X)"
    by (simp add: st) (simp add: accepts_Cons scan_byte_def stateBeginString_def sc_def json_space_def)
qed

lemma reads_array:
  assumes "list_all2 (reads (parseArrayValue # ps)) ts vs" and "length ps < 10000"
  shows "reads ps (''['' @ commas ts @ '']'') (JArr vs)"
proof (cases "ts = []")
  case True
  with assms begin_array(1) [OF assms(2)] show ?thesis
    by (intro readsI [of _ "CHR ''[''" "'']''"]) (simp_all add: json_space_def parse_array expect_head)
next
  case False
  then obtain t ts' v vs' where ts: "ts = t # ts'" "reads (parseArrayValue # ps) t v"
    using assms(1) by (cases ts; cases vs) auto
  from reads_head [OF ts(2)] obtain c X where c: "commas ts = c # X" "\<not> json_space c" "c \<noteq> CHR '']''"
    by (cases "ts' = []") (auto simp: ts(1) commas_Cons)
  from reads_elements [OF assms(1) False] begin_array(2) [OF assms(2) c(2,3)] c show ?thesis
    by (intro readsI [of _ "CHR ''[''" "commas ts @ '']''"]) (simp_all add: marks_not_space json_space_def [of "CHR ''[''"] parse_array expect_head)
qed

lemma reads_object:
  assumes "list_all2 (\<lambda>(k, t) (k', v). k' = to_valid k \<and> reads (parseObjectValue # ps) t v) kts kvs" and "length ps < 10000"
  shows "reads ps (''{'' @ commas (map (\<lambda>(k, t). member_text k t) kts) @ ''}'') (JObj kvs)"
proof (cases "kts = []")
  case True
  with assms begin_object(1) [OF assms(2)] show ?thesis
    by (intro readsI [of _ "CHR ''{''" "''}''"]) (simp_all add: json_space_def parse_object expect_head)
next
  case False
  let ?m = "commas (map (\<lambda>(k, t). member_text k t) kts)"
  obtain X where c: "?m = CHR 0x22 # X"
    using False by (cases kts; cases "tl kts = []") (auto simp: commas_Cons member_text_def quoted_def)
  from reads_members [OF assms(1) False] begin_object(2) [OF assms(2)] c show ?thesis
    by (intro readsI [of _ "CHR ''{''" "?m @ ''}''"]) (simp_all add: json_space_def parse_object expect_head)
qed

lemma all_some_map: "all_some (map f xs) = Some ys \<longleftrightarrow> list_all2 (\<lambda>x y. f x = Some y) xs ys"
  by (induction xs arbitrary: ys) (auto simp: list_all2_Cons1 split: option.splits)

lemma Marshal_reads:
  "Marshal Z v = Some s \<Longrightarrow> doubles v \<Longrightarrow> depth_le n v \<Longrightarrow> length ps + n \<le> 10000 \<Longrightarrow> reads ps s (jval_of Z v)"
proof (induction v arbitrary: s n ps)
  case (VFloat x)
  then obtain q where "x = Fin q" by (cases x) (auto simp: json_float_def)
  with VFloat number_text_float [of q s] show ?case by (auto intro: reads_number)
next
  case (VArr vs)
  from VArr.prems(1) obtain ts where s: "s = ''['' @ commas ts @ '']''" "list_all2 (\<lambda>v t. Marshal Z v = Some t) vs ts"
    by (auto simp: all_some_map)
  have "list_all2 (reads (parseArrayValue # ps)) ts (map (jval_of Z) vs)"
    using s(2) VArr.prems(2-4) VArr.IH [of _ _ "n - 1" "parseArrayValue # ps"]
    by (auto simp: list_all2_conv_all_nth list_all_iff)
  from reads_array [OF this] VArr.prems(3,4) show ?case by (simp add: s(1))
next
  case (VObj fs)
  then obtain ts where s: "s = ''{'' @ commas ts @ ''}''"
      "list_all2 (\<lambda>(k, v) t. map_option (\<lambda>t. quoted k @ '':'' @ t) (Marshal Z v) = Some t) fs ts"
    by (auto simp: all_some_map case_prod_unfold)
  define kts where "kts = map (\<lambda>(k, v). (k, the (Marshal Z v))) fs"
  have t: "ts = map (\<lambda>(k, t). member_text k t) kts"
    unfolding kts_def using s(2)
    by (induction fs ts rule: list_all2_induct) (auto simp: member_text_def)
  have r: "reads (parseObjectValue # ps) (the (Marshal Z (snd f))) (jval_of Z (snd f))" if "f \<in> set fs" for f
  proof -
    from that s(2) obtain t' where "Marshal Z (snd f) = Some t'"
      by (auto simp: list_all2_conv_all_nth in_set_conv_nth case_prod_unfold)
    moreover have "doubles (snd f)" "depth_le (n - 1) (snd f)" "0 < n"
      using that VObj.prems(2,3) by (auto simp: list_all_iff case_prod_unfold)
    ultimately show ?thesis using VObj.IH [of f "snd f" t' "n - 1" "parseObjectValue # ps"] that VObj.prems(4)
      by (cases f) (auto simp: snds.simps)
  qed
  have "list_all2 (\<lambda>(k, t) (k', v). k' = to_valid k \<and> reads (parseObjectValue # ps) t v) kts
      (map (\<lambda>(k, v). (to_valid k, jval_of Z v)) fs)"
    using r by (auto simp: kts_def list_all2_conv_all_nth case_prod_unfold)
  from reads_object [OF this] VObj.prems(3,4) show ?case by (simp add: s(1) t)
qed (auto simp: reads_null reads_quoted reads_time intro: reads_number number_text_Itoa reads_bool [simplified])

text \<open>What is encoded is valid JSON, and the decoder reads the value back; white space may follow.\<close>

lemma Marshal_parse_doc:
  assumes "Marshal Z v = Some s" and "doubles v" and "depth_le 10000 v" and "list_all json_space r"
  shows "json_Valid (s @ r)" "parse_doc (s @ r) = Some (jval_of Z v)"
proof -
  have i: "reset = sc BeginValue []" by (simp add: reset_def sc_def)
  have c: "closes r" using assms(4) by (cases r) (auto simp: closes_def num_char_def digit_def json_space_def)
  have "accepts (sc EndValue []) r" using assms(4)
    by (induction r) (simp_all add: end_space, simp add: accepts_def scan_eof_def scan_defs json_space_def)
  with readsD [OF Marshal_reads [OF assms(1-3), of "[]"] c]
  show "json_Valid (s @ r)" "parse_doc (s @ r) = Some (jval_of Z v)"
    by (simp_all add: parse_doc_def json_Valid_def i accepts_def)
qed

text \<open>What the encoder refuses: a float that is not finite, a time that cannot be printed.\<close>

fun printable :: "zone \<Rightarrow> json \<Rightarrow> bool" where
  "printable Z (VFloat x) \<longleftrightarrow> (case x of Fin _ \<Rightarrow> True | _ \<Rightarrow> False)"
| "printable Z (VTime t) \<longleftrightarrow> MarshalTime Z t \<noteq> None"
| "printable Z (VArr vs) \<longleftrightarrow> list_all (printable Z) vs"
| "printable Z (VObj fs) \<longleftrightarrow> list_all (\<lambda>(k, v). printable Z v) fs"
| "printable Z v \<longleftrightarrow> True"

lemma all_some_None: "all_some (map f xs) = None \<longleftrightarrow> (\<exists>x \<in> set xs. f x = None)"
  by (induction xs) (auto split: option.splits)

lemma Marshal_None: "Marshal Z v = None \<longleftrightarrow> \<not> printable Z v"
proof (induction v)
  case (VArr vs)
  then show ?case by (auto simp: all_some_None list_all_iff)
next
  case (VObj fs)
  have "Marshal Z (snd f) = None \<longleftrightarrow> \<not> printable Z (snd f)" if "f \<in> set fs" for f
    using VObj [OF that, of "snd f"] by (cases f) simp
  then show ?case by (auto simp: all_some_None list_all_iff case_prod_unfold)
qed (auto simp: json_float_def split: float64.splits)

lemma to_valid_ascii: "is_ascii s \<Longrightarrow> to_valid s = s"
proof (induction s)
  case (Cons c s)
  then show ?case
    by (simp add: to_valid_def runes_def encode_def is_ascii_def encode1_ascii [simplified] del: encode1_def)
qed (simp add: to_valid_def runes_def encode_def)

end
