(* ===== verification/Ingest.thy ===== *)
theory Ingest
  imports Delivery Go_Hash Go_Encode
begin

text \<open>
  Package \<open>ingest\<close>: the HTTP boundary. A request is its method, its decoded path segments, what its
  body yields before it ends or fails, and the source header; a response is a status and the
  value handed to the encoder, or none for an answer of the library's own. The handlers are written
  over the interface \<open>Store\<close>, whose part for the ingestion path is the locale \<open>ingest_store\<close>,
  interpreted on \<open>InsertRaw\<close>. The notifier is the queue's channel.
\<close>

record request =
  rq_method :: string
  rq_path :: "string list"
  rq_body :: bytes
  rq_body_err :: bool
  rq_source :: string

record response =
  rp_status :: nat
  rp_body :: "json option"

abbreviation StatusOK :: nat where "StatusOK \<equiv> 200"
abbreviation StatusAccepted :: nat where "StatusAccepted \<equiv> 202"
abbreviation StatusBadRequest :: nat where "StatusBadRequest \<equiv> 400"
abbreviation StatusNotFound :: nat where "StatusNotFound \<equiv> 404"
abbreviation StatusMethodNotAllowed :: nat where "StatusMethodNotAllowed \<equiv> 405"
abbreviation StatusRequestEntityTooLarge :: nat where "StatusRequestEntityTooLarge \<equiv> 413"
abbreviation StatusInternalServerError :: nat where "StatusInternalServerError \<equiv> 500"
abbreviation StatusServiceUnavailable :: nat where "StatusServiceUnavailable \<equiv> 503"

definition maxBodyBytes :: nat where
  "maxBodyBytes = 2 ^ 20"

subsection \<open>Writing responses\<close>

definition writeJSON :: "nat \<Rightarrow> json \<Rightarrow> response" where
  "writeJSON status v = \<lparr>rp_status = status, rp_body = Some v\<rparr>"

definition writeError :: "nat \<Rightarrow> string \<Rightarrow> response" where
  "writeError status msg = writeJSON status (VObj [(''error'', VStr msg)])"

fun status_text :: "RawStatus \<Rightarrow> string" where
  "status_text StatusPending = ''PENDING''"
| "status_text StatusProcessing = ''PROCESSING''"
| "status_text StatusProcessed = ''PROCESSED''"
| "status_text StatusFailed = ''FAILED''"

text \<open>A field with \<open>omitempty\<close>, and a pointer field without it.\<close>

definition omitempty :: "string \<Rightarrow> ('a \<Rightarrow> json) \<Rightarrow> 'a option \<Rightarrow> (string \<times> json) list" where
  "omitempty k f x = (case x of None \<Rightarrow> [] | Some v \<Rightarrow> [(k, f v)])"

definition nullable :: "('a \<Rightarrow> json) \<Rightarrow> 'a option \<Rightarrow> json" where
  "nullable f x = (case x of None \<Rightarrow> VNull | Some v \<Rightarrow> f v)"

text \<open>A timestamp of the database is a \<open>time.Time\<close>, counted in nanoseconds.\<close>

definition time_json :: "timestamptz \<Rightarrow> json" where
  "time_json t = VTime (t * 1000)"

definition event_json :: "EventView \<Rightarrow> json" where
  "event_json v = VObj
     ([(''id'', VStr (ev_ID v)), (''status'', VStr (status_text (ev_Status v))), (''attempts'', VInt (ev_Attempts v))]
      @ omitempty ''error'' VStr (ev_Error v) @ omitempty ''classification'' VStr (ev_Classification v)
      @ omitempty ''entity_key'' VStr (ev_EntityKey v) @ omitempty ''canonical_state'' VStr (ev_CanonicalState v)
      @ omitempty ''confidence'' VFloat (ev_Confidence v) @ [(''received_at'', time_json (ev_ReceivedAt v))]
      @ omitempty ''processed_at'' time_json (ev_ProcessedAt v))"

definition entity_json :: "Entity \<Rightarrow> json" where
  "entity_json e = VObj
     [(''entity_key'', VStr (e_EntityKey e)), (''type'', VStr (e_Type e)), (''current_state'', VStr (e_CurrentState e)),
      (''current_rank'', VInt (e_CurrentRank e)), (''last_event_time'', nullable time_json (e_LastEventTime e)),
      (''amount_minor'', nullable VInt (e_AmountMinor e)), (''currency'', nullable VStr (e_Currency e)),
      (''updated_at'', time_json (e_UpdatedAt e))]"

text \<open>The map of the acknowledgement, with its keys in the order the encoder sorts them.\<close>

definition accepted_json :: "string \<Rightarrow> bool \<Rightarrow> json" where
  "accepted_json eid isNew =
     VObj [(''duplicate'', VBool (\<not> isNew)), (''id'', VStr eid), (''status'', VStr ''accepted'')]"

subsection \<open>Handlers\<close>

text \<open>\<open>io.ReadAll(http.MaxBytesReader(...))\<close>: an error for a body over the limit or one that breaks off.\<close>

definition read_body :: "request \<Rightarrow> bytes option" where
  "read_body r = (if length (rq_body r) > maxBodyBytes \<or> rq_body_err r then None else Some (rq_body r))"

definition payload_hash :: "bytes \<Rightarrow> string" where
  "payload_hash body = EncodeToString (Sum256 body)"

definition ingest ::
  "(string \<Rightarrow> bytes \<Rightarrow> string \<Rightarrow> 's \<Rightarrow> (go_error + string \<times> bool) \<times> 's) \<Rightarrow> request \<Rightarrow> Postgres \<times> 's
    \<Rightarrow> response \<times> Postgres \<times> 's" where
  "ingest ins r = (\<lambda>(q, s).
     (case read_body r of
        None \<Rightarrow> (writeError StatusRequestEntityTooLarge ''request body too large or unreadable'', q, s)
      | Some body \<Rightarrow>
          if \<not> json_Valid body then (writeError StatusBadRequest ''request body is not valid JSON'', q, s)
          else
            (case ins (payload_hash body) body (TrimSpace (rq_source r)) s of
               (Inl err, s') \<Rightarrow> (writeError StatusInternalServerError ''could not accept webhook'', q, s')
             | (Inr (eid, isNew), s') \<Rightarrow>
                 (writeJSON StatusAccepted (accepted_json eid isNew), if isNew then Notify q else q, s'))))"

definition hex_ascii :: "char \<Rightarrow> bool" where
  "hex_ascii c \<longleftrightarrow> 48 \<le> byte c \<and> byte c \<le> 57 \<or> 97 \<le> byte c \<and> byte c \<le> 102 \<or> 65 \<le> byte c \<and> byte c \<le> 70"

definition uuidPattern :: "string \<Rightarrow> bool" where
  "uuidPattern s \<longleftrightarrow> length s = 36
     \<and> list_all (\<lambda>i. if i \<in> {8, 13, 18, 23} then s ! i = CHR ''-'' else hex_ascii (s ! i)) [0..<36]"

definition getEvent :: "(string \<Rightarrow> 's \<Rightarrow> (go_error + EventView option) \<times> 's) \<Rightarrow> string \<Rightarrow> 's \<Rightarrow> response \<times> 's" where
  "getEvent get eid s =
     (if \<not> uuidPattern eid then (writeError StatusBadRequest ''invalid event id'', s)
      else (case get eid s of
         (Inl err, s') \<Rightarrow> (writeError StatusInternalServerError ''lookup failed'', s')
       | (Inr None, s') \<Rightarrow> (writeError StatusNotFound ''event not found'', s')
       | (Inr (Some ev), s') \<Rightarrow> (writeJSON StatusOK (event_json ev), s')))"

definition getEntity ::
  "unicode \<Rightarrow> (string \<Rightarrow> 's \<Rightarrow> (go_error + Entity option) \<times> 's) \<Rightarrow> string \<Rightarrow> 's \<Rightarrow> response \<times> 's" where
  "getEntity U get key s =
     (case get (CanonicalKey U key) s of
        (Inl err, s') \<Rightarrow> (writeError StatusInternalServerError ''lookup failed'', s')
      | (Inr None, s') \<Rightarrow> (writeError StatusNotFound ''entity not found'', s')
      | (Inr (Some e), s') \<Rightarrow> (writeJSON StatusOK (entity_json e), s'))"

definition health :: "('s \<Rightarrow> (go_error + unit) \<times> 's) \<Rightarrow> 's \<Rightarrow> response \<times> 's" where
  "health ping s =
     (case ping s of
        (Inl err, s') \<Rightarrow> (writeJSON StatusServiceUnavailable (VObj [(''status'', VStr ''unavailable'')]), s')
      | (Inr _, s') \<Rightarrow> (writeJSON StatusOK (VObj [(''status'', VStr ''ok'')]), s'))"

subsection \<open>Routes on the real store\<close>

record api_env =
  a_debug :: bool
  a_now :: timestamptz
  a_new_id :: string
  a_fault1 :: fault
  a_fault2 :: fault

text \<open>\<open>withLogging\<close> at debug level replaces the body by what a limited read of it gives, errors ignored.\<close>

definition withLogging :: "bool \<Rightarrow> request \<Rightarrow> request" where
  "withLogging debug r =
     (if debug then r\<lparr>rq_body := take maxBodyBytes (rq_body r), rq_body_err := False\<rparr> else r)"

text \<open>
  The routes. A wildcard matches one segment that is not empty, a \<open>GET\<close> pattern also serves \<open>HEAD\<close>;
  a path that only another method is registered for is answered with 405, an unknown one with
  404 (by the library, not with a JSON body).
\<close>

definition mux ::
  "unicode \<Rightarrow> pg \<Rightarrow> api_env \<Rightarrow> request \<Rightarrow> Postgres \<times> db \<Rightarrow> response \<times> Postgres \<times> db" where
  "mux U P env r = (\<lambda>(q, d).
     (let get = rq_method r = ''GET'' \<or> rq_method r = ''HEAD'';
          plain = (\<lambda>code. (\<lparr>rp_status = code, rp_body = None\<rparr>, q, d));
          read = (\<lambda>f. if get then (case f d of (rp, d') \<Rightarrow> (rp, q, d')) else plain StatusMethodNotAllowed)
      in case rq_path r of
           [x] \<Rightarrow>
             if x = ''webhooks'' then
               if rq_method r = ''POST'' then
                 ingest (InsertRaw P (a_fault1 env) (a_fault2 env) (a_now env) (a_new_id env)) r (q, d)
               else plain StatusMethodNotAllowed
             else if x = ''healthz'' then read (health (Ping (a_fault1 env)))
             else plain StatusNotFound
         | [x, y] \<Rightarrow>
             if x = ''events'' \<and> y \<noteq> '''' then read (getEvent (GetEvent P (a_fault1 env)) y)
             else if x = ''entities'' \<and> y \<noteq> '''' then read (getEntity U (GetEntity (a_fault1 env)) y)
             else plain StatusNotFound
         | _ \<Rightarrow> plain StatusNotFound))"

definition Routes ::
  "unicode \<Rightarrow> pg \<Rightarrow> api_env \<Rightarrow> request \<Rightarrow> Postgres \<times> db \<Rightarrow> response \<times> Postgres \<times> db" where
  "Routes U P env r = mux U P env (withLogging (a_debug env) r)"

subsection \<open>The contract of the store towards the ingestion path\<close>

text \<open>
  \<open>holds s h\<close> is the id under which the store has a payload of hash \<open>h\<close>. A successful insert
  leaves the payload held under the id it returns and is new exactly when it was not held
  before; whatever an insert does, what is held stays held under its id.
\<close>

locale ingest_store =
  fixes ins :: "string \<Rightarrow> bytes \<Rightarrow> string \<Rightarrow> 's \<Rightarrow> (go_error + string \<times> bool) \<times> 's"
    and holds :: "'s \<Rightarrow> string \<Rightarrow> string option"
  assumes ins_ok: "ins h body src s = (Inr (eid, isNew), s') \<Longrightarrow>
      holds s' h = Some eid \<and> (isNew \<longleftrightarrow> holds s h = None)"
    and ins_dup: "ins h body src s = (Inr (eid, False), s') \<Longrightarrow> s' = s"
    and ins_keeps: "holds s h' = Some i \<Longrightarrow> holds (snd (ins h body src s)) h' = Some i"
begin

lemma ingest_status:
  "rp_status (fst (ingest ins r (q, s))) =
     (case read_body r of
        None \<Rightarrow> StatusRequestEntityTooLarge
      | Some body \<Rightarrow>
          if \<not> json_Valid body then StatusBadRequest
          else (case fst (ins (payload_hash body) body (TrimSpace (rq_source r)) s) of
                  Inl err \<Rightarrow> StatusInternalServerError | Inr _ \<Rightarrow> StatusAccepted))"
  by (auto simp: ingest_def writeError_def writeJSON_def split: option.splits prod.splits sum.splits)

lemma ingest_accepted:
  assumes "ingest ins r (q, s) = (rp, q', s')" and "rp_status rp = StatusAccepted"
  obtains body eid where "read_body r = Some body" "json_Valid body"
    "rp_body rp = Some (accepted_json eid (holds s (payload_hash body) = None))"
    "holds s' (payload_hash body) = Some eid"
    "q' = (if holds s (payload_hash body) = None then Notify q else q)"
    "holds s (payload_hash body) \<noteq> None \<longrightarrow> s' = s"
proof -
  obtain body where body: "read_body r = Some body" "json_Valid body"
    using assms by (auto simp: ingest_def writeError_def writeJSON_def split: option.splits if_splits)
  let ?h = "payload_hash body"
  obtain x s1 where i: "ins ?h body (TrimSpace (rq_source r)) s = (x, s1)" by fastforce
  with assms body obtain eid isNew where x: "x = Inr (eid, isNew)"
    by (auto simp: ingest_def writeError_def writeJSON_def split: sum.splits)
  have ok: "holds s1 ?h = Some eid" "isNew \<longleftrightarrow> holds s ?h = None"
    using ins_ok i x by blast+
  have dup: "\<not> isNew \<longrightarrow> s1 = s" using ins_dup i x by metis
  have "rp = writeJSON StatusAccepted (accepted_json eid isNew)" "q' = (if isNew then Notify q else q)" "s' = s1"
    using assms(1) body i x by (simp_all add: ingest_def split: if_splits)
  with body ok dup show thesis
    by (intro that [of body eid]) (simp_all add: writeJSON_def accepted_json_def)
qed

end

definition held :: "db \<Rightarrow> string \<Rightarrow> string option" where
  "held d h = map_option rr_id (select_by rr_payload_hash h (raw_events d))"

lemma held_append:
  "held (d\<lparr>raw_events := raw_events d @ [r]\<rparr>) h =
     (case held d h of None \<Rightarrow> if rr_payload_hash r = h then Some (rr_id r) else None | Some i \<Rightarrow> Some i)"
  by (simp add: held_def table_simps split: option.splits)

lemma held_None: "held d h = None \<longleftrightarrow> h \<notin> rr_payload_hash ` set (raw_events d)"
  by (simp add: held_def select_by_None)

interpretation ing: ingest_store "InsertRaw P f1 f2 now nid" held for P f1 f2 now nid
proof unfold_locales
  fix h src eid i h' isNew body and d d' :: db
  show "held d' h = Some eid \<and> (isNew \<longleftrightarrow> held d h = None)"
    if "InsertRaw P f1 f2 now nid h body src d = (Inr (eid, isNew), d')"
    using that by (rule InsertRaw_ok) (auto simp: held_def table_simps new_raw_def simp flip: select_by_None)
  show "d' = d" if "InsertRaw P f1 f2 now nid h body src d = (Inr (eid, False), d')"
    using that by (rule InsertRaw_ok) simp_all
  show "held (snd (InsertRaw P f1 f2 now nid h body src d)) h' = Some i" if "held d h' = Some i"
    unfolding InsertRaw_state using that
    by (cases f1) (auto simp: insert_raw_stmt_def held_append)
qed

lemma payload_hash_eq: "payload_hash a = payload_hash b \<longleftrightarrow> Sum256 a = Sum256 b"
  by (simp add: payload_hash_def EncodeToString_eq)

lemma withLogging_fields [simp]:
  "rq_method (withLogging b r) = rq_method r" "rq_path (withLogging b r) = rq_path r"
  "rq_source (withLogging b r) = rq_source r"
  by (simp_all add: withLogging_def)

text \<open>The handlers that read leave the database alone, whatever it answers.\<close>

lemma handlers_read:
  "snd (getEvent (GetEvent P f) y d) = d" "snd (getEntity U (GetEntity f) y d) = d" "snd (health (Ping f) d) = d"
proof -
  have ge: "snd (GetEvent P f y d) = d"
    by (cases f) (auto simp: GetEvent_def get_event_stmt_def split: option.splits)
  have gn: "snd (GetEntity f k d) = d" for k
    by (cases f) (auto simp: GetEntity_def get_entity_stmt_def split: option.splits)
  have pi: "snd (Ping f d) = d" by (cases f) (simp_all add: Ping_def)
  show "snd (getEvent (GetEvent P f) y d) = d"
    using ge by (auto simp: getEvent_def split: prod.splits sum.splits option.splits)
  show "snd (getEntity U (GetEntity f) y d) = d"
    using gn [of "CanonicalKey U y"] by (auto simp: getEntity_def split: prod.splits sum.splits option.splits)
  show "snd (health (Ping f) d) = d"
    using pi by (auto simp: health_def split: prod.splits sum.splits)
qed

lemma Routes_other:
  assumes "\<not> (rq_method r = ''POST'' \<and> rq_path r = [''webhooks''])"
    and "Routes U P env r (q, d) = (rp, q', d')"
  shows "q' = q \<and> d' = d"
  using assms handlers_read
  by (auto simp: Routes_def mux_def Let_def split: list.splits if_splits prod.splits) (metis snd_conv)+

subsection \<open>Properties of the boundary\<close>

definition demo_webhook :: request where
  "demo_webhook = \<lparr>rq_method = ''POST'', rq_path = [''webhooks''], rq_body = ''{}'', rq_body_err = False,
     rq_source = '' maersk''\<rparr>"

definition demo_api :: api_env where
  "demo_api = \<lparr>a_debug = False, a_now = 10, a_new_id = ''id1'', a_fault1 = NoFault, a_fault2 = NoFault\<rparr>"

lemma Routes_webhooks:
  "rq_method r = ''POST'' \<Longrightarrow> rq_path r = [''webhooks''] \<Longrightarrow>
   Routes U P env r (q, d) = ingest (InsertRaw P (a_fault1 env) (a_fault2 env) (a_now env) (a_new_id env))
     (withLogging (a_debug env) r) (q, d)"
  by (simp add: Routes_def mux_def withLogging_def)

lemma demo_webhook_fields:
  "rq_method demo_webhook = ''POST''" "rq_path demo_webhook = [''webhooks'']"
  "rq_source demo_webhook = '' maersk''"
  "read_body (withLogging False demo_webhook) = Some ''{}''"
  by (simp_all add: read_body_def withLogging_def demo_webhook_def maxBodyBytes_def)

lemma demo_valid: "json_Valid ''{}''"
  by (simp add: json_eval)

lemma demo_webhook_serve:
  "Routes demo_unicode demo_pg demo_api demo_webhook (q, empty_db) =
     (writeJSON StatusAccepted (accepted_json ''id1'' True), Notify q,
      empty_db\<lparr>raw_events := [new_raw demo_pg 10 ''id1'' (payload_hash ''{}'') ''{}'' (TrimSpace '' maersk'')]\<rparr>)"
  by (simp add: Routes_webhooks demo_webhook_fields demo_valid demo_api_def ingest_def InsertRaw_def
      insert_raw_stmt_def empty_db_def)



text \<open>
  The answers to a webhook. A body over the limit or one that cannot be read is answered
  with 413, one that is not JSON with 400, and neither touches the database or the queue; a
  failing store is answered with 500; everything else is acknowledged with 202.
\<close>

theorem webhook_status:
  assumes "rq_method r = ''POST''" and "rq_path r = [''webhooks'']" and "a_debug env = False"
    and "Routes U P env r (q, d) = (rp, q', d')"
  shows "rp_status rp =
      (if length (rq_body r) > maxBodyBytes \<or> rq_body_err r then StatusRequestEntityTooLarge
       else if \<not> json_Valid (rq_body r) then StatusBadRequest
       else case fst (InsertRaw P (a_fault1 env) (a_fault2 env) (a_now env) (a_new_id env)
              (payload_hash (rq_body r)) (rq_body r) (TrimSpace (rq_source r)) d) of
              Inl err \<Rightarrow> StatusInternalServerError | Inr _ \<Rightarrow> StatusAccepted)
    \<and> (rp_status rp \<in> {StatusRequestEntityTooLarge, StatusBadRequest} \<longrightarrow> q' = q \<and> d' = d)"
proof -
  have r: "withLogging (a_debug env) r = r" using assms(3) by (simp add: withLogging_def)
  note serve = assms(4) [unfolded Routes_webhooks [OF assms(1,2)] r]
  have "rp_status rp \<in> {StatusRequestEntityTooLarge, StatusBadRequest} \<Longrightarrow> q' = q \<and> d' = d"
    using serve by (auto simp: ingest_def writeError_def writeJSON_def split: option.splits if_splits prod.splits sum.splits)
  with ing.ingest_status [of P "a_fault1 env" "a_fault2 env" "a_now env" "a_new_id env" r q d] serve
  show ?thesis by (simp add: read_body_def)
qed

theorem webhook_status_witness:
  "rp_status (fst (Routes demo_unicode demo_pg demo_api (demo_webhook\<lparr>rq_body := ''{''\<rparr>)
     (NewPostgres default_config, empty_db))) = StatusBadRequest"
proof -
  obtain rp q' d' where s: "Routes demo_unicode demo_pg demo_api (demo_webhook\<lparr>rq_body := ''{''\<rparr>)
      (NewPostgres default_config, empty_db) = (rp, q', d')" by (metis prod_cases3)
  have "\<not> json_Valid ''{''" by (simp add: json_eval)
  with webhook_status [OF _ _ _ s] s show ?thesis
    by (simp add: demo_webhook_def demo_api_def maxBodyBytes_def)
qed

text \<open>
  The same body twice. Once a webhook was acknowledged, sending the same body again, at any
  later point of the system's run and whatever its source header says, is acknowledged with
  the same id as a duplicate, and neither the database nor the queue changes.
\<close>

theorem webhook_replay:
  assumes "Routes U P env r (q, d) = (rp, q', d')" and "rq_method r = ''POST''" and "rq_path r = [''webhooks'']"
    and "rp_status rp = StatusAccepted" and "rp_body rp = Some (accepted_json eid isNew)"
    and "evolves d' d''" and "db_ok d''"
    and "a_debug env' = a_debug env" and "a_fault1 env' = NoFault" and "a_fault2 env' = NoFault"
  shows "Routes U P env' (r\<lparr>rq_source := src\<rparr>) (q'', d'') =
    (writeJSON StatusAccepted (accepted_json eid False), q'', d'')"
  using assms(1) unfolding Routes_webhooks [OF assms(2,3)]
proof (rule ing.ingest_accepted)
  fix body i
  assume body: "read_body (withLogging (a_debug env) r) = Some body" "json_Valid body"
    and rp: "rp_body rp = Some (accepted_json i (held d (payload_hash body) = None))"
    and held: "held d' (payload_hash body) = Some i"
  from held obtain row where "select_by rr_payload_hash (payload_hash body) (raw_events d') = Some row" "rr_id row = i"
    by (auto simp: held_def)
  with hash_stays [OF assms(6,7)] obtain row' where
    row': "select_by rr_payload_hash (payload_hash body) (raw_events d'') = Some row'" "rr_id row' = i"
    by (metis raw_core_id)
  have i: "i = eid" using rp assms(5) by (simp add: accepted_json_def)
  have b: "read_body (withLogging (a_debug env) (r\<lparr>rq_source := src\<rparr>)) = Some body"
    using body(1) by (simp add: read_body_def withLogging_def split: if_splits)
  show ?thesis
    using assms(2,3) b body(2) InsertRaw_known [OF row'(1)] row'(2) i
    by (simp add: Routes_webhooks assms(8-10) ingest_def)
qed (rule assms(4))

theorem webhook_replay_witness:
  "\<exists>d'. Routes demo_unicode demo_pg demo_api (demo_webhook\<lparr>rq_source := ''other''\<rparr>) (NewPostgres default_config, d') =
     (writeJSON StatusAccepted (accepted_json ''id1'' False), NewPostgres default_config, d')"
proof -
  let ?d = "empty_db\<lparr>raw_events := [new_raw demo_pg 10 ''id1'' (payload_hash ''{}'') ''{}'' (TrimSpace '' maersk'')]\<rparr>"
  have "db_ok ?d" by (simp add: db_ok_def unique_on_def empty_db_def)
  with webhook_replay [OF demo_webhook_serve [of "NewPostgres default_config"], of "''id1''" True ?d demo_api "''other''"
      "NewPostgres default_config"]
  have "Routes demo_unicode demo_pg demo_api (demo_webhook\<lparr>rq_source := ''other''\<rparr>) (NewPostgres default_config, ?d) =
     (writeJSON StatusAccepted (accepted_json ''id1'' False), NewPostgres default_config, ?d)"
    by (simp add: demo_webhook_def demo_api_def writeJSON_def accepted_json_def)
  then show ?thesis by blast
qed

text \<open>
  Reading never writes. Any request that is not a POST leaves the database and the queue as
  they are, whatever the store answers; an event id that is not a UUID is answered with 400
  without asking the store.
\<close>

theorem reads_change_nothing:
  assumes "rq_method r \<noteq> ''POST''" and "Routes U P env r (q, d) = (rp, q', d')"
  shows "q' = q \<and> d' = d
    \<and> (\<forall>eid. rq_method r = ''GET'' \<and> rq_path r = [''events'', eid] \<and> eid \<noteq> '''' \<and> \<not> uuidPattern eid
         \<longrightarrow> rp_status rp = StatusBadRequest)"
proof -
  have "q' = q \<and> d' = d" using Routes_other [OF _ assms(2)] assms(1) by blast
  moreover have "rp_status rp = StatusBadRequest"
    if "rq_method r = ''GET''" "rq_path r = [''events'', eid]" "eid \<noteq> ''''" "\<not> uuidPattern eid" for eid
    using assms(2) that by (auto simp: Routes_def mux_def getEvent_def writeError_def writeJSON_def)
  ultimately show ?thesis by blast
qed

theorem reads_change_nothing_witness:
  "snd (Routes demo_unicode demo_pg demo_api (demo_webhook\<lparr>rq_method := ''GET'', rq_path := [''events'', ''17'']\<rparr>)
     (NewPostgres default_config, empty_db)) = (NewPostgres default_config, empty_db)"
proof -
  obtain rp q' d' where s: "Routes demo_unicode demo_pg demo_api
      (demo_webhook\<lparr>rq_method := ''GET'', rq_path := [''events'', ''17'']\<rparr>) (NewPostgres default_config, empty_db) =
      (rp, q', d')" by (metis prod_cases3)
  from reads_change_nothing [OF _ s] s show ?thesis by simp
qed

text \<open>
  What was processed can be read. After the pipeline succeeded for a job with a fact about a
  shipment or an invoice, \<open>GET /entities/{key}\<close> with any spelling of its key that has the same
  canonical form answers 200 with the entity stored under the canonical key.
\<close>

theorem processed_entity_readable:
  assumes "db_ok d" and "Handle U P p henv job d = (Inr (), d')"
    and "p_llm p (j_Payload job) = Inr res" and "Apply U (p_norm p) (res_Response res) = Inr n"
    and "n_Classification n \<noteq> ClassUnclassified"
    and "CanonicalKey U key = n_EntityKey n" and "key \<noteq> ''''" and "a_fault1 env = NoFault"
    and "rq_method r = ''GET''" and "rq_path r = [''entities'', key]"
  shows "\<exists>e. select_by e_EntityKey (n_EntityKey n) (entities d') = Some e
    \<and> Routes U P env r (q, d') = (writeJSON StatusOK (entity_json e), q, d')"
proof -
  have v: "verdict U p job = Inr (res, n)" using assms(3,4) by (simp add: verdict_def)
  from assms(2) obtain d1 where p: "persist P henv job res n d = (Inr (), d1)" and q: "project P henv n d1 = (Inr (), d')"
    by (rule Handle_ok) (auto simp: v)
  have d1: "db_ok d1" using pers.keeps_ok [OF assms(1), of P henv job res n] p by simp
  have "entity_view d' = step_fact n (entity_view d1)"
    using project_success [OF q] entity_view_project [OF d1] by simp
  moreover have "n_Classification n = ClassShipment \<or> n_Classification n = ClassInvoice"
    using Apply_known_class [OF assms(4)] assms(5) by auto
  ultimately have "entity_view d' (n_EntityKey n) \<noteq> None"
    using step_shipment_reached [of n "entity_view d1"] step_invoice_reached [of n "entity_view d1"] by auto
  then obtain e where e: "select_by e_EntityKey (n_EntityKey n) (entities d') = Some e"
    by (auto simp: entity_view_def)
  then show ?thesis
    using assms(6-10) by (simp add: Routes_def mux_def getEntity_def GetEntity_def get_entity_stmt_def)
qed

theorem processed_entity_readable_witness:
  "\<exists>d' e. Handle demo_unicode demo_pg demo_processor (no_faults 20) demo_job (demo_log StatusProcessing) = (Inr (), d')
    \<and> Routes demo_unicode demo_pg demo_api (demo_webhook\<lparr>rq_method := ''GET'', rq_path := [''entities'', '' gfp-Inv-1'']\<rparr>)
      (NewPostgres default_config, d') = (writeJSON StatusOK (entity_json e), NewPostgres default_config, d')"
proof -
  obtain d' where h: "Handle demo_unicode demo_pg demo_processor (no_faults 20) demo_job (demo_log StatusProcessing) = (Inr (), d')"
    using demo_handle by (metis prod.collapse)
  have "p_llm demo_processor (j_Payload demo_job) = Inr \<lparr>res_Response = demo_invoice, res_Model = ''m'', res_PromptVer = ''v1''\<rparr>"
    by (simp add: demo_processor_def demo_job_def)
  moreover have "Apply demo_unicode (p_norm demo_processor)
      (res_Response \<lparr>res_Response = demo_invoice, res_Model = ''m'', res_PromptVer = ''v1''\<rparr>) = Inr demo_fact"
    by (simp add: demo_processor_def demo_invoice_apply)
  moreover have "CanonicalKey demo_unicode '' gfp-Inv-1'' = n_EntityKey demo_fact"
    by (simp add: CanonicalKey_def demo_fact_def string_eval demo_unicode_def)
  ultimately show ?thesis
    using processed_entity_readable [OF demo_log_ok(1) h, of _ demo_fact "'' gfp-Inv-1''" demo_api
        "demo_webhook\<lparr>rq_method := ''GET'', rq_path := [''entities'', '' gfp-Inv-1'']\<rparr>" "NewPostgres default_config"] h
    by (auto simp: demo_fact_def demo_api_def)
qed

text \<open>A long run of digits is one JSON number, at every length.\<close>

lemma json_Valid_digits: "json_Valid (replicate (Suc n) (CHR ''1''))"
proof -
  have "fold scan_byte (replicate n (CHR ''1'')) \<lparr>sc_step = Digits, sc_stack = [], sc_endTop = False\<rparr> =
      \<lparr>sc_step = Digits, sc_stack = [], sc_endTop = False\<rparr>"
    by (induction n) (simp_all add: scan_byte_def digit_def)
  moreover have "scan_byte (CHR ''1'') reset = \<lparr>sc_step = Digits, sc_stack = [], sc_endTop = False\<rparr>"
    by (simp add: json_eval)
  ultimately show ?thesis
    by (simp add: json_Valid_def) (simp add: json_eval)
qed

text \<open>
  Debug logging changes what is accepted. A body over the limit whose first 1 MiB happen to
  be valid JSON is refused with 413 at the normal log level, but at debug level the logging
  wrapper has cut it to 1 MiB before the handler reads it: the cut payload is stored under
  its own hash and acknowledged with 202.
\<close>

theorem debug_truncates_body:
  assumes "rq_method r = ''POST''" and "rq_path r = [''webhooks'']" and "length (rq_body r) > maxBodyBytes"
    and "json_Valid (take maxBodyBytes (rq_body r))" and "a_fault1 env = NoFault" and "a_fault2 env = NoFault"
    and "held d (payload_hash (take maxBodyBytes (rq_body r))) = None" and "a_new_id env \<notin> rr_id ` set (raw_events d)"
  shows "rp_status (fst (Routes U P (env\<lparr>a_debug := False\<rparr>) r (q, d))) = StatusRequestEntityTooLarge
    \<and> (\<exists>rp d'. Routes U P (env\<lparr>a_debug := True\<rparr>) r (q, d) = (rp, Notify q, d') \<and> rp_status rp = StatusAccepted
      \<and> raw_events d' = raw_events d @ [new_raw P (a_now env) (a_new_id env)
          (payload_hash (take maxBodyBytes (rq_body r))) (take maxBodyBytes (rq_body r)) (TrimSpace (rq_source r))])"
proof -
  have long: "read_body (withLogging False r) = None"
    using assms(3) by (simp add: read_body_def withLogging_def)
  have cut: "read_body (withLogging True r) = Some (take maxBodyBytes (rq_body r))"
    using assms(3) by (simp add: read_body_def withLogging_def)
  show ?thesis
    using assms(4-8) long cut
    by (simp add: Routes_webhooks assms(1,2) ingest_def writeError_def writeJSON_def InsertRaw_def insert_raw_stmt_def
        held_None accepted_json_def)
qed

theorem debug_truncates_body_witness:
  "rp_status (fst (Routes demo_unicode demo_pg (demo_api\<lparr>a_debug := True\<rparr>)
     (demo_webhook\<lparr>rq_body := replicate (maxBodyBytes + 1) (CHR ''1'')\<rparr>) (NewPostgres default_config, empty_db))) = StatusAccepted"
proof -
  have one: "maxBodyBytes = Suc (2 ^ 20 - 1)" by (simp add: maxBodyBytes_def)
  have "take maxBodyBytes (replicate (maxBodyBytes + 1) (CHR ''1'')) = replicate (Suc (2 ^ 20 - 1)) (CHR ''1'')"
    unfolding one [symmetric] by (simp only: take_replicate) simp
  with json_Valid_digits have "json_Valid (take maxBodyBytes (replicate (maxBodyBytes + 1) (CHR ''1'')))"
    by metis
  moreover have "raw_events empty_db = []" by (simp add: empty_db_def)
  ultimately show ?thesis
    using debug_truncates_body [of "demo_webhook\<lparr>rq_body := replicate (maxBodyBytes + 1) (CHR ''1'')\<rparr>" demo_api empty_db
        demo_unicode demo_pg "NewPostgres default_config"]
    by (auto simp: demo_webhook_def demo_api_def held_None simp del: replicate_add)
qed

end
