(* ===== verification/System.thy ===== *)
theory System
  imports Ingest
begin

text \<open>
  The whole program as a transition system: HTTP requests, a clock, and workers that interleave
  between any two statements they send to the database. A worker's program counter says where
  in \<open>worker\<close>, \<open>dispatch\<close> and \<open>Handle\<close> it stands; every statement meets an arbitrary fault, every
  call of the model gets an arbitrary answer, a worker may die anywhere, and leases may run
  out while a worker still holds its job. The invariant \<open>sys_ok\<close> is proved by rule induction.
\<close>

datatype pc =
    Idle
  | Handling Job
  | Persisting Job Result Normalized
  | Projecting Job Normalized
  | Answering Job "go_error + unit"

record sys =
  s_now :: timestamptz
  s_q :: Postgres
  s_db :: db
  s_pc :: "nat \<Rightarrow> pc"

text \<open>What \<open>dispatch\<close> sends to the queue once the handler has returned \<open>out\<close>.\<close>

definition answer ::
  "pg \<Rightarrow> Config \<Rightarrow> fault \<Rightarrow> timestamptz \<Rightarrow> nat \<Rightarrow> Job \<Rightarrow> go_error + unit \<Rightarrow> db \<Rightarrow> db option" where
  "answer P c f now pick job out d =
     dispatch (Ack f) (Retry P c f now pick) (Queue_Fail f) (\<lambda>_ d. (out, d)) job d"

inductive sys_step :: "unicode \<Rightarrow> pg \<Rightarrow> sys \<Rightarrow> sys \<Rightarrow> bool" for U P where
  tick: "s_now s \<le> t \<Longrightarrow> sys_step U P s (s\<lparr>s_now := t\<rparr>)"
| request: "a_now env = s_now s \<Longrightarrow> Routes U P env r (s_q s, s_db s) = (rp, q', d') \<Longrightarrow>
    sys_step U P s (s\<lparr>s_q := q', s_db := d'\<rparr>)"
| claim: "s_pc s w = Idle \<Longrightarrow> Queue_Claim P f (s_now s) locked wk (s_q s) (s_db s) = (Inr (Some job), q', d') \<Longrightarrow>
    sys_step U P s (s\<lparr>s_q := q', s_db := d', s_pc := (s_pc s)(w := Handling job)\<rparr>)"
| no_claim: "s_pc s w = Idle \<Longrightarrow> Queue_Claim P f (s_now s) locked wk (s_q s) (s_db s) = (res, q', d') \<Longrightarrow>
    res = Inr None \<or> isl res \<Longrightarrow> sys_step U P s (s\<lparr>s_q := q', s_db := d'\<rparr>)"
| reject: "s_pc s w = Handling job \<Longrightarrow> verdict U p job = Inl err \<Longrightarrow>
    sys_step U P s (s\<lparr>s_pc := (s_pc s)(w := Answering job (Inl err))\<rparr>)"
| accept: "s_pc s w = Handling job \<Longrightarrow> verdict U p job = Inr (res, n) \<Longrightarrow>
    sys_step U P s (s\<lparr>s_pc := (s_pc s)(w := Persisting job res n)\<rparr>)"
| persist_ok: "s_pc s w = Persisting job res n \<Longrightarrow> h_now env = s_now s \<Longrightarrow>
    persist P env job res n (s_db s) = (Inr (), d') \<Longrightarrow>
    sys_step U P s (s\<lparr>s_db := d', s_pc := (s_pc s)(w := Projecting job n)\<rparr>)"
| persist_err: "s_pc s w = Persisting job res n \<Longrightarrow> h_now env = s_now s \<Longrightarrow>
    persist P env job res n (s_db s) = (Inl err, d') \<Longrightarrow>
    sys_step U P s (s\<lparr>s_db := d', s_pc := (s_pc s)(w := Answering job (Inl (Wrap ''persist fact: '' err)))\<rparr>)"
| project_ok: "s_pc s w = Projecting job n \<Longrightarrow> h_now env = s_now s \<Longrightarrow>
    project P env n (s_db s) = (Inr (), d') \<Longrightarrow>
    sys_step U P s (s\<lparr>s_db := d', s_pc := (s_pc s)(w := Answering job (Inr ()))\<rparr>)"
| project_err: "s_pc s w = Projecting job n \<Longrightarrow> h_now env = s_now s \<Longrightarrow>
    project P env n (s_db s) = (Inl err, d') \<Longrightarrow>
    sys_step U P s (s\<lparr>s_db := d', s_pc := (s_pc s)(w := Answering job (Inl (Wrap ''project: '' err)))\<rparr>)"
| answered: "s_pc s w = Answering job out \<Longrightarrow>
    answer P (cfg (s_q s)) f (s_now s) pick job out (s_db s) = Some d' \<Longrightarrow>
    sys_step U P s (s\<lparr>s_db := d', s_pc := (s_pc s)(w := Idle)\<rparr>)"
| crash: "sys_step U P s (s\<lparr>s_pc := (s_pc s)(w := Idle)\<rparr>)"

definition sys_init :: "Config \<Rightarrow> timestamptz \<Rightarrow> sys" where
  "sys_init c t = \<lparr>s_now = t, s_q = NewPostgres c, s_db = empty_db, s_pc = (\<lambda>_. Idle)\<rparr>"

inductive sys_reach :: "unicode \<Rightarrow> pg \<Rightarrow> sys \<Rightarrow> sys \<Rightarrow> bool" for U P s0 where
  sys_refl: "sys_reach U P s0 s0"
| sys_next: "sys_reach U P s0 s \<Longrightarrow> sys_step U P s s' \<Longrightarrow> sys_reach U P s0 s'"

inductive_cases sys_stepE: "sys_step U P s s'"

subsection \<open>The sequential handler is one of the interleavings\<close>

lemma sys_reach_trans: "sys_reach U P s1 s2 \<Longrightarrow> sys_reach U P s0 s1 \<Longrightarrow> sys_reach U P s0 s2"
  by (induction rule: sys_reach.induct) (auto intro: sys_next)

lemma sys_reach_step: "sys_step U P s s' \<Longrightarrow> sys_reach U P s s'"
  by (auto intro: sys_refl sys_next)

lemma handler_runs:
  assumes pc: "s_pc s w = Handling job" and now: "h_now env = s_now s"
    and h: "Handle U P p env job (s_db s) = (out, d')"
  shows "sys_reach U P s (s\<lparr>s_db := d', s_pc := (s_pc s)(w := Answering job out)\<rparr>)"
proof (cases "verdict U p job")
  case (Inl err)
  with h have "out = Inl err" "d' = s_db s" by (simp_all add: Handle_rejected)
  with reject [where P = P, OF pc Inl] show ?thesis by (auto intro: sys_reach_step)
next
  case (Inr rn)
  obtain res n where v: "verdict U p job = Inr (res, n)" using Inr by (cases rn) simp
  let ?s1 = "s\<lparr>s_pc := (s_pc s)(w := Persisting job res n)\<rparr>"
  have 1: "sys_reach U P s ?s1" using accept [OF pc v] by (rule sys_reach_step)
  obtain x d1 where p: "persist P env job res n (s_db s) = (x, d1)" by fastforce
  show ?thesis
  proof (cases x)
    case (Inl err)
    with h p v have "out = Inl (Wrap ''persist fact: '' err)" "d' = d1" by (simp_all add: Handle_accepted)
    moreover have "sys_step U P ?s1 (?s1\<lparr>s_db := d1, s_pc := (s_pc ?s1)(w := Answering job (Inl (Wrap ''persist fact: '' err)))\<rparr>)"
      by (rule persist_err [where res = res and n = n and env = env]) (use p Inl now in simp_all)
    ultimately show ?thesis using 1 by (auto intro: sys_next)
  next
    case (Inr u)
    let ?s2 = "?s1\<lparr>s_db := d1, s_pc := (s_pc ?s1)(w := Projecting job n)\<rparr>"
    have "sys_step U P ?s1 ?s2"
      by (rule persist_ok [where res = res and env = env]) (use p Inr now in simp_all)
    with 1 have 2: "sys_reach U P s ?s2" by (rule sys_next)
    obtain y d2 where q: "project P env n d1 = (y, d2)" by fastforce
    with h p v Inr have out: "d' = d2" "out = (case y of Inl err \<Rightarrow> Inl (Wrap ''project: '' err) | Inr _ \<Rightarrow> Inr ())"
      by (auto simp: Handle_accepted split: sum.splits)
    have "sys_step U P ?s2 (?s2\<lparr>s_db := d2, s_pc := (s_pc ?s2)(w := Answering job out)\<rparr>)"
    proof (cases y)
      case (Inl err)
      with out(2) show ?thesis
        by (simp only: sum.case) (rule project_err [where n = n and env = env]; use q now Inl in simp)
    next
      case (Inr v)
      with out(2) show ?thesis
        by (simp only: sum.case) (rule project_ok [where n = n and env = env]; use q now Inr in simp)
    qed
    from sys_next [OF 2 this] out(1) show ?thesis by simp
  qed
qed

subsection \<open>The invariant\<close>

definition has_fact :: "db \<Rightarrow> string \<Rightarrow> bool" where
  "has_fact d eid \<longleftrightarrow> eid \<in> nr_raw_event_id ` set (normalized_events d)"

text \<open>A row in flight has a lease, a processed row has its fact, a failed row has its reason.\<close>

definition row_ok :: "db \<Rightarrow> raw_row \<Rightarrow> bool" where
  "row_ok d r \<longleftrightarrow> 0 \<le> rr_attempts r \<and>
     (case rr_status r of
        StatusPending \<Rightarrow> True
      | StatusProcessing \<Rightarrow> rr_lease_until r \<noteq> None
      | StatusProcessed \<Rightarrow> has_fact d (rr_id r)
      | StatusFailed \<Rightarrow> rr_error r \<noteq> None)"

definition log_ok :: "db \<Rightarrow> bool" where
  "log_ok d \<longleftrightarrow> (\<forall>r \<in> set (raw_events d). row_ok d r)"

definition states_known :: "db \<Rightarrow> bool" where
  "states_known d \<longleftrightarrow> (\<forall>e \<in> set (entities d). IsShipmentState (e_CurrentState e) \<or> IsInvoiceState (e_CurrentState e))"

text \<open>What a worker may rely on at each point.\<close>

fun pc_ok :: "unicode \<Rightarrow> db \<Rightarrow> pc \<Rightarrow> bool" where
  "pc_ok U d Idle = True"
| "pc_ok U d (Handling job) = True"
| "pc_ok U d (Persisting job res n) = wf_fact U n"
| "pc_ok U d (Projecting job n) = (wf_fact U n \<and> has_fact d (j_ID job))"
| "pc_ok U d (Answering job out) = (out = Inr () \<longrightarrow> has_fact d (j_ID job))"

definition db_inv :: "db \<Rightarrow> bool" where
  "db_inv d \<longleftrightarrow> db_ok d \<and> log_ok d \<and> states_known d"

definition sys_ok :: "unicode \<Rightarrow> sys \<Rightarrow> bool" where
  "sys_ok U s \<longleftrightarrow> db_inv (s_db s) \<and> (\<forall>w. pc_ok U (s_db s) (s_pc s w))"

lemma has_fact_evolves: "evolves d d' \<Longrightarrow> has_fact d eid \<Longrightarrow> has_fact d' eid"
  unfolding has_fact_def evolves_def by (meson image_mono set_mono_prefix subsetD)

lemma pc_ok_evolves: "evolves d d' \<Longrightarrow> pc_ok U d k \<Longrightarrow> pc_ok U d' k"
  by (cases k) (auto intro: has_fact_evolves)

subsection \<open>Every statement keeps the invariant of the database\<close>

lemma row_ok_raw [simp]: "row_ok (d\<lparr>raw_events := rs\<rparr>) r = row_ok d r"
  by (simp add: row_ok_def has_fact_def split: RawStatus.splits)

lemma log_ok_update:
  assumes "log_ok d" and "\<And>r. r \<in> set (raw_events d) \<Longrightarrow> Q r \<Longrightarrow> row_ok d r \<Longrightarrow> row_ok d (f r)"
  shows "log_ok (d\<lparr>raw_events := update_where Q f (raw_events d)\<rparr>)"
  using assms by (auto simp: log_ok_def set_update_where)

lemma log_ok_grow:
  assumes "log_ok d" and "evolves d d'" and "raw_events d' = raw_events d"
  shows "log_ok d'"
  using assms has_fact_evolves [OF assms(2)]
  by (auto simp: log_ok_def row_ok_def split: RawStatus.splits)

lemma db_inv_db_call: "db_inv d \<Longrightarrow> db_inv (snd (f d)) \<Longrightarrow> db_inv (snd (db_call flt f mk d))"
  using db_call_state [of flt f mk d] by auto

lemma db_inv_update_raw:
  assumes "db_inv d" and "\<And>r. raw_core (f r) = raw_core r"
    and "\<And>r. r \<in> set (raw_events d) \<Longrightarrow> rr_id r = eid \<Longrightarrow> row_ok d r \<Longrightarrow> row_ok d (f r)"
  shows "db_inv (snd (update_raw eid f d))"
  using assms by (simp add: db_inv_def update_raw_def db_ok_raw_update log_ok_update states_known_def)

lemma db_inv_InsertRaw: "db_inv d \<Longrightarrow> db_inv (snd (InsertRaw P f1 f2 now nid h body src d))"
  unfolding InsertRaw_state
proof (rule db_inv_db_call)
  assume inv: "db_inv d"
  have "db_ok (snd (insert_raw_stmt P now nid h body src d))"
    using inv durable_op.keeps_ok [OF durable_insert_raw] by (simp add: db_inv_def)
  moreover have "log_ok (snd (insert_raw_stmt P now nid h body src d))"
    using inv by (auto simp: insert_raw_stmt_def db_inv_def log_ok_def) (simp add: row_ok_def new_raw_def)
  ultimately show "db_inv (snd (insert_raw_stmt P now nid h body src d))"
    using inv by (simp add: db_inv_def states_known_def insert_raw_stmt_def)
qed

lemma db_inv_claim: "db_inv d \<Longrightarrow> db_inv (snd (Store_Claim P f now lease locked d))"
  unfolding Store_Claim_state
proof (rule db_inv_db_call)
  assume inv: "db_inv d"
  have "row_ok d r \<Longrightarrow> row_ok d (claimed P now lease r)" for r
    by (simp add: row_ok_def claimed_def)
  with inv have "log_ok (snd (claim_stmt P now lease locked d))"
    by (auto simp: claim_stmt_def db_inv_def log_ok_update split: option.splits)
  then show "db_inv (snd (claim_stmt P now lease locked d))"
    using inv durable_op.keeps_ok [OF durable_claim, of d P now lease locked]
    by (simp add: db_inv_def states_known_def claim_stmt_def split: option.splits)
qed

lemma db_inv_Ack: "db_inv d \<Longrightarrow> has_fact d eid \<Longrightarrow> db_inv (snd (Ack f eid d))"
  unfolding Ack_def MarkProcessed_def
  by (intro db_inv_db_call db_inv_update_raw) (auto simp: raw_core_def row_ok_def split: RawStatus.splits)

lemma db_inv_dead: "db_inv d \<Longrightarrow> db_inv (snd (db_call f (update_raw eid (dead_letter reason)) PgError d))"
  by (intro db_inv_db_call db_inv_update_raw) (auto simp: raw_core_def row_ok_def dead_letter_def split: RawStatus.splits)

lemma db_inv_RetryOrFail: "db_inv d \<Longrightarrow> db_inv (snd (RetryOrFail P f now eid n c b reason d))"
proof (cases "n \<ge> c")
  case False
  assume "db_inv d"
  with False show ?thesis
    unfolding RetryOrFail_def
    by (simp, intro db_inv_db_call db_inv_update_raw) (auto simp: raw_core_def row_ok_def split: RawStatus.splits)
qed (simp add: RetryOrFail_def db_inv_dead)

lemma db_inv_persist: "db_inv d \<Longrightarrow> db_inv (snd (persist P env job res n d))"
  using log_ok_grow [OF _ pers.advances] pers.keeps_ok by (auto simp: db_inv_def states_known_def)

lemma states_known_project:
  assumes "db_ok d" and "states_known d" and "wf_fact U n"
  shows "states_known (snd (project P env n d))"
proof -
  let ?Q = "\<lambda>e. IsShipmentState (e_CurrentState e) \<or> IsInvoiceState (e_CurrentState e)"
  have ship: "keeps_entities ?Q d (snd (ApplyShipment P f now key state rank et d))"
    if "IsShipmentState state" for f now key state rank et
    unfolding ApplyShipment_def
    by (rule db_call_pres [where I = "keeps_entities ?Q d"])
      (auto simp: upsert_shipment_def that intro: keeps_entities_append keeps_entities_update split: option.splits)
  have inv: "keeps_entities ?Q d (snd (ApplyInvoice P fb fs fw fc now key state et amt cur d))"
    if "IsInvoiceState state" for fb fs fw fc now key state et amt cur
    by (rule ApplyInvoice_keeps [OF assms(1)]) (simp_all add: new_invoice_def advance_invoice_def that)
  have "keeps_entities ?Q d (snd (project P env n d))"
    using assms(3) ship inv by (auto simp: project_def wf_fact_def)
  with assms(2) show ?thesis by (simp add: states_known_def keeps_entities_def)
qed

lemma db_inv_project: "db_inv d \<Longrightarrow> wf_fact U n \<Longrightarrow> db_inv (snd (project P env n d))"
  using log_ok_grow [OF _ proj.advances] proj.keeps_ok states_known_project by (auto simp: db_inv_def)

subsection \<open>Every step keeps the invariant\<close>

lemma Routes_state:
  assumes "Routes U P env r (q, d) = (rp, q', d')"
  obtains "d' = d" | h body src where
    "d' = snd (InsertRaw P (a_fault1 env) (a_fault2 env) (a_now env) (a_new_id env) h body src d)"
proof (cases "rq_method r = ''POST'' \<and> rq_path r = [''webhooks'']")
  case True
  with assms that show thesis
    by (auto simp: Routes_webhooks ingest_def split: option.splits if_splits prod.splits sum.splits) (metis snd_conv)+
next
  case False
  then show thesis using Routes_other [OF _ assms] that(1) by blast
qed

lemma Queue_Claim_state:
  "snd (snd (Queue_Claim P f now locked w q d)) = snd (Store_Claim P f now (sint (Lease (cfg q))) locked d)"
  by (auto simp: Queue_Claim_def split: prod.splits sum.splits option.splits wake.splits)

lemma answer_state:
  assumes "answer P c f now pick job out d = Some d'"
  obtains "out = Inr ()" "d' = snd (Ack f (j_ID job) d)"
  | reason where "d' = snd (Queue_Fail f (j_ID job) reason d)"
  | b reason where "d' = snd (RetryOrFail P f now (j_ID job) (j_Attempts job) (MaxAttempts c) b reason d)"
proof (cases out)
  case (Inr u)
  with assms that(1) show thesis by (simp add: answer_def dispatch_def)
next
  case (Inl err)
  show thesis
  proof (cases "IsPermanent err")
    case True
    with Inl assms show thesis by (intro that(2) [of "Error err"]) (simp add: answer_def dispatch_def)
  next
    case False
    with Inl assms obtain x where "Retry P c f now pick (j_ID job) (j_Attempts job) (Error err) d = Some (x, d')"
      by (auto simp: answer_def dispatch_def)
    then obtain b where "(x, d') = RetryOrFail P f now (j_ID job) (j_Attempts job) (MaxAttempts c) b (Error err) d"
      by (rule Retry_Some)
    then show thesis using that(3) by (metis snd_conv)
  qed
qed

lemma answer_keeps:
  assumes "answer P c f now pick job out d = Some d'" and "db_inv d" and "out = Inr () \<longrightarrow> has_fact d (j_ID job)"
  shows "db_inv d' \<and> evolves d d'"
  using assms(1)
proof (rule answer_state)
  assume "out = Inr ()" "d' = snd (Ack f (j_ID job) d)"
  with assms(2,3) mark_processed.advances show ?thesis by (auto simp: db_inv_Ack) (simp add: Ack_def)
next
  fix reason
  assume "d' = snd (Queue_Fail f (j_ID job) reason d)"
  with assms(2) store_fail.advances show ?thesis
    by (auto simp: Queue_Fail_def) (simp add: Store_Fail_def db_inv_dead)
next
  fix b reason
  assume "d' = snd (RetryOrFail P f now (j_ID job) (j_Attempts job) (MaxAttempts c) b reason d)"
  with assms(2) retry_or_fail.advances show ?thesis by (simp add: db_inv_RetryOrFail)
qed

lemma persist_has_fact:
  assumes "persist P env job res n d = (Inr (), d')"
  shows "has_fact d' (j_ID job)"
proof -
  obtain row where "select_by nr_raw_event_id (j_ID job) (normalized_events d') = Some row"
    using persist_ok_fact [OF assms] by blast
  then have "row \<in> set (normalized_events d') \<and> nr_raw_event_id row = j_ID job" by (rule select_by_SomeD)
  then show ?thesis by (auto simp: has_fact_def intro: rev_image_eqI)
qed

lemma verdict_wf: "unicode_ok U \<Longrightarrow> verdict U p job = Inr (res, n) \<Longrightarrow> wf_fact U n"
  by (auto simp: verdict_def dest: Apply_wf split: sum.splits if_splits)

lemma sys_step_keeps:
  assumes "sys_step U P s s'" and "unicode_ok U" and "sys_ok U s"
  shows "sys_ok U s' \<and> evolves (s_db s) (s_db s')"
  using assms
proof (induction rule: sys_step.induct)
  case (request env s r rp q' d')
  then have "db_inv d' \<and> evolves (s_db s) d'"
    by (auto elim!: Routes_state simp: sys_ok_def db_inv_InsertRaw insert_raw.advances)
  with request pc_ok_evolves show ?case by (auto simp: sys_ok_def)
next
  case (claim s w f locked wk job q' d')
  then have "d' = snd (Store_Claim P f (s_now s) (sint (Lease (cfg (s_q s)))) locked (s_db s))"
    using Queue_Claim_state [of P f "s_now s" locked wk "s_q s" "s_db s"] by simp
  with claim have "db_inv d' \<and> evolves (s_db s) d'"
    by (simp add: sys_ok_def db_inv_claim store_claim.advances)
  with claim pc_ok_evolves show ?case by (auto simp: sys_ok_def)
next
  case (no_claim s w f locked wk res q' d')
  then have "d' = snd (Store_Claim P f (s_now s) (sint (Lease (cfg (s_q s)))) locked (s_db s))"
    using Queue_Claim_state [of P f "s_now s" locked wk "s_q s" "s_db s"] by simp
  with no_claim have "db_inv d' \<and> evolves (s_db s) d'"
    by (simp add: sys_ok_def db_inv_claim store_claim.advances)
  with no_claim pc_ok_evolves show ?case by (auto simp: sys_ok_def)
next
  case (accept s w job p res n)
  then show ?case using verdict_wf by (auto simp: sys_ok_def)
next
  case (persist_ok s w job res n env d')
  then have "db_inv d' \<and> evolves (s_db s) d'" "wf_fact U n" "has_fact d' (j_ID job)"
    using db_inv_persist [of "s_db s" P env job res n] pers.advances [of "s_db s" P env job res n]
    by (auto simp: sys_ok_def dest: persist_has_fact) (metis pc_ok.simps(3))
  with persist_ok pc_ok_evolves show ?case by (auto simp: sys_ok_def)
next
  case (persist_err s w job res n env err d')
  then have "db_inv d' \<and> evolves (s_db s) d'"
    using db_inv_persist [of "s_db s" P env job res n] pers.advances [of "s_db s" P env job res n]
    by (auto simp: sys_ok_def)
  with persist_err pc_ok_evolves show ?case by (auto simp: sys_ok_def)
next
  case (project_ok s w job n env d')
  then have wf: "wf_fact U n" "has_fact (s_db s) (j_ID job)" by (auto simp: sys_ok_def) (metis pc_ok.simps(4))+
  with project_ok have "db_inv d' \<and> evolves (s_db s) d'"
    using db_inv_project [of "s_db s" U n P env] proj.advances [of "s_db s" P env n] by (auto simp: sys_ok_def)
  with wf project_ok pc_ok_evolves has_fact_evolves show ?case by (auto simp: sys_ok_def)
next
  case (project_err s w job n env err d')
  then have wf: "wf_fact U n" by (auto simp: sys_ok_def) (metis pc_ok.simps(4))
  with project_err have "db_inv d' \<and> evolves (s_db s) d'"
    using db_inv_project [of "s_db s" U n P env] proj.advances [of "s_db s" P env n] by (auto simp: sys_ok_def)
  with project_err pc_ok_evolves show ?case by (auto simp: sys_ok_def)
next
  case (answered s w job out f pick d')
  then have "out = Inr () \<longrightarrow> has_fact (s_db s) (j_ID job)" by (auto simp: sys_ok_def) (metis pc_ok.simps(5))
  with answered have "db_inv d' \<and> evolves (s_db s) d'" by (auto simp: sys_ok_def dest: answer_keeps)
  with answered pc_ok_evolves show ?case by (auto simp: sys_ok_def)
qed (auto simp: sys_ok_def)

lemma sys_init_ok: "sys_ok U (sys_init c t)"
  by (simp add: sys_ok_def sys_init_def db_inv_def db_ok_def log_ok_def states_known_def empty_db_def)

lemma sys_reach_keeps:
  assumes "sys_reach U P s0 s" and "unicode_ok U" and "sys_ok U s0"
  shows "sys_ok U s \<and> evolves (s_db s0) (s_db s)"
  using assms by (induction rule: sys_reach.induct) (auto dest: sys_step_keeps intro: evolves_trans)

lemma reachable_inv:
  "sys_reach U P (sys_init c t) s \<Longrightarrow> unicode_ok U \<Longrightarrow> db_inv (s_db s)"
  using sys_reach_keeps [OF _ _ sys_init_ok] by (auto simp: sys_ok_def)

lemma processed_fact:
  assumes "db_ok d" and "row_ok d r" and "rr_status r = StatusProcessed"
  shows "\<exists>n. filter (\<lambda>n. nr_raw_event_id n = rr_id r) (normalized_events d) = [n]"
proof -
  from assms(2,3) obtain n where "n \<in> set (normalized_events d)" "nr_raw_event_id n = rr_id r"
    by (auto simp: row_ok_def has_fact_def)
  with unique_filter [of nr_raw_event_id "normalized_events d" n] assms(1) show ?thesis by (auto simp: db_ok_def)
qed

subsection \<open>Properties of the system\<close>

text \<open>A run of the examples: one webhook comes in and a worker claims it.\<close>

definition demo_sys :: sys where
  "demo_sys = (sys_init default_config 10)\<lparr>s_q := Notify (NewPostgres default_config),
     s_db := empty_db\<lparr>raw_events := [new_raw demo_pg 10 ''id1'' (payload_hash ''{}'') ''{}'' (TrimSpace '' maersk'')]\<rparr>\<rparr>"

lemma demo_sys_step: "sys_step demo_unicode demo_pg (sys_init default_config 10) demo_sys"
proof -
  have "sys_step demo_unicode demo_pg (sys_init default_config 10)
      ((sys_init default_config 10)\<lparr>s_q := Notify (NewPostgres default_config),
        s_db := empty_db\<lparr>raw_events := [new_raw demo_pg 10 ''id1'' (payload_hash ''{}'') ''{}'' (TrimSpace '' maersk'')]\<rparr>\<rparr>)"
    by (rule request [of demo_api _ _ _ demo_webhook])
      (simp_all add: sys_init_def demo_webhook_serve, simp add: demo_api_def)
  then show ?thesis by (simp add: demo_sys_def)
qed

lemma demo_sys_reach: "sys_reach demo_unicode demo_pg (sys_init default_config 10) demo_sys"
  using demo_sys_step by (rule sys_reach_step)

text \<open>
  C1: no event is lost. In every state the system can reach, under any interleaving of requests
  and workers, any faults, answers of the model and crashes, every row of the raw log is in one
  of four conditions: it is pending and claimable; it is in flight under a lease after which it
  is claimable again; it is processed and exactly one fact is stored for it; or it is
  dead-lettered with a recorded reason.
\<close>

theorem no_event_lost:
  assumes "unicode_ok U" and "sys_reach U P (sys_init c t) s" and "r \<in> set (raw_events (s_db s))"
  shows "case rr_status r of
      StatusPending \<Rightarrow> \<forall>u. claimable u r
    | StatusProcessing \<Rightarrow> \<exists>l. rr_lease_until r = Some l \<and> (\<forall>u. claimable u r \<longleftrightarrow> l < u)
    | StatusProcessed \<Rightarrow> \<exists>n. filter (\<lambda>n. nr_raw_event_id n = rr_id r) (normalized_events (s_db s)) = [n]
    | StatusFailed \<Rightarrow> rr_error r \<noteq> None"
proof -
  have inv: "db_ok (s_db s)" "row_ok (s_db s) r"
    using reachable_inv [OF assms(2,1)] assms(3) by (auto simp: db_inv_def log_ok_def)
  show ?thesis
    using processed_fact [OF inv] inv(2) by (cases "rr_status r") (auto simp: row_ok_def claimable_def)
qed

theorem no_event_lost_witness:
  "\<forall>u. claimable u (new_raw demo_pg 10 ''id1'' (payload_hash ''{}'') ''{}'' (TrimSpace '' maersk''))"
  using no_event_lost [OF demo_unicode_ok demo_sys_reach,
      of "new_raw demo_pg 10 ''id1'' (payload_hash ''{}'') ''{}'' (TrimSpace '' maersk'')"]
  by (simp add: demo_sys_def) (simp add: new_raw_def)

text \<open>
  C4: the tables stay sound. In every reachable state the primary keys, the payload hashes and
  the entity keys are unique, a raw event has at most one fact and a fact its raw event, and
  every entity is in a state of one of the two lifecycles.
\<close>

theorem tables_sound:
  assumes "unicode_ok U" and "sys_reach U P (sys_init c t) s"
  shows "db_ok (s_db s) \<and> (\<forall>e \<in> set (entities (s_db s)).
    IsShipmentState (e_CurrentState e) \<or> IsInvoiceState (e_CurrentState e))"
  using reachable_inv [OF assms(2,1)] by (simp add: db_inv_def states_known_def)

theorem tables_sound_witness: "db_ok (s_db demo_sys)"
  using tables_sound [OF demo_unicode_ok demo_sys_reach] by blast

text \<open>
  C2: an acknowledged webhook is kept for good. When the system answers a webhook with 202 in a
  reachable state, then in every state it can reach afterwards the raw log has a row with the
  hash of the accepted body under the acknowledged id, and the row's payload is the one stored
  at the acknowledgement.
\<close>

theorem acknowledged_is_kept:
  assumes "unicode_ok U" and "sys_reach U P (sys_init c t) s"
    and "Routes U P env r (s_q s, s_db s) = (rp, q', d')" and "a_now env = s_now s"
    and "rq_method r = ''POST''" and "rq_path r = [''webhooks'']" and "rp_status rp = StatusAccepted"
    and "sys_reach U P (s\<lparr>s_q := q', s_db := d'\<rparr>) s'"
  shows "\<exists>body eid isNew row row'. read_body (withLogging (a_debug env) r) = Some body
    \<and> rp_body rp = Some (accepted_json eid isNew)
    \<and> select_by rr_payload_hash (payload_hash body) (raw_events d') = Some row \<and> rr_id row = eid
    \<and> select_by rr_payload_hash (payload_hash body) (raw_events (s_db s')) = Some row' \<and> raw_core row' = raw_core row"
  using assms(3) unfolding Routes_webhooks [OF assms(5,6)]
proof (rule ing.ingest_accepted)
  fix body eid
  assume body: "read_body (withLogging (a_debug env) r) = Some body"
    and rp: "rp_body rp = Some (accepted_json eid (held (s_db s) (payload_hash body) = None))"
    and "held d' (payload_hash body) = Some eid"
  then obtain row where row: "select_by rr_payload_hash (payload_hash body) (raw_events d') = Some row" "rr_id row = eid"
    by (auto simp: held_def)
  have "sys_ok U s" using sys_reach_keeps [OF assms(2,1) sys_init_ok] by simp
  then have "sys_ok U (s\<lparr>s_q := q', s_db := d'\<rparr>)"
    using sys_step_keeps [OF request [OF assms(4,3)] assms(1)] by simp
  then have "sys_ok U s'" "evolves d' (s_db s')"
    using sys_reach_keeps [OF assms(8,1)] by simp_all
  then show ?thesis
    using body rp row hash_stays [OF _ _ row(1), of "s_db s'"] by (auto simp: sys_ok_def db_inv_def)
qed (rule assms(7))

theorem acknowledged_is_kept_witness:
  "\<exists>row'. select_by rr_payload_hash (payload_hash ''{}'') (raw_events (s_db (demo_sys\<lparr>s_now := 99\<rparr>))) = Some row'"
proof -
  have serve: "Routes demo_unicode demo_pg demo_api demo_webhook (s_q (sys_init default_config 10), s_db (sys_init default_config 10)) =
      (writeJSON StatusAccepted (accepted_json ''id1'' True), s_q demo_sys, s_db demo_sys)"
    by (simp add: demo_sys_def sys_init_def demo_webhook_serve)
  have "sys_reach demo_unicode demo_pg demo_sys (demo_sys\<lparr>s_now := 99\<rparr>)"
    by (rule sys_reach_step [OF tick]) (simp add: demo_sys_def sys_init_def)
  then have "sys_reach demo_unicode demo_pg ((sys_init default_config 10)\<lparr>s_q := s_q demo_sys, s_db := s_db demo_sys\<rparr>)
      (demo_sys\<lparr>s_now := 99\<rparr>)"
    by (simp add: demo_sys_def)
  from acknowledged_is_kept [OF demo_unicode_ok sys_refl serve _ _ _ _ this] show ?thesis
    by (auto simp: demo_webhook_fields demo_api_def sys_init_def writeJSON_def)
qed

text \<open>
  C3: history only grows. Between any two states of a run, payloads and facts are only added,
  never changed or removed, an entity never disappears or changes its type, and its rank never
  decreases.
\<close>

theorem history_grows:
  assumes "unicode_ok U" and "sys_reach U P (sys_init c t) s" and "sys_reach U P s s'"
  shows "prefix (map raw_core (raw_events (s_db s))) (map raw_core (raw_events (s_db s')))
    \<and> prefix (normalized_events (s_db s)) (normalized_events (s_db s'))
    \<and> (\<forall>key e. select_by e_EntityKey key (entities (s_db s)) = Some e \<longrightarrow>
         (\<exists>e'. select_by e_EntityKey key (entities (s_db s')) = Some e'
           \<and> e_Type e' = e_Type e \<and> e_CurrentRank e \<le> e_CurrentRank e'))"
proof -
  have "sys_ok U s" using sys_reach_keeps [OF assms(2,1) sys_init_ok] by simp
  then have "evolves (s_db s) (s_db s')" using sys_reach_keeps [OF assms(3,1)] by simp
  then show ?thesis by (simp add: evolves_def entities_advance_def)
qed

theorem history_grows_witness:
  "prefix (map raw_core (raw_events (s_db demo_sys))) (map raw_core (raw_events (s_db (demo_sys\<lparr>s_now := 99\<rparr>))))"
proof -
  have "sys_reach demo_unicode demo_pg demo_sys (demo_sys\<lparr>s_now := 99\<rparr>)"
    by (rule sys_reach_step [OF tick]) (simp add: demo_sys_def sys_init_def)
  from history_grows [OF demo_unicode_ok demo_sys_reach this] show ?thesis by blast
qed

end
