(* ===== verification/Batch.thy ===== *)
theory Batch
  imports Delivery
begin

text \<open>
  What a drained queue amounts to. A worker without faults is compared with a batch that goes
  through the open rows, pending or in flight under a lease that has run out, in the order they were
  received (rows of the same instant in the order of the table, which is how the model of \<open>Claim\<close> takes them): every row
  is settled by what the model and the gate make of its payload, a fact is stored for each accepted row that
  has none, and the facts are applied to the entities one after the other.
\<close>

subsection \<open>The batch\<close>

definition open_rows :: "db \<Rightarrow> raw_row list" where
  "open_rows d = filter (\<lambda>r. rr_status r = StatusPending \<or> rr_status r = StatusProcessing) (raw_events d)"

text \<open>Every open row can be claimed at each of the times, and its counter can count one more delivery.\<close>

definition due :: "timestamptz list \<Rightarrow> db \<Rightarrow> bool" where
  "due nows d \<longleftrightarrow> db_ok d \<and> (\<forall>r \<in> set (open_rows d). 0 \<le> rr_attempts r \<and> rr_attempts r < 2147483647
     \<and> (\<forall>t \<in> set nows. claimable t r))"

definition in_order :: "db \<Rightarrow> raw_row list" where
  "in_order d = sort_key rr_received_at (open_rows d)"

text \<open>A settled row, and any row after the batch.\<close>

definition settled :: "unicode \<Rightarrow> Processor \<Rightarrow> raw_row \<Rightarrow> raw_row" where
  "settled U p r =
     (let r' = r\<lparr>rr_attempts := rr_attempts r + 1, rr_lease_until := None\<rparr> in
      case verdict U p (row_job r) of
        Inl err \<Rightarrow> r'\<lparr>rr_status := StatusFailed, rr_error := Some (Error err)\<rparr>
      | Inr _ \<Rightarrow> r'\<lparr>rr_status := StatusProcessed, rr_error := None\<rparr>)"

definition settle_row :: "unicode \<Rightarrow> Processor \<Rightarrow> raw_row \<Rightarrow> raw_row" where
  "settle_row U p r =
     (if rr_status r = StatusPending \<or> rr_status r = StatusProcessing then settled U p r else r)"

lemma length_in_order [simp]: "length (in_order d) = length (open_rows d)"
  by (simp add: in_order_def)

lemma set_in_order [simp]: "set (in_order d) = set (open_rows d)"
  by (simp add: in_order_def)

lemma settled_fields [simp]: "rr_id (settled U p r) = rr_id r" "raw_core (settled U p r) = raw_core r"
  "rr_status (settled U p r) \<noteq> StatusPending" "rr_status (settled U p r) \<noteq> StatusProcessing"
  by (simp_all add: settled_def raw_core_def Let_def split: sum.split)

subsection \<open>One turn settles the first row\<close>

lemma claimable_due: "due (now # nows) d \<Longrightarrow> filter (claimable now) (raw_events d) = open_rows d"
  unfolding open_rows_def by (rule filter_cong) (auto simp: due_def open_rows_def claimable_def)

lemma answer_settled:
  assumes "decisive p"
  shows "answer_row P c now b (clean_out U p (row_job r)) n (claimed P t l r) = settled U p r"
  using assms
  by (auto simp: answer_row_def clean_out_def verdict_def decisive_def dead_letter_def settled_def claimed_def Let_def
      row_job_def split: sum.splits if_splits)

lemma open_update:
  assumes "\<And>x. rr_status (g x) \<notin> {StatusPending, StatusProcessing}"
  shows "open_rows (d\<lparr>raw_events := update_where (\<lambda>x. rr_id x = i) g (raw_events d)\<rparr>) =
    filter (\<lambda>x. rr_id x \<noteq> i) (open_rows d)"
proof -
  have "filter (\<lambda>r. rr_status r = StatusPending \<or> rr_status r = StatusProcessing) (update_where (\<lambda>x. rr_id x = i) g rs) =
      filter (\<lambda>x. rr_id x \<noteq> i) (filter (\<lambda>r. rr_status r = StatusPending \<or> rr_status r = StatusProcessing) rs)" for rs
    using assms by (induction rs) auto
  then show ?thesis by (simp add: open_rows_def)
qed

lemma turn_exact:
  assumes due: "due (now # nows) d" and dec: "decisive p" and cfg: "config_ok (cfg q)" and ord: "in_order d = r # rs"
  obtains d' where "pg_turn U P p (clean_env now) (q, d) = Some (Continue, q, d')" "due nows d'" "in_order d' = rs"
    "raw_events d' = update_where (\<lambda>x. rr_id x = rr_id r) (settled U p) (raw_events d)"
    "normalized_events d' = normalized_events d @ new_facts U P p d now r"
    "entity_view d' = settle_view U p r (entity_view d)"
proof -
  have first: "first_by rr_received_at (filter (claimable now) (raw_events d)) = Some r"
    using ord by (simp add: claimable_due [OF due] first_by_sort in_order_def)
  have r: "r \<in> set (open_rows d)" unfolding set_in_order [symmetric] ord by simp
  with due have ok: "db_ok d" and cnt: "0 \<le> rr_attempts r" "rr_attempts r < 2147483647"
    by (auto simp: due_def)
  have uni: "unique_on rr_id (raw_events d)" using ok by (simp add: db_ok_def)
  have row: "r \<in> set (raw_events d)" using r by (simp add: open_rows_def)
  obtain d' b where t: "pg_turn U P p (clean_env now) (q, d) = Some (Continue, q, d')" "db_ok d'"
    and "backoff (cfg q) 0 (word_of_int (rr_attempts r + 1)) = Some b"
    and raw: "raw_events d' = update_where (\<lambda>x. rr_id x = rr_id r)
       (answer_row P (cfg q) now (sint b) (clean_out U p (row_job r)) (rr_attempts r + 1)
         \<circ> claimed P now (sint (Lease (cfg q)))) (raw_events d)"
    and eff: "normalized_events d' = normalized_events d @ new_facts U P p d now r" "entity_view d' = settle_view U p r (entity_view d)"
    by (rule clean_turn_full [where U = U and P = P and p = p, OF ok first cnt cfg])
  have raw': "raw_events d' = update_where (\<lambda>x. rr_id x = rr_id r) (settled U p) (raw_events d)"
    unfolding raw
  proof (rule update_where_cong)
    fix x assume "x \<in> set (raw_events d)" "rr_id x = rr_id r"
    with uni row have "x = r" by (simp add: unique_onD)
    then show "(answer_row P (cfg q) now (sint b) (clean_out U p (row_job r)) (rr_attempts r + 1)
        \<circ> claimed P now (sint (Lease (cfg q)))) x = settled U p x" by (simp add: answer_settled [OF dec])
  qed
  have rest: "open_rows d' = filter (\<lambda>x. rr_id x \<noteq> rr_id r) (open_rows d)"
    using open_update [where g = "settled U p" and d = d and i = "rr_id r"] raw' by (simp add: open_rows_def)
  have u: "unique_on rr_id (r # rs)"
    unfolding ord [symmetric] using uni by (simp add: in_order_def open_rows_def unique_on_filter)
  have "in_order d' = filter (\<lambda>x. rr_id x \<noteq> rr_id r) (in_order d)" by (simp add: in_order_def rest filter_sort)
  then have ord': "in_order d' = rs" using u by (simp add: ord filter_id_conv unique_on_def) (metis image_eqI)
  have "due nows d'" using due t(2) by (simp add: due_def rest)
  then show thesis by (rule that [OF t(1) _ ord' raw' eff])
qed

subsection \<open>All turns\<close>

lemma settle_row_again:
  assumes "unique_on rr_id rs" and "r \<in> set rs" and "settle_row U p r = settled U p r"
  shows "map (settle_row U p) (update_where (\<lambda>x. rr_id x = rr_id r) (settled U p) rs) = map (settle_row U p) rs"
proof -
  have "settle_row U p (settled U p r) = settle_row U p r" using assms(3) by (simp add: settle_row_def)
  with assms(1,2) show ?thesis by (auto simp: update_where_def dest: unique_onD)
qed

lemma settled_closed: "raw_events d' = map (settle_row U p) (raw_events d) \<Longrightarrow> open_rows d' = []"
  by (auto simp: open_rows_def filter_empty_conv settle_row_def)

lemma new_facts_id: "n \<in> set (new_facts U P p d t r) \<Longrightarrow> nr_raw_event_id n = rr_id r"
  by (auto simp: new_facts_def new_norm_def split: sum.splits if_splits)

lemma new_facts_later:
  assumes "rr_id x \<noteq> rr_id r" and "normalized_events d' = normalized_events d @ new_facts U P p d now r"
  shows "new_facts U P p d' t x = new_facts U P p d t x"
proof -
  have "rr_id x \<in> nr_raw_event_id ` set (normalized_events d') \<longleftrightarrow> rr_id x \<in> nr_raw_event_id ` set (normalized_events d)"
    using assms new_facts_id [of _ U P p d now r] by (auto simp: image_Un)
  then show ?thesis by (auto simp: new_facts_def split: sum.split)
qed

lemma drain_exact:
  assumes "due nows d" and "decisive p" and "config_ok (cfg q)" and "length nows = length (open_rows d)"
  shows "\<exists>d'. worker U P p (map clean_env nows) (q, d) = Some (Continue, q, d') \<and> db_ok d'
    \<and> raw_events d' = map (settle_row U p) (raw_events d)
    \<and> normalized_events d' = normalized_events d @ concat (map2 (new_facts U P p d) nows (in_order d))
    \<and> entity_view d' = fold (settle_view U p) (in_order d) (entity_view d)"
  using assms
proof (induction nows arbitrary: d)
  case Nil
  then have "open_rows d = []" by simp
  then have "settle_row U p r = r" if "r \<in> set (raw_events d)" for r
    using that by (auto simp: open_rows_def filter_empty_conv settle_row_def)
  then have "map (settle_row U p) (raw_events d) = raw_events d" by (simp add: map_idI)
  with Nil.prems(1) \<open>open_rows d = []\<close> show ?case by (simp add: due_def in_order_def)
next
  case (Cons now nows)
  then obtain r rs where ord: "in_order d = r # rs" using length_in_order [of d] by (cases "in_order d") auto
  obtain d1 where turn: "pg_turn U P p (clean_env now) (q, d) = Some (Continue, q, d1)" and due: "due nows d1"
    and ord1: "in_order d1 = rs"
    and eff: "raw_events d1 = update_where (\<lambda>x. rr_id x = rr_id r) (settled U p) (raw_events d)"
      "normalized_events d1 = normalized_events d @ new_facts U P p d now r"
      "entity_view d1 = settle_view U p r (entity_view d)"
    by (rule turn_exact [where U = U and P = P, OF Cons.prems(1-3) ord])
  have uni: "unique_on rr_id (raw_events d)" using Cons.prems(1) by (simp add: due_def db_ok_def)
  have "length nows = length (open_rows d1)"
    using Cons.prems(4) ord ord1 length_in_order [of d] length_in_order [of d1] by simp
  from Cons.IH [OF due Cons.prems(2,3) this] obtain d' where
    w: "worker U P p (map clean_env nows) (q, d1) = Some (Continue, q, d')" "db_ok d'"
    "raw_events d' = map (settle_row U p) (raw_events d1)"
    "normalized_events d' = normalized_events d1 @ concat (map2 (new_facts U P p d1) nows rs)"
    "entity_view d' = fold (settle_view U p) rs (entity_view d1)" unfolding ord1 by blast
  have "r \<in> set (open_rows d)" unfolding set_in_order [symmetric] ord by simp
  then have rows: "map (settle_row U p) (raw_events d1) = map (settle_row U p) (raw_events d)"
    unfolding eff by (intro settle_row_again [OF uni]) (auto simp: open_rows_def settle_row_def)
  have "unique_on rr_id (r # rs)"
    unfolding ord [symmetric] using uni by (simp add: in_order_def open_rows_def unique_on_filter)
  then have "rr_id x \<noteq> rr_id r" if "x \<in> set rs" for x using that by (auto simp: unique_on_def) (metis image_eqI)
  then have "map2 (new_facts U P p d1) nows rs = map2 (new_facts U P p d) nows rs"
    using new_facts_later [OF _ eff(2)] by (auto dest: set_zip_rightD)
  with turn w rows show ?case by (simp add: ord eff)
qed

subsection \<open>The property\<close>

text \<open>
  C7: a drained queue is a batch in order of arrival. From any database whose open rows can be claimed, and with a model that
  decides every payload, as many turns without faults as there are open rows leave exactly this: each
  open row is PROCESSED, or FAILED with its reason, one delivery later, and every other row is
  untouched; the facts of the accepted rows that had none are appended in the order the rows were
  received; and the entities are those reached by applying the facts of all accepted rows in this order.
\<close>

theorem drain_refines_batch:
  assumes "due nows d" and "decisive p" and "length nows = length (open_rows d)"
  shows "\<exists>d'. worker U P p (map clean_env nows) (NewPostgres c, d) = Some (Continue, NewPostgres c, d')
    \<and> raw_events d' = map (settle_row U p) (raw_events d)
    \<and> normalized_events d' = normalized_events d @ concat (map2 (new_facts U P p d) nows (in_order d))
    \<and> entity_view d' = fold (settle_view U p) (in_order d) (entity_view d)"
  using drain_exact [OF assms(1,2) NewPostgres_ok assms(3)] by blast

text \<open>The second row of the log was received first, and its worker died.\<close>

definition demo_late :: db where
  "demo_late = demo_other\<lparr>raw_events := map (\<lambda>r. if rr_id r = ''id2''
     then r\<lparr>rr_received_at := 3, rr_status := StatusProcessing, rr_attempts := 1, rr_lease_until := Some 40\<rparr> else r)
     (raw_events demo_other)\<rparr>"

lemma demo_late_rows:
  "raw_events demo_late = [demo_raw StatusPending, (demo_raw StatusPending)\<lparr>rr_id := ''id2'', rr_payload_hash := ''h2'',
     rr_received_at := 3, rr_status := StatusProcessing, rr_attempts := 1, rr_lease_until := Some 40\<rparr>]"
  "normalized_events demo_late = []" "entities demo_late = []"
  by (simp_all add: demo_late_def demo_other_def) (simp add: demo_raw_def new_raw_def)

lemma demo_raw_fields [simp]: "rr_id (demo_raw st) = ''id1''" "rr_status (demo_raw st) = st" "rr_attempts (demo_raw st) = 0"
  "rr_received_at (demo_raw st) = 10" "rr_raw_payload (demo_raw st) = ''{}''" "rr_payload_hash (demo_raw st) = ''h1''"
  by (simp_all add: demo_raw_def new_raw_def demo_pg_def)

lemma demo_late_due: "due [50, 51] demo_late" "length [50 :: timestamptz, 51] = length (open_rows demo_late)"
  by (auto simp: due_def open_rows_def demo_late_rows db_ok_def unique_on_def claimable_def)

lemma demo_decisive: "decisive demo_processor"
  by (auto simp: decisive_def demo_processor_def split: if_splits)

theorem drain_refines_batch_witness:
  "\<exists>d'. worker demo_unicode demo_pg demo_processor (map clean_env [50, 51]) (NewPostgres default_config, demo_late) =
      Some (Continue, NewPostgres default_config, d')
    \<and> map nr_raw_event_id (normalized_events d') = [''id2'', ''id1''] \<and> map rr_status (raw_events d') = [StatusProcessed, StatusProcessed]"
proof -
  have v: "verdict demo_unicode demo_processor (row_job r) =
      Inr (\<lparr>res_Response = demo_invoice, res_Model = ''m'', res_PromptVer = ''v1''\<rparr>, demo_fact)" if "rr_raw_payload r = ''{}''" for r
    using that by (simp add: verdict_def demo_processor_def row_job_def demo_invoice_apply)
  from drain_refines_batch [OF demo_late_due(1) demo_decisive demo_late_due(2), of demo_unicode demo_pg default_config] show ?thesis
    by (auto simp: in_order_def open_rows_def demo_late_rows new_facts_def v new_norm_def settle_row_def settled_def Let_def)
qed

end
