(* ===== verification/Migrate.thy ===== *)
theory Migrate
  imports Go_Base Prelude "HOL-Library.List_Lexorder" "HOL-Library.Char_ord" "HOL-Library.Sublist"
begin

text \<open>
  \<open>Store.Migrate\<close> of \<open>store.go\<close>: the embedded SQL files are applied in lexical order, each with its
  record in one transaction, and files that are recorded are skipped. What a file does to the
  schema is the database's business and a parameter (\<open>run\<close>). The advisory lock makes one run
  atomic towards other migrators, so concurrent starts are sequences of whole runs; a run
  may fail at any statement, before or after it took effect.
\<close>

type_synonym sql_file = "string \<times> string"

record 'd mig =
  m_versions :: "string list option"
  m_schema :: 'd

record file_faults =
  ff_select :: fault
  ff_begin :: fault
  ff_sql :: fault
  ff_insert :: fault
  ff_commit :: fault

record mig_faults =
  mf_acquire :: fault
  mf_lock :: fault
  mf_table :: fault
  mf_file :: "string \<Rightarrow> file_faults"

text \<open>\<open>fs.Glob(migrations.FS, "*.sql")\<close> and \<open>sort.Strings\<close>: the names, in byte order.\<close>

definition is_sql :: "string \<Rightarrow> bool" where
  "is_sql name \<longleftrightarrow> suffix ''.sql'' name \<and> CHR ''/'' \<notin> set name"

definition glob_sorted :: "sql_file list \<Rightarrow> string list" where
  "glob_sorted fs = sort (filter is_sql (map fst fs))"

definition versions :: "'d mig \<Rightarrow> string list" where
  "versions s = (case m_versions s of None \<Rightarrow> [] | Some vs \<Rightarrow> vs)"

text \<open>An error of a call, as the fault it met; calls inside a transaction leave no trace.\<close>

fun fault_error :: "fault \<Rightarrow> go_error option" where
  "fault_error NoFault = None"
| "fault_error (FaultBefore m) = Some (PgError m)"
| "fault_error (FaultAfter m) = Some (PgError m)"

text \<open>The body of the loop for one file: skip, or apply and record in a transaction.\<close>

definition migrate_file ::
  "(string \<Rightarrow> 'd \<Rightarrow> go_error + 'd) \<Rightarrow> sql_file list \<Rightarrow> file_faults \<Rightarrow> string \<Rightarrow> 'd mig \<Rightarrow> (go_error + unit) \<times> 'd mig" where
  "migrate_file run fs ff f s =
     (case fault_error (ff_select ff) of Some e \<Rightarrow> (Inl e, s)
      | None \<Rightarrow>
        if f \<in> set (versions s) then (Inr (), s)
        else (case map_of fs f of None \<Rightarrow> (Inl (ErrText (''open '' @ f @ '': file does not exist'')), s)
         | Some sql \<Rightarrow>
           (case fault_error (ff_begin ff) of Some e \<Rightarrow> (Inl e, s)
            | None \<Rightarrow>
              (case fault_error (ff_sql ff) of Some e \<Rightarrow> (Inl (Wrap (''apply '' @ f @ '': '') e), s)
               | None \<Rightarrow>
                 (case run sql (m_schema s) of
                    Inl e \<Rightarrow> (Inl (Wrap (''apply '' @ f @ '': '') e), s)
                  | Inr d' \<Rightarrow>
                    (case fault_error (ff_insert ff) of Some e \<Rightarrow> (Inl e, s)
                     | None \<Rightarrow> db_call (ff_commit ff)
                         (\<lambda>_. (Inr (), \<lparr>m_versions = Some (versions s @ [f]), m_schema = d'\<rparr>)) PgError s))))))"

fun migrate_files ::
  "(string \<Rightarrow> 'd \<Rightarrow> go_error + 'd) \<Rightarrow> sql_file list \<Rightarrow> (string \<Rightarrow> file_faults) \<Rightarrow> string list \<Rightarrow> 'd mig
    \<Rightarrow> (go_error + unit) \<times> 'd mig" where
  "migrate_files run fs ff [] s = (Inr (), s)"
| "migrate_files run fs ff (f # names) s =
     (case migrate_file run fs (ff f) f s of
        (Inl e, s') \<Rightarrow> (Inl e, s')
      | (Inr _, s') \<Rightarrow> migrate_files run fs ff names s')"

definition create_versions :: "'d mig \<Rightarrow> (go_error + unit) \<times> 'd mig" where
  "create_versions s = (Inr (), s\<lparr>m_versions := Some (versions s)\<rparr>)"

definition Migrate ::
  "(string \<Rightarrow> 'd \<Rightarrow> go_error + 'd) \<Rightarrow> sql_file list \<Rightarrow> mig_faults \<Rightarrow> 'd mig \<Rightarrow> (go_error + unit) \<times> 'd mig" where
  "Migrate run fs mf s =
     (case fault_error (mf_acquire mf) of Some e \<Rightarrow> (Inl (Wrap ''acquire conn: '' e), s)
      | None \<Rightarrow>
        (case fault_error (mf_lock mf) of Some e \<Rightarrow> (Inl (Wrap ''acquire migration lock: '' e), s)
         | None \<Rightarrow>
           (case db_call (mf_table mf) create_versions PgError s of
              (Inl e, s1) \<Rightarrow> (Inl (Wrap ''ensure migrations table: '' e), s1)
            | (Inr _, s1) \<Rightarrow> migrate_files run fs (mf_file mf) (glob_sorted fs) s1)))"

subsection \<open>What is recorded was applied, once, in order\<close>

text \<open>The schema after the first files, and the states a migrator can leave behind.\<close>

fun apply_all :: "(string \<Rightarrow> 'd \<Rightarrow> go_error + 'd) \<Rightarrow> sql_file list \<Rightarrow> string list \<Rightarrow> 'd \<Rightarrow> 'd option" where
  "apply_all run fs [] d = Some d"
| "apply_all run fs (f # names) d =
     (case map_of fs f of None \<Rightarrow> None
      | Some sql \<Rightarrow> (case run sql d of Inl _ \<Rightarrow> None | Inr d' \<Rightarrow> apply_all run fs names d'))"

definition migrated :: "(string \<Rightarrow> 'd \<Rightarrow> go_error + 'd) \<Rightarrow> sql_file list \<Rightarrow> 'd \<Rightarrow> 'd mig \<Rightarrow> bool" where
  "migrated run fs d0 s \<longleftrightarrow>
     prefix (versions s) (glob_sorted fs) \<and> apply_all run fs (versions s) d0 = Some (m_schema s)"

lemma apply_all_snoc:
  "apply_all run fs (names @ [f]) d =
     (case apply_all run fs names d of None \<Rightarrow> None
      | Some d' \<Rightarrow> (case map_of fs f of None \<Rightarrow> None
         | Some sql \<Rightarrow> (case run sql d' of Inl _ \<Rightarrow> None | Inr d'' \<Rightarrow> Some d'')))"
  by (induction names arbitrary: d) (auto split: option.splits sum.splits)

lemma migrate_file_state:
  obtains "snd (migrate_file run fs ff f s) = s"
  | sql d' where "f \<notin> set (versions s)" "map_of fs f = Some sql" "run sql (m_schema s) = Inr d'"
    "snd (migrate_file run fs ff f s) = \<lparr>m_versions = Some (versions s @ [f]), m_schema = d'\<rparr>"
proof -
  have "snd (migrate_file run fs ff f s) = s \<or> (\<exists>sql d'. f \<notin> set (versions s) \<and> map_of fs f = Some sql
      \<and> run sql (m_schema s) = Inr d'
      \<and> snd (migrate_file run fs ff f s) = \<lparr>m_versions = Some (versions s @ [f]), m_schema = d'\<rparr>)"
    by (cases "ff_commit ff") (auto simp: migrate_file_def split: option.splits sum.splits if_splits)
  with that show thesis by blast
qed

lemma versions_record [simp]: "versions \<lparr>m_versions = Some vs, m_schema = d\<rparr> = vs"
  by (simp add: versions_def)

lemma migrate_file_done:
  assumes "fst (migrate_file run fs ff f s) = Inr ()"
  shows "f \<in> set (versions (snd (migrate_file run fs ff f s)))"
  using assms
  by (cases "ff_commit ff") (auto simp: migrate_file_def versions_def split: option.splits sum.splits if_splits)

text \<open>A recorded prefix that contains the files before \<open>f\<close> but not \<open>f\<close> ends right before it.\<close>

lemma prefix_stops:
  assumes "distinct (xs @ f # ys)" and "prefix vs (xs @ f # ys)" and "set xs \<subseteq> set vs" and "f \<notin> set vs"
  shows "vs = xs"
proof -
  from assms(2) have "prefix vs xs \<or> prefix (xs @ [f]) vs"
    by (metis append_Cons append_Nil append_assoc prefixI prefix_same_cases prefix_snoc)
  with assms(4) have "prefix vs xs" by (auto dest: set_mono_prefix)
  then obtain zs where "xs = vs @ zs" by (auto elim: prefixE)
  moreover from this assms(1,3) have "zs = []" by (cases zs) auto
  ultimately show ?thesis by simp
qed

lemma apply_all_None: "apply_all run fs names d = None \<Longrightarrow> apply_all run fs (names @ rest) d = None"
  by (induction names arbitrary: d) (auto split: option.splits sum.splits)

text \<open>One turn of the loop keeps the records and the schema together.\<close>

lemma migrate_file_keeps:
  assumes "glob_sorted fs = ds @ f # names" and "distinct (glob_sorted fs)" and "migrated run fs d0 s"
    and "set ds \<subseteq> set (versions s)"
  shows "migrated run fs d0 (snd (migrate_file run fs ff f s))
    \<and> set (versions s) \<subseteq> set (versions (snd (migrate_file run fs ff f s)))"
proof (rule migrate_file_state [of run fs ff f s])
  let ?s1 = "snd (migrate_file run fs ff f s)"
  fix sql d'
  assume new: "f \<notin> set (versions s)" "map_of fs f = Some sql" "run sql (m_schema s) = Inr d'"
    "?s1 = \<lparr>m_versions = Some (versions s @ [f]), m_schema = d'\<rparr>"
  have "versions s = ds"
    by (rule prefix_stops [of _ f names]) (use assms new(1) in \<open>simp_all add: migrated_def\<close>)
  then have "prefix (versions s @ [f]) (glob_sorted fs)" using assms(1) by (simp add: prefix_def)
  with new assms(3) show ?thesis by (auto simp: migrated_def apply_all_snoc)
qed (use assms(3) in simp)

lemma migrate_files_keeps:
  assumes "glob_sorted fs = ds @ names" and "distinct (glob_sorted fs)" and "migrated run fs d0 s"
    and "set ds \<subseteq> set (versions s)"
  shows "migrated run fs d0 (snd (migrate_files run fs ff names s))
    \<and> (fst (migrate_files run fs ff names s) = Inr () \<longrightarrow>
        versions (snd (migrate_files run fs ff names s)) = glob_sorted fs)"
  using assms
proof (induction names arbitrary: ds s)
  case Nil
  then have "prefix (versions s) ds" "set ds \<subseteq> set (versions s)" by (simp_all add: migrated_def)
  then have "versions s = ds"
    using Nil.prems(1,2) by (metis append_Nil2 distinct_card card_mono List.finite_set append_eq_conv_conj
      le_antisym prefix_length_le prefix_def distinct_append set_mono_prefix subset_antisym)
  with Nil show ?case by simp
next
  case (Cons f names)
  let ?s1 = "snd (migrate_file run fs (ff f) f s)"
  have keep: "migrated run fs d0 ?s1 \<and> set (versions s) \<subseteq> set (versions ?s1)"
    by (rule migrate_file_keeps [OF Cons.prems])
  show ?case
  proof (cases "fst (migrate_file run fs (ff f) f s)")
    case (Inl e)
    then show ?thesis using keep by (cases "migrate_file run fs (ff f) f s") simp
  next
    case (Inr u)
    then have "f \<in> set (versions ?s1)" by (intro migrate_file_done) simp
    with keep Cons.prems(4) have "set (ds @ [f]) \<subseteq> set (versions ?s1)" by auto
    from Cons.IH [OF _ Cons.prems(2) _ this] keep Cons.prems(1) Inr show ?thesis
      by (cases "migrate_file run fs (ff f) f s") simp
  qed
qed

lemma migrated_create: "migrated run fs d0 s \<Longrightarrow> migrated run fs d0 (s\<lparr>m_versions := Some (versions s)\<rparr>)"
  by (simp add: migrated_def versions_def)

lemma glob_sorted_distinct: "distinct (map fst fs) \<Longrightarrow> distinct (glob_sorted fs)"
  by (simp add: glob_sorted_def)

lemma Migrate_keeps:
  assumes "distinct (map fst fs)" and "migrated run fs d0 s"
  shows "migrated run fs d0 (snd (Migrate run fs mf s))
    \<and> (fst (Migrate run fs mf s) = Inr () \<longrightarrow> versions (snd (Migrate run fs mf s)) = glob_sorted fs)"
proof -
  let ?s1 = "s\<lparr>m_versions := Some (versions s)\<rparr>"
  have "migrated run fs d0 ?s1" using assms(2) by (rule migrated_create)
  with migrate_files_keeps [of fs "[]" "glob_sorted fs" run d0 ?s1 "mf_file mf"] glob_sorted_distinct [OF assms(1)] assms(2)
  show ?thesis
    by (cases "mf_table mf") (auto simp: Migrate_def create_versions_def split: option.splits)
qed

text \<open>A file that is recorded is skipped, so a run with nothing to do changes nothing.\<close>

lemma migrate_files_skip:
  "(\<And>f. fault_error (ff_select (ff f)) = None) \<Longrightarrow> set names \<subseteq> set (versions s) \<Longrightarrow>
   migrate_files run fs ff names s = (Inr (), s)"
  by (induction names) (auto simp: migrate_file_def)

lemma migrate_files_clean:
  assumes "\<And>f. ff f = \<lparr>ff_select = NoFault, ff_begin = NoFault, ff_sql = NoFault, ff_insert = NoFault, ff_commit = NoFault\<rparr>"
    and "glob_sorted fs = ds @ names" and "distinct (glob_sorted fs)" and "migrated run fs d0 s"
    and "set ds \<subseteq> set (versions s)" and "apply_all run fs (glob_sorted fs) d0 \<noteq> None"
  shows "fst (migrate_files run fs ff names s) = Inr ()"
  using assms(2-5)
proof (induction names arbitrary: ds s)
  case (Cons f names)
  have "fst (migrate_file run fs (ff f) f s) = Inr ()"
  proof (cases "f \<in> set (versions s)")
    case False
    then have vs: "versions s = ds"
      by (intro prefix_stops [of _ f names]) (use Cons.prems in \<open>simp_all add: migrated_def\<close>)
    have "apply_all run fs ds d0 = Some (m_schema s)" using Cons.prems(3) vs by (simp add: migrated_def)
    moreover have "apply_all run fs ((ds @ [f]) @ names) d0 \<noteq> None" using assms(6) Cons.prems(1) by simp
    then have "apply_all run fs (ds @ [f]) d0 \<noteq> None"
      by (rule contrapos_nn) (rule apply_all_None)
    ultimately show ?thesis
      by (auto simp: apply_all_snoc migrate_file_def assms(1) False split: option.splits sum.splits)
  qed (simp add: migrate_file_def assms(1))
  moreover from this have "f \<in> set (versions (snd (migrate_file run fs (ff f) f s)))" by (rule migrate_file_done)
  moreover have "migrated run fs d0 (snd (migrate_file run fs (ff f) f s)) \<and> set (versions s) \<subseteq> set (versions (snd (migrate_file run fs (ff f) f s)))"
    by (rule migrate_file_keeps [OF Cons.prems])
  ultimately show ?case
    using Cons.IH [of "ds @ [f]" "snd (migrate_file run fs (ff f) f s)"] Cons.prems
    by (cases "migrate_file run fs (ff f) f s") auto
qed simp


definition no_file_faults :: file_faults where
  "no_file_faults = \<lparr>ff_select = NoFault, ff_begin = NoFault, ff_sql = NoFault, ff_insert = NoFault, ff_commit = NoFault\<rparr>"

definition no_mig_faults :: mig_faults where
  "no_mig_faults = \<lparr>mf_acquire = NoFault, mf_lock = NoFault, mf_table = NoFault, mf_file = (\<lambda>_. no_file_faults)\<rparr>"

text \<open>Starts of the program one after the other, each with the faults it met.\<close>

fun starts :: "(string \<Rightarrow> 'd \<Rightarrow> go_error + 'd) \<Rightarrow> sql_file list \<Rightarrow> mig_faults list \<Rightarrow> 'd mig \<Rightarrow> 'd mig" where
  "starts run fs [] s = s"
| "starts run fs (mf # mfs) s = starts run fs mfs (snd (Migrate run fs mf s))"

lemma starts_keeps:
  "distinct (map fst fs) \<Longrightarrow> migrated run fs d0 s \<Longrightarrow> migrated run fs d0 (starts run fs mfs s)"
  by (induction mfs arbitrary: s) (simp_all add: Migrate_keeps)

lemma migrated_fresh: "migrated run fs d0 \<lparr>m_versions = None, m_schema = d0\<rparr>"
  by (simp add: migrated_def versions_def)

lemma Migrate_clean:
  assumes "distinct (map fst fs)" and "migrated run fs d0 s" and "apply_all run fs (glob_sorted fs) d0 \<noteq> None"
  shows "fst (Migrate run fs no_mig_faults s) = Inr ()"
proof -
  let ?s1 = "s\<lparr>m_versions := Some (versions s)\<rparr>"
  have "migrated run fs d0 ?s1" using assms(2) by (rule migrated_create)
  with migrate_files_clean [of "mf_file no_mig_faults" fs "[]" "glob_sorted fs" run d0 ?s1]
    glob_sorted_distinct [OF assms(1)] assms(3)
  show ?thesis
    by (simp add: Migrate_def create_versions_def no_mig_faults_def no_file_faults_def)
qed

text \<open>
  C17: however many starts of the program failed, and wherever (a refused connection, a failing
  statement, a commit whose answer was lost), the files that are recorded are the first
  ones in lexical order, each was applied exactly once and in that order, and nothing was applied
  that is not recorded; a start that reports success has applied all of them; and as
  soon as a start meets no fault it does report success, whatever went wrong before.
\<close>

theorem Migrate_exactly_once:
  fixes run :: "string \<Rightarrow> 'd \<Rightarrow> go_error + 'd"
  assumes "distinct (map fst fs)"
    and "s = starts run fs mfs \<lparr>m_versions = None, m_schema = d0\<rparr>"
  shows "prefix (versions s) (glob_sorted fs)
    \<and> apply_all run fs (versions s) d0 = Some (m_schema s)
    \<and> (fst (Migrate run fs mf s) = Inr () \<longrightarrow>
        versions (snd (Migrate run fs mf s)) = glob_sorted fs
        \<and> apply_all run fs (glob_sorted fs) d0 = Some (m_schema (snd (Migrate run fs mf s))))
    \<and> (apply_all run fs (glob_sorted fs) d0 \<noteq> None \<longrightarrow> fst (Migrate run fs no_mig_faults s) = Inr ())"
proof -
  have s: "migrated run fs d0 s" unfolding assms(2) by (rule starts_keeps [OF assms(1) migrated_fresh])
  moreover have "migrated run fs d0 (snd (Migrate run fs mf s))
    \<and> (fst (Migrate run fs mf s) = Inr () \<longrightarrow> versions (snd (Migrate run fs mf s)) = glob_sorted fs)"
    by (rule Migrate_keeps [OF assms(1) s])
  ultimately show ?thesis using Migrate_clean [OF assms(1) s] by (auto simp: migrated_def)
qed

text \<open>A database that keeps the statements it ran; the lost answer to a commit is met once.\<close>

definition demo_run :: "string \<Rightarrow> string list \<Rightarrow> go_error + string list" where
  "demo_run sql d = (if sql = ''bad'' then Inl (PgError ''syntax'') else Inr (d @ [sql]))"

definition demo_files :: "sql_file list" where
  "demo_files = [(''0002.sql'', ''two''), (''readme'', ''bad''), (''0001.sql'', ''one'')]"

definition demo_lost :: mig_faults where
  "demo_lost = no_mig_faults\<lparr>mf_file := (\<lambda>_. no_file_faults\<lparr>ff_commit := FaultAfter ''lost''\<rparr>)\<rparr>"

theorem Migrate_exactly_once_witness:
  "versions (starts demo_run demo_files [demo_lost] \<lparr>m_versions = None, m_schema = []\<rparr>) = [''0001.sql'']
   \<and> fst (Migrate demo_run demo_files no_mig_faults (starts demo_run demo_files [demo_lost] \<lparr>m_versions = None, m_schema = []\<rparr>)) = Inr ()
   \<and> m_schema (snd (Migrate demo_run demo_files no_mig_faults (starts demo_run demo_files [demo_lost] \<lparr>m_versions = None, m_schema = []\<rparr>))) = [''one'', ''two'']"
proof -
  let ?s = "starts demo_run demo_files [demo_lost] \<lparr>m_versions = None, m_schema = []\<rparr>"
  have d: "distinct (map fst demo_files)" by code_simp
  have all: "apply_all demo_run demo_files (glob_sorted demo_files) [] = Some [''one'', ''two'']" by code_simp
  have "versions ?s = [''0001.sql'']" by code_simp
  with Migrate_exactly_once [OF d refl, of demo_run "[demo_lost]" "[]" no_mig_faults] all
  show ?thesis by (metis option.distinct(1) option.inject)
qed

end
