(* ===== verification/Spec.thy ===== *)
theory Spec
  imports Go_Json_Parse
begin

text \<open>
  Package \<open>llm/spec\<close>: the prompt version, the embedded response schema and the accessors. The
  schema file is decoded once at start-up; a file that does not decode is a panic.
  The prompt file is only ever passed on and is the parameter \<open>systemPrompt\<close> of the clients.
\<close>

definition PromptVersion :: string where
  "PromptVersion = ''v1''"

text \<open>A text with a back-quote for each double quote, and lines that each start a new line.\<close>

definition quoted :: "string \<Rightarrow> string" where
  "quoted s = map (\<lambda>c. if c = CHR ''`'' then CHR 0x22 else c) s"

definition below :: "string list \<Rightarrow> string" where
  "below ls = quoted (concat (map ((#) (CHR 0x0A)) ls))"

text \<open>The embedded file \<open>normalize.json\<close>, in pieces.\<close>

definition schema_head :: string where
  "schema_head = below [''  `name`: `webhook_normalization`,'',
    ''  `schema`: {'',
    ''    `type`: `object`,'',
    ''    `additionalProperties`: false,'']"

definition schema_required :: string where
  "schema_required = below [''    `required`: ['',
    ''      `classification`,'',
    ''      `entity_key`,'',
    ''      `canonical_state`,'',
    ''      `event_time`,'',
    ''      `amount_minor`,'',
    ''      `currency`,'',
    ''      `vendor_state_text`,'',
    ''      `confidence`'',
    ''    ],'',
    ''    `properties`: {'']"

definition prop_classification :: string where
  "prop_classification = below [''      `classification`: {'',
    ''        `type`: `string`,'',
    ''        `enum`: [`SHIPMENT`, `INVOICE`, `UNCLASSIFIED`]'',
    ''      },'']"

definition prop_entity_key :: string where
  "prop_entity_key = below [''      `entity_key`: {'',
    ''        `type`: [`string`, `null`]'',
    ''      },'']"

definition prop_canonical_state :: string where
  "prop_canonical_state = below [''      `canonical_state`: {'',
    ''        `type`: [`string`, `null`],'',
    ''        `enum`: [`PICKED_UP`, `IN_TRANSIT`, `OUT_FOR_DELIVERY`, `DELIVERED`, `ISSUED`, `PAID`, `VOIDED`, `REFUNDED`, null]'',
    ''      },'']"

definition prop_event_time :: string where
  "prop_event_time = below [''      `event_time`: {'',
    ''        `type`: [`string`, `null`]'',
    ''      },'']"

definition prop_amount_minor :: string where
  "prop_amount_minor = below [''      `amount_minor`: {'',
    ''        `type`: [`integer`, `null`]'',
    ''      },'']"

definition prop_currency :: string where
  "prop_currency = below [''      `currency`: {'',
    ''        `type`: [`string`, `null`]'',
    ''      },'']"

definition prop_vendor_state_text :: string where
  "prop_vendor_state_text = below [''      `vendor_state_text`: {'',
    ''        `type`: [`string`, `null`]'',
    ''      },'']"

definition prop_confidence :: string where
  "prop_confidence = below [''      `confidence`: {'',
    ''        `type`: `number`,'',
    ''        `minimum`: 0,'',
    ''        `maximum`: 1'',
    ''      }'']"

definition schema_close :: string where
  "schema_close = below [''    }'']"

definition schema_tail :: string where
  "schema_tail = below [''  },'',
    ''  `strict`: true'',
    ''}'',
    '''']"

definition schemaJSON :: string where
  "schemaJSON = ''{'' @ schema_head @ schema_required @ prop_classification @ prop_entity_key @ prop_canonical_state @ prop_event_time @ prop_amount_minor
     @ prop_currency @ prop_vendor_state_text @ prop_confidence @ schema_close @ schema_tail"

record schema =
  s_Name :: string
  s_Schema :: "(string \<times> any) list"
  s_Strict :: bool

definition zero_schema :: schema where
  "zero_schema = \<lparr>s_Name = '''', s_Schema = [], s_Strict = False\<rparr>"

definition schema_fields :: "(string \<times> schema decoder) list" where
  "schema_fields =
     [(''name'', field s_Name (\<lambda>x s. s\<lparr>s_Name := x\<rparr>) dec_string),
      (''schema'', field s_Schema (\<lambda>x s. s\<lparr>s_Schema := x\<rparr>) dec_map),
      (''strict'', field s_Strict (\<lambda>x s. s\<lparr>s_Strict := x\<rparr>) dec_bool)]"

text \<open>No value is a panic.\<close>

definition loadSchema :: "string \<Rightarrow> schema option" where
  "loadSchema data =
     (let (s, err) = Unmarshal (dec_struct schema_fields) data zero_schema in if err then None else Some s)"

definition normalization :: schema where
  "normalization = (case loadSchema schemaJSON of Some s \<Rightarrow> s | None \<Rightarrow> zero_schema)"

definition SchemaName :: string where
  "SchemaName = s_Name normalization"

definition SchemaStrict :: bool where
  "SchemaStrict = s_Strict normalization"

definition SchemaBody :: "(string \<times> any) list" where
  "SchemaBody = s_Schema normalization"

subsection \<open>The embedded schema decodes\<close>

text \<open>What the pieces of the file say, and that they are read so.\<close>

definition strings :: "string list \<Rightarrow> jval" where
  "strings ss = JArr (map JStr ss)"

definition nullable :: "string \<Rightarrow> jval" where
  "nullable ty = JObj [(''type'', strings [ty, ''null''])]"

definition class_schema :: jval where
  "class_schema = JObj [(''type'', JStr ''string''), (''enum'', strings [''SHIPMENT'', ''INVOICE'', ''UNCLASSIFIED''])]"

definition state_schema :: jval where
  "state_schema = JObj [(''type'', strings [''string'', ''null'']),
     (''enum'', JArr (map JStr [''PICKED_UP'', ''IN_TRANSIT'', ''OUT_FOR_DELIVERY'', ''DELIVERED'', ''ISSUED'', ''PAID'',
        ''VOIDED'', ''REFUNDED''] @ [JNull]))]"

definition confidence_schema :: jval where
  "confidence_schema = JObj [(''type'', JStr ''number''), (''minimum'', JNum ''0''), (''maximum'', JNum ''1'')]"

definition props_schema :: jval where
  "props_schema = JObj [(''classification'', class_schema), (''entity_key'', nullable ''string''),
     (''canonical_state'', state_schema), (''event_time'', nullable ''string''), (''amount_minor'', nullable ''integer''),
     (''currency'', nullable ''string''), (''vendor_state_text'', nullable ''string''), (''confidence'', confidence_schema)]"

definition field_names :: "string list" where
  "field_names = [''classification'', ''entity_key'', ''canonical_state'', ''event_time'', ''amount_minor'', ''currency'',
     ''vendor_state_text'', ''confidence'']"

definition file_schema :: jval where
  "file_schema = JObj [(''name'', JStr ''webhook_normalization''),
     (''schema'', JObj [(''type'', JStr ''object''), (''additionalProperties'', JBool False),
        (''required'', strings field_names), (''properties'', props_schema)]),
     (''strict'', JBool True)]"

lemmas schema_parts = strings_def nullable_def class_schema_def state_schema_def confidence_schema_def
lemmas text_eval = below_def quoted_def parse_eval schema_parts

lemma parse_prop:
  "parse_members (prop_entity_key @ rest) = map_option (apfst ((#) (''entity_key'', nullable ''string''))) (parse_members rest)"
  "parse_members (prop_event_time @ rest) = map_option (apfst ((#) (''event_time'', nullable ''string''))) (parse_members rest)"
  "parse_members (prop_amount_minor @ rest) = map_option (apfst ((#) (''amount_minor'', nullable ''integer''))) (parse_members rest)"
  "parse_members (prop_currency @ rest) = map_option (apfst ((#) (''currency'', nullable ''string''))) (parse_members rest)"
  "parse_members (prop_vendor_state_text @ rest) = map_option (apfst ((#) (''vendor_state_text'', nullable ''string''))) (parse_members rest)"
  by (simp_all add: text_eval prop_entity_key_def prop_event_time_def prop_amount_minor_def prop_currency_def
    prop_vendor_state_text_def)

lemma parse_prop_class:
  "expect (CHR ''}'') (prop_classification @ rest) = None"
  "parse_members (prop_classification @ rest) = map_option (apfst ((#) (''classification'', class_schema))) (parse_members rest)"
  by (simp_all add: text_eval prop_classification_def)

lemma parse_prop_state:
  "parse_members (prop_canonical_state @ rest) = map_option (apfst ((#) (''canonical_state'', state_schema))) (parse_members rest)"
  by (simp add: text_eval prop_canonical_state_def)

lemma parse_prop_confidence:
  "parse_members (prop_confidence @ schema_close @ rest) = Some ([(''confidence'', confidence_schema)], rest)"
  by (simp add: text_eval prop_confidence_def schema_close_def)

definition props_text :: string where
  "props_text = prop_classification @ prop_entity_key @ prop_canonical_state @ prop_event_time @ prop_amount_minor
     @ prop_currency @ prop_vendor_state_text @ prop_confidence @ schema_close"

lemma parse_props: "map_option (apfst JObj) (parse_members (props_text @ rest)) = Some (props_schema, rest)"
  by (simp add: props_text_def parse_prop parse_prop_class parse_prop_state parse_prop_confidence props_schema_def)

lemma parse_file: "parse_value schemaJSON = Some (file_schema, [CHR 0x0A])"
proof -
  have e: "expect (CHR ''}'') (props_text @ rest) = None" for rest
    by (simp add: props_text_def parse_prop_class(1))
  have f: "schemaJSON = CHR ''{'' # schema_head @ schema_required @ props_text @ schema_tail"
    by (simp add: schemaJSON_def props_text_def)
  show ?thesis
    unfolding f by (simp add: text_eval schema_head_def schema_required_def schema_tail_def e parse_props file_schema_def field_names_def)
qed

text \<open>The scanner over the pieces.\<close>

lemmas scan_eval = scan_byte_def pushParseState_def popParseState_def stateEndValue_def stateBeginString_def stateBeginValue_def
  state0_def json_space_def digit_def sc_def below_def quoted_def

definition props_stack :: "pstate list" where
  "props_stack = [parseObjectKey, parseObjectValue, parseObjectValue]"

lemma scan_props:
  "fold scan_byte prop_classification (sc BeginStringOrEmpty props_stack) = sc BeginString props_stack"
  "fold scan_byte prop_entity_key (sc BeginString props_stack) = sc BeginString props_stack"
  "fold scan_byte prop_canonical_state (sc BeginString props_stack) = sc BeginString props_stack"
  "fold scan_byte prop_event_time (sc BeginString props_stack) = sc BeginString props_stack"
  "fold scan_byte prop_amount_minor (sc BeginString props_stack) = sc BeginString props_stack"
  "fold scan_byte prop_currency (sc BeginString props_stack) = sc BeginString props_stack"
  "fold scan_byte prop_vendor_state_text (sc BeginString props_stack) = sc BeginString props_stack"
  "fold scan_byte prop_confidence (sc BeginString props_stack) = sc EndValue [parseObjectValue, parseObjectValue, parseObjectValue]"
  by (simp_all add: scan_eval props_stack_def prop_classification_def prop_entity_key_def prop_canonical_state_def
    prop_event_time_def prop_amount_minor_def prop_currency_def prop_vendor_state_text_def prop_confidence_def)

lemma file_Valid: "json_Valid schemaJSON"
proof -
  have "fold scan_byte (CHR ''{'' # schema_head @ schema_required) reset = sc BeginStringOrEmpty props_stack"
    by (simp add: scan_eval reset_def props_stack_def schema_head_def schema_required_def)
  moreover have "scan_eof (fold scan_byte (schema_close @ schema_tail) (sc EndValue [parseObjectValue, parseObjectValue, parseObjectValue]))"
    by (simp add: scan_eval scan_eof_def stateEndTop_def schema_close_def schema_tail_def)
  ultimately show ?thesis by (simp add: json_Valid_def schemaJSON_def scan_props)
qed

lemma file_parse_doc: "parse_doc schemaJSON = Some file_schema"
  by (simp add: parse_doc_def file_Valid parse_file)

lemma ParseFloat_unit [simp]: "ParseFloat ''0'' = Some (Fin 0)" "ParseFloat ''1'' = Some (Fin 1)"
  by code_simp+

lemma any_error_strings [simp]: "\<not> any_error (strings ss)" "\<not> any_error (nullable ty)"
  by (simp_all add: strings_def nullable_def list_ex_iff)

lemma schema_clean: "\<not> any_error class_schema" "\<not> any_error state_schema" "\<not> any_error confidence_schema" "\<not> any_error props_schema"
  by (simp_all add: class_schema_def state_schema_def confidence_schema_def props_schema_def)

text \<open>The package initialises without a panic, to the schema the file spells out.\<close>

lemma loadSchema_file:
  "loadSchema schemaJSON = Some \<lparr>s_Name = ''webhook_normalization'',
     s_Schema = [(''type'', AStr ''object''), (''additionalProperties'', ABool False),
        (''required'', to_any (strings field_names)), (''properties'', to_any props_schema)],
     s_Strict = True\<rparr>"
  by (simp add: loadSchema_def Unmarshal_def file_parse_doc file_schema_def schema_fields_def find_field_def field_def
    zero_schema_def map_sets_def schema_clean)

lemma normalization_eq:
  "SchemaName = ''webhook_normalization''" "SchemaStrict"
  "SchemaBody = [(''type'', AStr ''object''), (''additionalProperties'', ABool False),
     (''required'', to_any (strings field_names)), (''properties'', to_any props_schema)]"
  by (simp_all add: SchemaName_def SchemaStrict_def SchemaBody_def normalization_def loadSchema_file)

end
