(* ===== verification/Providers.thy ===== *)
theory Providers
  imports Spec Processor Go_Encode "HOL-Library.List_Lexorder" "HOL-Library.Char_ord"
begin

text \<open>
  The HTTP clients of package \<open>llm\<close>: \<open>OpenAI\<close> (and compatible endpoints) and \<open>Ollama\<close>. The network, and
  whether a URL makes a request, are the parameter \<open>http\<close>: any answer, with any status and body, or
  none. A request carries the bytes of the marshalled value; the text of a decoding
  error is the parameter \<open>json_text\<close>.
\<close>

record chatMessage =
  cm_Role :: string
  cm_Content :: string

record jsonSchema =
  js_Name :: string
  js_Strict :: bool
  js_Schema :: "(string \<times> any) list"

record responseFormat =
  rf_Type :: string
  rf_JSONSchema :: "jsonSchema option"

record chatRequest =
  cr_Model :: string
  cr_Temperature :: float64
  cr_Messages :: "chatMessage list"
  cr_ResponseFormat :: responseFormat

record ollamaRequest =
  or_Model :: string
  or_Messages :: "chatMessage list"
  or_Stream :: bool
  or_Format :: "(string \<times> any) list"
  or_Temperature :: float64

record http_request =
  hr_URL :: string
  hr_Header :: "(string \<times> string) list"
  hr_Body :: string
  hr_Timeout :: int

record http_response =
  StatusCode :: int
  Body :: string

record http =
  NewRequest :: "string \<Rightarrow> string option"
  Do :: "http_request \<Rightarrow> string + http_response"
  json_text :: "string \<Rightarrow> string"
  systemPrompt :: string

subsection \<open>What is marshalled\<close>

text \<open>A value of type \<open>any\<close>: the members of a map are written in the order of their keys.\<close>

fun any_json :: "any \<Rightarrow> json" where
  "any_json ANil = VNull"
| "any_json (ABool b) = VBool b"
| "any_json (ANum x) = VFloat x"
| "any_json (AStr s) = VStr s"
| "any_json (AArr vs) = VArr (map any_json vs)"
| "any_json (AMap m) = VObj (sort_key fst (map (\<lambda>(k, v). (k, any_json v)) m))"

definition message_json :: "chatMessage \<Rightarrow> json" where
  "message_json m = VObj [(''role'', VStr (cm_Role m)), (''content'', VStr (cm_Content m))]"

definition format_json :: "responseFormat \<Rightarrow> json" where
  "format_json f = VObj ([(''type'', VStr (rf_Type f))] @
     (case rf_JSONSchema f of None \<Rightarrow> []
      | Some s \<Rightarrow> [(''json_schema'', VObj [(''name'', VStr (js_Name s)), (''strict'', VBool (js_Strict s)),
          (''schema'', any_json (AMap (js_Schema s)))])]))"

definition chat_json :: "chatRequest \<Rightarrow> json" where
  "chat_json r = VObj [(''model'', VStr (cr_Model r)), (''temperature'', VFloat (cr_Temperature r)),
     (''messages'', VArr (map message_json (cr_Messages r))), (''response_format'', format_json (cr_ResponseFormat r))]"

definition ollama_json :: "ollamaRequest \<Rightarrow> json" where
  "ollama_json r = VObj [(''model'', VStr (or_Model r)), (''messages'', VArr (map message_json (or_Messages r))),
     (''stream'', VBool (or_Stream r)), (''format'', any_json (AMap (or_Format r))),
     (''options'', VObj [(''temperature'', VFloat (or_Temperature r))])]"

text \<open>\<open>json.Marshal(reqBody)\<close>; the values hold no times, so the zone does not matter.\<close>

definition marshal_body :: "json \<Rightarrow> string option" where
  "marshal_body v = Marshal (\<lambda>_. 0) v"

definition timeout_ns :: "int \<Rightarrow> int" where
  "timeout_ns n = n * 1000000000"

text \<open>The struct the model's answer is decoded into.\<close>

definition zero_response :: Response where
  "zero_response = \<lparr>r_Classification = '''', r_EntityKey = '''', r_CanonicalState = '''', r_EventTime = '''',
     r_AmountMinor = None, r_Currency = '''', r_VendorStateText = '''', r_Confidence = Fin 0\<rparr>"

definition response_fields :: "(string \<times> Response decoder) list" where
  "response_fields =
     [(''classification'', field r_Classification (\<lambda>x r. r\<lparr>r_Classification := x\<rparr>) dec_string),
      (''entity_key'', field r_EntityKey (\<lambda>x r. r\<lparr>r_EntityKey := x\<rparr>) dec_string),
      (''canonical_state'', field r_CanonicalState (\<lambda>x r. r\<lparr>r_CanonicalState := x\<rparr>) dec_string),
      (''event_time'', field r_EventTime (\<lambda>x r. r\<lparr>r_EventTime := x\<rparr>) dec_string),
      (''amount_minor'', field r_AmountMinor (\<lambda>x r. r\<lparr>r_AmountMinor := x\<rparr>) dec_int64_ptr),
      (''currency'', field r_Currency (\<lambda>x r. r\<lparr>r_Currency := x\<rparr>) dec_string),
      (''vendor_state_text'', field r_VendorStateText (\<lambda>x r. r\<lparr>r_VendorStateText := x\<rparr>) dec_string),
      (''confidence'', field r_Confidence (\<lambda>x r. r\<lparr>r_Confidence := x\<rparr>) dec_float64)]"

definition decode_response :: "string \<Rightarrow> Response \<times> bool" where
  "decode_response content = Unmarshal (dec_struct response_fields) content zero_response"

text \<open>A struct with the one field the program reads is that field.\<close>

definition message_decoder :: "string decoder" where
  "message_decoder = dec_struct [(''content'', dec_string)]"

definition choice_decoder :: "string decoder" where
  "choice_decoder = dec_struct [(''message'', message_decoder)]"

definition chat_envelope :: "string slice decoder" where
  "chat_envelope = dec_struct [(''choices'', dec_slice choice_decoder '''')]"

definition error_envelope :: "string decoder" where
  "error_envelope = dec_struct [(''error'', dec_struct [(''type'', dec_string)])]"

definition ollamaResponse :: "string decoder" where
  "ollamaResponse = dec_struct [(''message'', message_decoder)]"

subsection \<open>OpenAI\<close>

record OpenAI =
  oa_apiKey :: string
  oa_model :: string
  oa_url :: string
  oa_strictSchema :: bool
  oa_timeout :: int

definition NewOpenAI :: "string \<Rightarrow> string \<Rightarrow> string \<Rightarrow> OpenAI" where
  "NewOpenAI apiKey model0 baseURL0 =
     (let model = (if model0 = '''' then ''gpt-4o-mini'' else model0);
          baseURL = (if baseURL0 = '''' then ''https://api.openai.com/v1'' else baseURL0)
      in \<lparr>oa_apiKey = apiKey, oa_model = model, oa_url = TrimRight1 (CHR ''/'') baseURL @ ''/chat/completions'',
          oa_strictSchema = Contains baseURL ''api.openai.com'', oa_timeout = timeout_ns 60\<rparr>)"

text \<open>\<open>stripKeys\<close> walks maps and slices; every other value is returned as it is.\<close>

fun stripKeys :: "string list \<Rightarrow> any \<Rightarrow> any" where
  "stripKeys ks (AMap m) = AMap (map (\<lambda>(k, v). (k, stripKeys ks v)) (filter (\<lambda>(k, v). k \<notin> set ks) m))"
| "stripKeys ks (AArr vs) = AArr (map (stripKeys ks) vs)"
| "stripKeys ks v = v"

definition openAIStrictSchema :: "(string \<times> any) list \<Rightarrow> (string \<times> any) list" where
  "openAIStrictSchema s = (case stripKeys [''minimum'', ''maximum''] (AMap s) of AMap m \<Rightarrow> m | _ \<Rightarrow> [])"

definition responseFormat_of :: "OpenAI \<Rightarrow> responseFormat" where
  "responseFormat_of o' =
     (if oa_strictSchema o'
      then \<lparr>rf_Type = ''json_schema'',
            rf_JSONSchema = Some \<lparr>js_Name = SchemaName, js_Strict = SchemaStrict, js_Schema = openAIStrictSchema SchemaBody\<rparr>\<rparr>
      else \<lparr>rf_Type = ''json_object'', rf_JSONSchema = None\<rparr>)"

definition retryableStatus :: "int \<Rightarrow> string \<Rightarrow> bool" where
  "retryableStatus code body =
     (let (ty, _) = Unmarshal error_envelope body '''' in
      if ty = ''insufficient_quota'' \<or> ty = ''invalid_api_key'' then False
      else code = 429 \<or> code \<ge> 500)"

definition truncate_bytes :: "string \<Rightarrow> nat \<Rightarrow> string" where
  "truncate_bytes b n = (if length b > n then take n b else b)"

definition openai_body :: "http \<Rightarrow> OpenAI \<Rightarrow> bytes \<Rightarrow> chatRequest" where
  "openai_body net c raw =
     \<lparr>cr_Model = oa_model c, cr_Temperature = Fin 0,
      cr_Messages = [\<lparr>cm_Role = ''system'', cm_Content = systemPrompt net\<rparr>, \<lparr>cm_Role = ''user'', cm_Content = raw\<rparr>],
      cr_ResponseFormat = responseFormat_of c\<rparr>"

definition openai_request :: "OpenAI \<Rightarrow> string \<Rightarrow> http_request" where
  "openai_request c buf =
     \<lparr>hr_URL = oa_url c,
      hr_Header = [(''Content-Type'', ''application/json''), (''Authorization'', ''Bearer '' @ oa_apiKey c)],
      hr_Body = buf, hr_Timeout = oa_timeout c\<rparr>"

definition OpenAI_Normalize :: "http \<Rightarrow> OpenAI \<Rightarrow> bytes \<Rightarrow> go_error + Result" where
  "OpenAI_Normalize net c raw =
     (case marshal_body (chat_json (openai_body net c raw)) of None \<Rightarrow> Inl (ErrText ''json: unsupported value'')
      | Some buf \<Rightarrow>
     (case NewRequest net (oa_url c) of Some m \<Rightarrow> Inl (ErrText m)
      | None \<Rightarrow>
        (case Do net (openai_request c buf) of
           Inl m \<Rightarrow> Inl (APIError 0 True (''openai: '' @ m))
         | Inr resp \<Rightarrow>
           if StatusCode resp \<noteq> 200 then
             Inl (APIError (StatusCode resp) (retryableStatus (StatusCode resp) (Body resp))
               (''openai status '' @ Itoa (StatusCode resp) @ '': '' @ truncate_bytes (Body resp) 300))
           else
             (let (env, err) = Unmarshal chat_envelope (Body resp) \<lparr>sl_elems = [], sl_stale = []\<rparr> in
              if err \<or> sl_elems env = [] then Inl (APIError 0 True ''openai: malformed response envelope'')
              else
                (let content = hd (sl_elems env); (out, err') = decode_response content in
                 if err' then Inl (APIError 0 True (''openai: content not valid JSON: '' @ json_text net content))
                 else Inr \<lparr>res_Response = out, res_Model = oa_model c, res_PromptVer = PromptVersion\<rparr>)))))"

subsection \<open>Ollama\<close>

record Ollama =
  ol_model :: string
  ol_url :: string
  ol_timeout :: int

definition NewOllama :: "string \<Rightarrow> string \<Rightarrow> Ollama" where
  "NewOllama model0 host0 =
     (let model = (if model0 = '''' then ''llama3.2'' else model0);
          host = (if host0 = '''' then ''http://localhost:11434'' else host0)
      in \<lparr>ol_model = model, ol_url = TrimRight1 (CHR ''/'') host @ ''/api/chat'', ol_timeout = timeout_ns 120\<rparr>)"

definition ollama_body :: "http \<Rightarrow> Ollama \<Rightarrow> bytes \<Rightarrow> ollamaRequest" where
  "ollama_body net c raw =
     \<lparr>or_Model = ol_model c,
      or_Messages = [\<lparr>cm_Role = ''system'', cm_Content = systemPrompt net\<rparr>, \<lparr>cm_Role = ''user'', cm_Content = raw\<rparr>],
      or_Stream = False, or_Format = SchemaBody, or_Temperature = Fin 0\<rparr>"

definition ollama_request :: "Ollama \<Rightarrow> string \<Rightarrow> http_request" where
  "ollama_request c buf =
     \<lparr>hr_URL = ol_url c, hr_Header = [(''Content-Type'', ''application/json'')], hr_Body = buf, hr_Timeout = ol_timeout c\<rparr>"

definition Ollama_Normalize :: "http \<Rightarrow> Ollama \<Rightarrow> bytes \<Rightarrow> go_error + Result" where
  "Ollama_Normalize net c raw =
     (case marshal_body (ollama_json (ollama_body net c raw)) of None \<Rightarrow> Inl (ErrText ''json: unsupported value'')
      | Some buf \<Rightarrow>
     (case NewRequest net (ol_url c) of Some m \<Rightarrow> Inl (ErrText m)
      | None \<Rightarrow>
        (case Do net (ollama_request c buf) of
           Inl m \<Rightarrow> Inl (APIError 0 True (''ollama: '' @ m))
         | Inr resp \<Rightarrow>
           if StatusCode resp \<noteq> 200 then
             Inl (APIError (StatusCode resp) (StatusCode resp \<ge> 500)
               (''ollama status '' @ Itoa (StatusCode resp) @ '': '' @ truncate_bytes (Body resp) 300))
           else
             (let (content, err) = Unmarshal ollamaResponse (Body resp) '''' in
              if err then Inl (APIError 0 True ''ollama: malformed response envelope'')
              else
                (let (out, err') = decode_response content in
                 if err' then Inl (APIError 0 True (''ollama: content not valid JSON: '' @ json_text net content))
                 else Inr \<lparr>res_Response = out, res_Model = ol_model c, res_PromptVer = PromptVersion\<rparr>)))))"

subsection \<open>The schema that is sent\<close>

datatype path_step = Key string | Idx nat

fun at_path :: "any \<Rightarrow> path_step list \<Rightarrow> any option" where
  "at_path v [] = Some v"
| "at_path (AMap m) (Key k # p) = (case map_of m k of None \<Rightarrow> None | Some v \<Rightarrow> at_path v p)"
| "at_path (AArr vs) (Idx i # p) = (if i < length vs then at_path (vs ! i) p else None)"
| "at_path v (st # p) = None"

lemma map_of_strip:
  "map_of (map (\<lambda>(k, v). (k, f v)) (filter (\<lambda>(k, v). k \<notin> set ks) m)) k = (if k \<in> set ks then None else map_option f (map_of m k))"
  by (induction m) auto

lemma stripKeys_path:
  "at_path (stripKeys ks v) p = (if \<exists>k \<in> set ks. Key k \<in> set p then None else map_option (stripKeys ks) (at_path v p))"
  by (induction v p rule: at_path.induct) (auto simp: map_of_strip split: option.splits)

lemma openAIStrictSchema_AMap: "AMap (openAIStrictSchema s) = stripKeys [''minimum'', ''maximum''] (AMap s)"
  by (simp add: openAIStrictSchema_def)

text \<open>
  The schema for the strict mode of OpenAI is the shared one with the two range keywords
  removed at every depth and nothing else: a path through a removed keyword leads nowhere, every other
  path that exists in the shared schema still exists, and a plain value at its end is the same.
\<close>

theorem strict_schema_exact:
  "at_path (AMap (openAIStrictSchema s)) p =
     (if Key ''minimum'' \<in> set p \<or> Key ''maximum'' \<in> set p then None
      else map_option (stripKeys [''minimum'', ''maximum'']) (at_path (AMap s) p))"
  by (auto simp: openAIStrictSchema_AMap stripKeys_path simp del: stripKeys.simps)

definition names :: "any \<Rightarrow> string list" where
  "names v = (case v of AArr vs \<Rightarrow> concat (map (\<lambda>x. case x of AStr s \<Rightarrow> [s] | _ \<Rightarrow> []) vs) | _ \<Rightarrow> [])"

definition prop_enum :: "string \<Rightarrow> string list" where
  "prop_enum f = (case at_path (AMap SchemaBody) [Key ''properties'', Key f, Key ''enum''] of Some v \<Rightarrow> names v | None \<Rightarrow> [])"

text \<open>
  C26: the contract sent to the model and the code that reads its answers agree. The embedded
  schema decodes at start-up; the classes and the states it allows are exactly those the gate
  recognises, and the fields it requires are exactly those the answer is decoded into.
\<close>

theorem schema_matches_gate:
  "loadSchema schemaJSON = Some normalization
   \<and> set (prop_enum ''canonical_state'') = {s. IsShipmentState s \<or> IsInvoiceState s}
   \<and> set (prop_enum ''classification'') = {ClassShipment, ClassInvoice, ClassUnclassified}
   \<and> map_option names (at_path (AMap SchemaBody) [Key ''required'']) = Some (map fst response_fields)"
proof (intro conjI)
  show "loadSchema schemaJSON = Some normalization" by (simp add: normalization_def loadSchema_file)
  show "set (prop_enum ''canonical_state'') = {s. IsShipmentState s \<or> IsInvoiceState s}"
    by (auto simp: prop_enum_def normalization_eq props_schema_def state_schema_def map_sets_def names_def
      IsShipmentState_iff IsInvoiceState_iff shipment_states_def invoice_states_def)
  show "set (prop_enum ''classification'') = {ClassShipment, ClassInvoice, ClassUnclassified}"
    by (auto simp: prop_enum_def normalization_eq props_schema_def class_schema_def strings_def map_sets_def names_def)
  show "map_option names (at_path (AMap SchemaBody) [Key ''required'']) = Some (map fst response_fields)"
    by (simp add: normalization_eq strings_def field_names_def names_def response_fields_def)
qed

subsection \<open>The bytes of a request\<close>

text \<open>A value the encoder can print and read back: finite doubles, and not nested deeply.\<close>

fun any_ok :: "nat \<Rightarrow> any \<Rightarrow> bool" where
  "any_ok n (ANum x) \<longleftrightarrow> (\<exists>q. x = Fin q \<and> round_double q = Fin q)"
| "any_ok n (AArr vs) \<longleftrightarrow> 0 < n \<and> list_all (any_ok (n - 1)) vs"
| "any_ok n (AMap m) \<longleftrightarrow> 0 < n \<and> list_all (\<lambda>(k, v). any_ok (n - 1) v) m"
| "any_ok n v \<longleftrightarrow> True"

lemma any_json_ok: "any_ok n v \<Longrightarrow> printable Z (any_json v) \<and> doubles (any_json v) \<and> depth_le n (any_json v)"
proof (induction n v rule: any_ok.induct)
  case (3 n m)
  then show ?case by (fastforce simp: list_all_iff)
qed (auto simp: list_all_iff)

lemma any_ok_strip: "any_ok n v \<Longrightarrow> any_ok n (stripKeys ks v)"
proof (induction n v rule: any_ok.induct)
  case (3 n m)
  then show ?case by (fastforce simp: list_all_iff)
qed (auto simp: list_all_iff)

lemma round_double_one: "round_double 1 = Fin 1"
proof (rule round_double_exact [of 0])
  show "1 / two_pow (max (0 - 52) (- 1074)) = of_int (2 ^ 52)" by (simp add: two_pow_def)
qed (simp_all add: two_pow_def)

lemma round_double_zero: "round_double 0 = Fin 0"
  by (simp add: round_double_def)

lemma SchemaBody_ok: "any_ok 9 (AMap SchemaBody)"
  by (simp add: normalization_eq strings_def field_names_def props_schema_def class_schema_def state_schema_def confidence_schema_def
      Spec.nullable_def map_sets_def round_double_one round_double_zero)

lemma strict_schema_ok: "any_ok 9 (AMap (openAIStrictSchema SchemaBody))"
  unfolding openAIStrictSchema_AMap by (rule any_ok_strip [OF SchemaBody_ok])

lemma depth_le_mono: "depth_le n v \<Longrightarrow> n \<le> m \<Longrightarrow> depth_le m v"
proof (induction n v arbitrary: m rule: depth_le.induct)
  case (1 n vs)
  then show ?case by (fastforce simp: list_all_iff)
next
  case (2 n fs)
  have "depth_le (m - 1) (snd f)" if "f \<in> set fs" for f
    using 2(1) [of f _ "snd f" "m - 1"] 2(2,3) that by (cases f) (auto simp: list_all_iff)
  with 2(2,3) show ?case by (auto simp: list_all_iff)
qed simp_all

lemma schema_json_ok:
  assumes "any_ok 9 v" and "9 \<le> n"
  shows "printable Z (any_json v)" "doubles (any_json v)" "depth_le n (any_json v)"
  using any_json_ok [OF assms(1)] depth_le_mono assms(2) by blast+

lemma chat_json_ok: "printable Z (chat_json (openai_body net c raw)) \<and> doubles (chat_json (openai_body net c raw))
    \<and> depth_le 10000 (chat_json (openai_body net c raw))"
  using schema_json_ok [OF strict_schema_ok]
  by (auto simp: chat_json_def openai_body_def message_json_def format_json_def responseFormat_of_def round_double_zero
      simp del: any_json.simps)

lemma ollama_json_ok: "printable Z (ollama_json (ollama_body net c raw)) \<and> doubles (ollama_json (ollama_body net c raw))
    \<and> depth_le 10000 (ollama_json (ollama_body net c raw))"
  using schema_json_ok [OF SchemaBody_ok]
  by (auto simp: ollama_json_def ollama_body_def message_json_def round_double_zero simp del: any_json.simps)

definition openai_bytes :: "http \<Rightarrow> OpenAI \<Rightarrow> bytes \<Rightarrow> string" where
  "openai_bytes net c raw = the (marshal_body (chat_json (openai_body net c raw)))"

definition ollama_bytes :: "http \<Rightarrow> Ollama \<Rightarrow> bytes \<Rightarrow> string" where
  "ollama_bytes net c raw = the (marshal_body (ollama_json (ollama_body net c raw)))"

text \<open>Marshalling a request never fails.\<close>

lemma openai_marshals: "marshal_body (chat_json (openai_body net c raw)) = Some (openai_bytes net c raw)"
proof -
  have "marshal_body (chat_json (openai_body net c raw)) \<noteq> None"
    unfolding marshal_body_def Marshal_None using chat_json_ok by simp
  then show ?thesis by (simp add: openai_bytes_def)
qed

lemma ollama_marshals: "marshal_body (ollama_json (ollama_body net c raw)) = Some (ollama_bytes net c raw)"
proof -
  have "marshal_body (ollama_json (ollama_body net c raw)) \<noteq> None"
    unfolding marshal_body_def Marshal_None using ollama_json_ok by simp
  then show ?thesis by (simp add: ollama_bytes_def)
qed

text \<open>
  C16: the payload reaches the model as it is. Both clients always manage to marshal their request; its bytes are
  valid JSON, and a server that reads them finds the model's name, the system prompt, and as the
  user's message exactly the payload, with malformed UTF-8 replaced.
\<close>

theorem payload_reaches_model:
  fixes net :: http and raw :: bytes
  defines "messages \<equiv> JArr [JObj [(''role'', JStr ''system''), (''content'', JStr (to_valid (systemPrompt net)))],
    JObj [(''role'', JStr ''user''), (''content'', JStr (to_valid raw))]]"
  shows "(\<exists>buf kvs. marshal_body (chat_json (openai_body net c raw)) = Some buf \<and> parse_doc buf = Some (JObj kvs)
      \<and> map_of kvs ''model'' = Some (JStr (to_valid (oa_model c))) \<and> map_of kvs ''messages'' = Some messages)
    \<and> (\<exists>buf kvs. marshal_body (ollama_json (ollama_body net c' raw)) = Some buf \<and> parse_doc buf = Some (JObj kvs)
      \<and> map_of kvs ''model'' = Some (JStr (to_valid (ol_model c'))) \<and> map_of kvs ''messages'' = Some messages)"
proof -
  have a: "to_valid ''role'' = ''role''" "to_valid ''content'' = ''content''" "to_valid ''user'' = ''user''" "to_valid ''system'' = ''system''"
    "to_valid ''model'' = ''model''" "to_valid ''messages'' = ''messages''" "to_valid ''temperature'' = ''temperature''"
    by (simp_all add: to_valid_ascii is_ascii_def)
  have "parse_doc (openai_bytes net c raw) = Some (jval_of (\<lambda>_. 0) (chat_json (openai_body net c raw)))"
    using Marshal_parse_doc(2) [OF openai_marshals [unfolded marshal_body_def], of net c raw "[]"] chat_json_ok by simp
  moreover have "parse_doc (ollama_bytes net c' raw) = Some (jval_of (\<lambda>_. 0) (ollama_json (ollama_body net c' raw)))"
    using Marshal_parse_doc(2) [OF ollama_marshals [unfolded marshal_body_def], of net c' raw "[]"] ollama_json_ok by simp
  ultimately show ?thesis unfolding openai_marshals ollama_marshals messages_def
    by (simp add: chat_json_def openai_body_def ollama_json_def ollama_body_def message_json_def a)
qed

subsection \<open>Errors of the clients\<close>

lemma truncate_bytes_length: "length (truncate_bytes b n) \<le> n"
  by (simp add: truncate_bytes_def)

lemma IsPermanent_plain [simp]:
  "\<not> IsPermanent (APIError code r m)" "\<not> IsPermanent (ErrText m)"
  by (simp_all add: IsPermanent_def)

lemma Retryable_ErrText [simp]: "Retryable (ErrText m)"
  by (simp add: Retryable_def)

lemma OpenAI_errors:
  assumes "OpenAI_Normalize net c raw = Inl e"
  shows "\<not> IsPermanent e \<and> (\<not> Retryable e \<longleftrightarrow> (\<exists>resp. NewRequest net (oa_url c) = None
    \<and> Do net (openai_request c (openai_bytes net c raw)) = Inr resp \<and> StatusCode resp \<noteq> 200 \<and> \<not> retryableStatus (StatusCode resp) (Body resp)))"
  using assms
  by (auto simp: OpenAI_Normalize_def openai_marshals Let_def split: option.splits sum.splits if_splits prod.splits)

lemma Ollama_errors:
  assumes "Ollama_Normalize net c raw = Inl e"
  shows "\<not> IsPermanent e \<and> (\<not> Retryable e \<longleftrightarrow> (\<exists>resp. NewRequest net (ol_url c) = None
    \<and> Do net (ollama_request c (ollama_bytes net c raw)) = Inr resp \<and> StatusCode resp \<noteq> 200 \<and> StatusCode resp < 500))"
  using assms
  by (auto simp: Ollama_Normalize_def ollama_marshals Let_def split: option.splits sum.splits if_splits prod.splits)

text \<open>Both clients keep the contract the pipeline relies on.\<close>

definition openai_refuses :: "http \<Rightarrow> OpenAI \<Rightarrow> bytes \<Rightarrow> bool" where
  "openai_refuses net c raw \<longleftrightarrow> NewRequest net (oa_url c) = None \<and>
     (case Do net (openai_request c (openai_bytes net c raw)) of Inl _ \<Rightarrow> False
      | Inr resp \<Rightarrow> StatusCode resp \<noteq> 200 \<and> \<not> retryableStatus (StatusCode resp) (Body resp))"

definition ollama_refuses :: "http \<Rightarrow> Ollama \<Rightarrow> bytes \<Rightarrow> bool" where
  "ollama_refuses net c raw \<longleftrightarrow> NewRequest net (ol_url c) = None \<and>
     (case Do net (ollama_request c (ollama_bytes net c raw)) of Inl _ \<Rightarrow> False
      | Inr resp \<Rightarrow> StatusCode resp \<noteq> 200 \<and> StatusCode resp < 500)"

interpretation openai: llm_client "OpenAI_Normalize net c" "openai_refuses net c" for net c
  by unfold_locales (auto simp: openai_refuses_def dest!: OpenAI_errors split: sum.splits)

interpretation ollama: llm_client "Ollama_Normalize net c" "ollama_refuses net c" for net c
  by unfold_locales (auto simp: ollama_refuses_def dest!: Ollama_errors split: sum.splits)

text \<open>Where an answer comes from: a response with status 200 whose content decodes without an error.\<close>

lemma OpenAI_success:
  assumes "OpenAI_Normalize net c raw = Inr res"
  shows "\<exists>resp content. Do net (openai_request c (openai_bytes net c raw)) = Inr resp \<and> StatusCode resp = 200
    \<and> decode_response content = (res_Response res, False) \<and> res_PromptVer res = PromptVersion \<and> res_Model res = oa_model c"
  using assms
  by (auto simp: OpenAI_Normalize_def openai_marshals Let_def split: option.splits sum.splits if_splits prod.splits)

subsection \<open>Numbers of an answer\<close>

fun nums_ok :: "jval \<Rightarrow> bool" where
  "nums_ok (JNum t) \<longleftrightarrow> list_all num_char t"
| "nums_ok (JArr vs) \<longleftrightarrow> list_all nums_ok vs"
| "nums_ok (JObj kvs) \<longleftrightarrow> list_all (\<lambda>(k, v). nums_ok v) kvs"
| "nums_ok v \<longleftrightarrow> True"

lemma takeWhile_all: "list_all P (takeWhile P xs)"
  by (induction xs) auto

lemma parse_nums:
  "parse_value s = Some (v, r) \<Longrightarrow> nums_ok v"
  "parse_elements s = Some (vs, r) \<Longrightarrow> list_all nums_ok vs"
  "parse_members s = Some (kvs, r) \<Longrightarrow> list_all (\<lambda>(k, v). nums_ok v) kvs"
proof (induction s and s and s arbitrary: v r and vs r and kvs r rule: parse_value_parse_elements_parse_members.induct)
  case (1 s)
  note u = "1.prems" [unfolded parse_value.simps [of s]]
  show ?case
  proof (cases "skip_space s")
    case (Cons c cs)
    show ?thesis
      using u Cons "1.IH"(1) [OF Cons] "1.IH"(2) [OF Cons]
      by (auto simp: takeWhile_all split: if_splits option.splits)
  qed (use u in simp)
next
  case (2 s)
  from "2.prems" [unfolded parse_elements.simps [of s]] obtain v r1 where p: "parse_value s = Some (v, r1)"
    by (auto split: option.splits)
  with "2.prems" [unfolded parse_elements.simps [of s]] "2.IH"(1) [OF p] "2.IH"(2) [OF p refl] show ?case
    by (auto split: option.splits if_splits)
next
  case (3 s)
  from "3.prems" [unfolded parse_members.simps [of s]] obtain cs k r0 r1 v r2 where
    p: "expect (CHR 0x22) s = Some cs" "unquote cs = Some (k, r0)" "expect (CHR '':'') r0 = Some r1"
      "length r1 < length s" "parse_value r1 = Some (v, r2)"
    by (auto split: option.splits if_splits)
  note ih = "3.IH"(1) [OF p(1) p(2) refl p(3,4)] "3.IH"(2) [OF p(1) p(2) refl p(3,4,5) refl]
  with p "3.prems" [unfolded parse_members.simps [of s]] ih(1) [OF p(5)] show ?case
    by (auto split: option.splits if_splits)
qed

lemma special_letters: "special t = Some x \<Longrightarrow> \<not> list_all num_char t"
proof
  assume "special t = Some x" and n: "list_all num_char t"
  then have "\<exists>c \<in> set t. lower_byte c = CHR ''n''"
  proof -
    from \<open>special t = Some x\<close> have "CHR ''n'' \<in> set (map lower_byte (snd (split_sign t))) \<or> CHR ''n'' \<in> set (map lower_byte t)"
      by (auto simp: special_def Let_def split: prod.splits if_splits)
    moreover have "set (snd (split_sign t)) \<subseteq> set t" by (cases t) auto
    ultimately show ?thesis by auto
  qed
  then obtain c where c: "c \<in> set t" "lower_byte c = CHR ''n''" by blast
  with n have "num_char c" by (auto simp: list_all_iff)
  with c(2) show False by (auto simp: num_char_def digit_def lower_byte_def char_of_def split: if_splits)
qed

lemma ParseFloat_finite: "ParseFloat t = Some x \<Longrightarrow> list_all num_char t \<Longrightarrow> \<exists>q. x = Fin q"
  by (auto simp: ParseFloat_def dest: special_letters dest!: sym [of "Fin q" for q] split: option.splits float64.splits)

lemma Atoi_range: "Atoi t = Some n \<Longrightarrow> - (2 ^ 63) \<le> n \<and> n < 2 ^ 63"
  by (auto simp: Atoi_def Let_def split: prod.splits if_splits)

text \<open>An invariant of the fields is kept by every member that is decoded.\<close>

definition numbers_ok :: "Response \<Rightarrow> bool" where
  "numbers_ok r \<longleftrightarrow>
     (case r_AmountMinor r of None \<Rightarrow> True | Some n \<Rightarrow> - (2 ^ 63) \<le> n \<and> n < 2 ^ 63) \<and> (\<exists>q. r_Confidence r = Fin q)"

lemma dec_int64_ptr_range:
  "(case x of None \<Rightarrow> True | Some n \<Rightarrow> - (2 ^ 63) \<le> n \<and> n < (2 ^ 63 :: int)) \<Longrightarrow>
   (case fst (dec_int64_ptr v x) of None \<Rightarrow> True | Some n \<Rightarrow> - (2 ^ 63) \<le> n \<and> n < 2 ^ 63)"
  by (cases v) (auto simp: alloc_def dest: Atoi_range split: option.splits)

lemma dec_float64_finite: "nums_ok v \<Longrightarrow> \<exists>q. x = Fin q \<Longrightarrow> \<exists>q. fst (dec_float64 v x) = Fin q"
  by (cases v) (auto dest: ParseFloat_finite split: option.splits)

lemma find_field_in: "find_field k fs = Some f \<Longrightarrow> f \<in> snd ` set fs"
  by (auto simp: find_field_def find_Some_iff dest!: map_of_SomeD split: option.splits) (force intro: rev_image_eqI nth_mem)+

lemma response_field_keeps:
  "find_field k response_fields = Some f \<Longrightarrow> nums_ok v \<Longrightarrow> numbers_ok r \<Longrightarrow> numbers_ok (fst (f v r))"
  using dec_int64_ptr_range [of "r_AmountMinor r" v] dec_float64_finite [of v "r_Confidence r"] find_field_in [of k response_fields f]
  by (auto simp: response_fields_def field_def numbers_ok_def Let_def split: prod.splits)

lemma dec_members_keeps:
  "list_all (\<lambda>(k, v). nums_ok v) kvs \<Longrightarrow> numbers_ok r \<Longrightarrow> numbers_ok (fst (dec_members response_fields kvs r))"
proof (induction kvs arbitrary: r)
  case (Cons kv kvs)
  then show ?case
    using response_field_keeps [of "fst kv" _ "snd kv" r]
    by (cases kv; cases "find_field (fst kv) response_fields") (auto simp: Let_def split: prod.splits, metis fst_conv)
qed simp

lemma decode_response_numbers: "numbers_ok (fst (decode_response content))"
proof -
  have z: "numbers_ok zero_response" by (simp add: numbers_ok_def zero_response_def)
  show ?thesis
  proof (cases "parse_doc content")
    case (Some v)
    then have "nums_ok v" using parse_nums(1) by (auto simp: parse_doc_def split: if_splits)
    with z Some dec_members_keeps show ?thesis
      by (cases v) (auto simp: decode_response_def Unmarshal_def)
  qed (simp add: decode_response_def Unmarshal_def z)
qed

end
