(* ===== verification/Mock.thy ===== *)
theory Mock
  imports Providers
begin

text \<open>
  The deterministic client of \<open>mock.go\<close>: keyword rules over the payload, read once as JSON (whatever
  decodes is used, errors are ignored) and once as lower-cased text.
\<close>

type_synonym go_map = "(string \<times> any) list"

definition has_key :: "string \<Rightarrow> go_map \<Rightarrow> bool" where
  "has_key k p \<longleftrightarrow> map_of p k \<noteq> None"

definition looksInvoice :: "go_map \<Rightarrow> string \<Rightarrow> bool" where
  "looksInvoice p flat \<longleftrightarrow>
     has_key ''transaction'' p \<or> has_key ''doc_ref'' p \<or> Contains flat ''invoice'' \<or> Contains flat ''remitter''"

definition looksShipment :: "go_map \<Rightarrow> bool" where
  "looksShipment p \<longleftrightarrow>
     list_ex (\<lambda>k. has_key k p)
       [''container'', ''container_no'', ''transport_doc'', ''carrier_scac'', ''milestone'', ''milestone_text'',
        ''house_bl'', ''master_bl'']"

definition shipmentState :: "string \<Rightarrow> string" where
  "shipmentState flat =
     (if Contains flat ''out for delivery'' then ''OUT_FOR_DELIVERY''
      else if Contains flat ''released to consignee'' \<or> Contains flat ''delivered'' \<or> Contains flat ''consignee facility''
      then ''DELIVERED''
      else if Contains flat ''received at origin'' \<or> Contains flat ''gate-in'' \<or> Contains flat ''gate in''
        \<or> Contains flat ''empty container released'' \<or> Contains flat ''picked up'' \<or> Contains flat ''pickup''
      then ''PICKED_UP''
      else if Contains flat ''sailed'' \<or> Contains flat ''departed'' \<or> Contains flat ''loaded onboard''
        \<or> Contains flat ''in transit'' \<or> Contains flat ''vessel''
      then ''IN_TRANSIT''
      else '''')"

definition invoiceState :: "string \<Rightarrow> string" where
  "invoiceState flat =
     (if Contains flat ''refund'' then ''REFUNDED''
      else if Contains flat ''void'' \<or> Contains flat ''cancel'' then ''VOIDED''
      else if Contains flat ''settled'' \<or> Contains flat ''paid'' \<or> Contains flat ''payment received'' then ''PAID''
      else if Contains flat ''raised'' \<or> Contains flat ''issued'' then ''ISSUED''
      else '''')"

text \<open>A type assertion to a string or to a map.\<close>

definition as_string :: "string \<Rightarrow> go_map \<Rightarrow> string option" where
  "as_string k p = (case map_of p k of Some (AStr s) \<Rightarrow> Some s | _ \<Rightarrow> None)"

definition as_map :: "string \<Rightarrow> go_map \<Rightarrow> go_map option" where
  "as_map k p = (case map_of p k of Some (AMap m) \<Rightarrow> Some m | _ \<Rightarrow> None)"

fun firstString :: "go_map \<Rightarrow> string list \<Rightarrow> string" where
  "firstString p [] = ''''"
| "firstString p (k # ks) =
     (case as_string k p of Some v \<Rightarrow> if v \<noteq> '''' then v else firstString p ks | None \<Rightarrow> firstString p ks)"

definition shipmentKey :: "go_map \<Rightarrow> string" where
  "shipmentKey p =
     (let number = (case as_map ''transport_doc'' p of None \<Rightarrow> '''' | Some td \<Rightarrow> firstString td [''number'']) in
      if number \<noteq> '''' then number else firstString p [''master_bl'', ''house_bl'', ''container_no'', ''container''])"

definition time_keys :: "string list" where
  "time_keys = [''milestone_at'', ''milestone_local_time'', ''issued_at'', ''settled_at'', ''occurred_at'', ''event_time'', ''timestamp'']"

definition firstTimeString :: "go_map \<Rightarrow> string" where
  "firstTimeString p =
     (let v = firstString p time_keys in
      if v \<noteq> '''' then v
      else (case as_map ''transaction'' p of Some tx \<Rightarrow> firstString tx time_keys | None \<Rightarrow> ''''))"

definition txKind :: "go_map \<Rightarrow> string" where
  "txKind p =
     (case as_map ''transaction'' p of
        Some tx \<Rightarrow> (case as_string ''kind'' tx of Some k \<Rightarrow> k | None \<Rightarrow> '''')
      | None \<Rightarrow> '''')"

definition mock_base :: "unicode \<Rightarrow> go_map \<Rightarrow> string \<Rightarrow> Response" where
  "mock_base U p flat =
     (let r = zero_response\<lparr>r_Confidence := round_double (9 / 10)\<rparr> in
      if looksInvoice p flat then
        r\<lparr>r_Classification := ''INVOICE'', r_CanonicalState := invoiceState flat,
          r_EntityKey := ToUpper U (firstString p [''doc_ref'', ''invoice_id'', ''invoice_no'', ''invoice_ref'']),
          r_VendorStateText := txKind p, r_EventTime := firstTimeString p\<rparr>
      else if looksShipment p then
        r\<lparr>r_Classification := ''SHIPMENT'', r_CanonicalState := shipmentState flat,
          r_EntityKey := ToUpper U (shipmentKey p),
          r_VendorStateText := firstString p [''milestone'', ''milestone_text'', ''milestone_local_time''],
          r_EventTime := firstTimeString p\<rparr>
      else r\<lparr>r_Classification := ''UNCLASSIFIED'', r_Confidence := round_double (3 / 10)\<rparr>)"

definition Mock_Normalize :: "unicode \<Rightarrow> bytes \<Rightarrow> go_error + Result" where
  "Mock_Normalize U raw =
     (let (p, _) = Unmarshal dec_map raw [];
          r = mock_base U p (ToLower U raw);
          r' = (if r_Classification r \<noteq> ''UNCLASSIFIED'' \<and> r_CanonicalState r = ''''
                then r\<lparr>r_Confidence := round_double (4 / 10)\<rparr> else r)
      in Inr \<lparr>res_Response = r', res_Model = ''mock'', res_PromptVer = PromptVersion\<rparr>)"

text \<open>The threshold the program uses unless told otherwise.\<close>

definition default_threshold :: float64 where
  "default_threshold = round_double (6 / 10)"

lemma dyadic_half: "round_double (1 / 2) = Fin (1 / 2)"
  by (rule round_double_exact [of "- 1" _ "2 ^ 52"]) (simp_all add: two_pow_def)

lemma dyadic_below: "round_double (7 / 16) = Fin (7 / 16)"
  by (rule round_double_exact [of "- 2" _ "7 * 2 ^ 50"]) (simp_all add: two_pow_def)

lemma mock_confidences:
  "\<not> flt_less (round_double (9 / 10)) default_threshold" "flt_less (round_double (4 / 10)) default_threshold"
  "flt_less (round_double (3 / 10)) default_threshold"
  unfolding default_threshold_def
  by (rule round_double_mono, simp) (rule round_double_apart [OF _ _ _ dyadic_below dyadic_half], simp_all)+

lemma invoiceState_known: "invoiceState flat = '''' \<or> IsInvoiceState (invoiceState flat)"
  by (auto simp: invoiceState_def IsInvoiceState_iff invoice_states_def)

lemma shipmentState_known: "shipmentState flat = '''' \<or> IsShipmentState (shipmentState flat)"
  by (auto simp: shipmentState_def IsShipmentState_iff shipment_states_def)

text \<open>The gate leaves the mock's own words alone.\<close>

lemma known_words:
  "ToUpper U (TrimSpace ''INVOICE'') = ''INVOICE''" "ToUpper U (TrimSpace ''SHIPMENT'') = ''SHIPMENT''"
  "ToUpper U (TrimSpace ''UNCLASSIFIED'') = ''UNCLASSIFIED''"
  by (simp_all add: string_eval upper_byte_def)

lemma known_states: "s \<in> set (shipment_states @ invoice_states) \<Longrightarrow> ToUpper U (TrimSpace s) = s"
  by (auto simp: shipment_states_def invoice_states_def string_eval upper_byte_def)

lemma known_states_upper: "IsShipmentState s \<or> IsInvoiceState s \<Longrightarrow> ToUpper U (TrimSpace s) = s"
  by (rule known_states) (auto simp: IsShipmentState_iff IsInvoiceState_iff)

definition mock_response :: "unicode \<Rightarrow> bytes \<Rightarrow> Response" where
  "mock_response U raw =
     (let r = mock_base U (fst (Unmarshal dec_map raw [])) (ToLower U raw) in
      if r_Classification r \<noteq> ''UNCLASSIFIED'' \<and> r_CanonicalState r = ''''
      then r\<lparr>r_Confidence := round_double (4 / 10)\<rparr> else r)"

lemma Mock_Normalize_eq:
  "Mock_Normalize U raw = Inr \<lparr>res_Response = mock_response U raw, res_Model = ''mock'', res_PromptVer = PromptVersion\<rparr>"
  by (simp add: Mock_Normalize_def mock_response_def Let_def split: prod.splits)

interpretation mock: llm_client "Mock_Normalize U" "\<lambda>_. False" for U
  by unfold_locales (simp_all add: Mock_Normalize_eq)

lemma mock_response_cases:
  obtains (unclear) "flt_less (r_Confidence (mock_response U raw)) default_threshold"
      "r_CanonicalState (mock_response U raw) = ''''"
      "r_Classification (mock_response U raw) \<in> {ClassInvoice, ClassShipment, ClassUnclassified}"
  | (invoice) "r_Confidence (mock_response U raw) = round_double (9 / 10)"
      "r_Classification (mock_response U raw) = ClassInvoice" "IsInvoiceState (r_CanonicalState (mock_response U raw))"
  | (shipment) "r_Confidence (mock_response U raw) = round_double (9 / 10)"
      "r_Classification (mock_response U raw) = ClassShipment" "IsShipmentState (r_CanonicalState (mock_response U raw))"
proof -
  define flat where "flat = ToLower U raw"
  define p where "p = fst (Unmarshal dec_map raw [])"
  have eq: "mock_response U raw = (let r = mock_base U p flat in
      if r_Classification r \<noteq> ''UNCLASSIFIED'' \<and> r_CanonicalState r = ''''
      then r\<lparr>r_Confidence := round_double (4 / 10)\<rparr> else r)"
    by (simp add: mock_response_def p_def flat_def)
  consider "looksInvoice p flat" | "\<not> looksInvoice p flat" "looksShipment p" | "\<not> looksInvoice p flat" "\<not> looksShipment p"
    by blast
  then show thesis
  proof cases
    case 1
    then show thesis
      using invoiceState_known [of flat] mock_confidences(2) invoice unclear unfolding eq
      by (cases "invoiceState flat = ''''") (simp_all add: mock_base_def)
  next
    case 2
    then show thesis
      using shipmentState_known [of flat] mock_confidences(2) shipment unclear unfolding eq
      by (cases "shipmentState flat = ''''") (simp_all add: mock_base_def)
  next
    case 3
    then show thesis using mock_confidences(3) unclear unfolding eq
      by (simp add: mock_base_def zero_response_def)
  qed
qed

text \<open>
  C27: the mock client never fails, and at the default threshold the gate rejects one of its answers
  only for want of a key: an answer with no state is kept as unclassified, and every other
  answer with a key becomes a fact of the class and the state the mock named.
\<close>

theorem mock_through_gate:
  "\<exists>res. Mock_Normalize U raw = Inr res
   \<and> (let r = res_Response res in
      case Apply U (New default_threshold) r of
        Inl e \<Rightarrow> r_CanonicalState r \<noteq> '''' \<and> CanonicalKey U (r_EntityKey r) = ''''
      | Inr n \<Rightarrow>
          n_Classification n = (if r_CanonicalState r = '''' then ClassUnclassified else r_Classification r)
          \<and> n_CanonicalState n = r_CanonicalState r
          \<and> (r_CanonicalState r \<noteq> '''' \<longleftrightarrow> CanonicalKey U (r_EntityKey r) = n_EntityKey n \<and> n_EntityKey n \<noteq> ''''))"
proof -
  let ?r = "mock_response U raw"
  show ?thesis
  proof (cases rule: mock_response_cases [of U raw])
    case unclear
    then show ?thesis by (auto simp: Mock_Normalize_eq Apply_def New_def Let_def)
  next
    case invoice
    then have "r_CanonicalState ?r \<noteq> ''''" by (auto simp: IsInvoiceState_iff invoice_states_def)
    with invoice known_states_upper [of "r_CanonicalState ?r" U] show ?thesis
      by (auto simp: Mock_Normalize_eq Apply_def New_def Let_def known_words mock_confidences split: prod.splits)
  next
    case shipment
    then have "r_CanonicalState ?r \<noteq> ''''" by (auto simp: IsShipmentState_iff shipment_states_def)
    with shipment known_states_upper [of "r_CanonicalState ?r" U] show ?thesis
      by (auto simp: Mock_Normalize_eq Apply_def New_def Let_def known_words mock_confidences)
  qed
qed

end
