(* ===== verification/Roles.thy ===== *)
theory Roles
  imports App
begin

text \<open>
  The goroutines of a running process (\<open>init.go\<close>, \<open>worker.go\<close>): the one that runs the role, the listener's, and
  the pool's workers, as steps of one relation \<open>role_step\<close>. Signals, arriving and finishing requests, a failing
  listener and the deadline of \<open>Shutdown\<close> are steps too. A worker is reduced to its place in the loop; what
  its turns do is theory \<open>Worker\<close>. A call of the database that begins under a cancelled
  context fails, as its driver documents.

  The roles of theory \<open>App\<close> give exactly the outcomes of these runs (\<open>roles_outcomes\<close>).
\<close>

datatype listener = Serving | ListenErr string | Closed

text \<open>A worker: at the top of its loop, in \<open>Claim\<close> (begun under a live context or not), in \<open>dispatch\<close>, in the pause after an error, gone.\<close>

datatype worker_pc = Begin | Claiming bool | Dispatching | Pausing | Exited

text \<open>The role: in the \<open>select\<close>, in \<open>Shutdown\<close>, in the wait for the pool, returned.\<close>

datatype role_pc = Selecting | InShutdown | PoolWait "go_error option" | Returned "go_error option"

record role =
  r_pool :: bool
  r_signal :: bool
  r_cancel :: bool
  r_listener :: listener
  r_inflight :: nat
  r_main :: role_pc
  r_workers :: "worker_pc list"
  r_trace :: "action list"

text \<open>The context of the pool and of the \<open>select\<close> is done: a signal came, or \<open>runAll\<close> cancelled it.\<close>

definition ctx_done :: "role \<Rightarrow> bool" where
  "ctx_done s \<longleftrightarrow> r_signal s \<or> r_cancel s"

inductive worker_step :: "bool \<Rightarrow> worker_pc \<Rightarrow> worker_pc \<Rightarrow> bool" where
  top: "worker_step dead Begin (Claiming (\<not> dead))"
| job: "worker_step dead (Claiming True) Dispatching"
| idle: "worker_step dead (Claiming True) Begin"
| claim_failed: "worker_step dead (Claiming b) (if dead then Exited else Pausing)"
| answered: "worker_step dead Dispatching Begin"
| paused: "worker_step dead Pausing Begin"
| pause_done: "worker_step True Pausing Exited"

text \<open>\<open>runServer\<close> returned: a role with a pool cancels it and waits, the others are done.\<close>

definition server_returned :: "go_error option \<Rightarrow> role \<Rightarrow> role" where
  "server_returned e s =
     (if r_pool s then s\<lparr>r_cancel := True, r_main := PoolWait e\<rparr> else s\<lparr>r_main := Returned e\<rparr>)"

definition deadline :: go_error where
  "deadline = ErrText ''context deadline exceeded''"

inductive role_step :: "role \<Rightarrow> role \<Rightarrow> bool" where
  signal: "\<not> r_signal s \<Longrightarrow> role_step s (s\<lparr>r_signal := True\<rparr>)"
| accept: "r_listener s = Serving \<Longrightarrow> role_step s (s\<lparr>r_inflight := Suc (r_inflight s)\<rparr>)"
| finish: "0 < r_inflight s \<Longrightarrow> role_step s (s\<lparr>r_inflight := r_inflight s - 1\<rparr>)"
| listen_failed: "r_listener s = Serving \<Longrightarrow> role_step s (s\<lparr>r_listener := ListenErr m\<rparr>)"
| woken_ctx: "r_main s = Selecting \<Longrightarrow> ctx_done s \<Longrightarrow>
    role_step s (s\<lparr>r_main := InShutdown, r_listener := (if r_listener s = Serving then Closed else r_listener s),
      r_trace := r_trace s @ [Shutdown]\<rparr>)"
| woken_err: "r_main s = Selecting \<Longrightarrow> r_listener s = ListenErr m \<Longrightarrow>
    role_step s (s\<lparr>r_main := InShutdown, r_trace := r_trace s @ [LogError m, Shutdown]\<rparr>)"
| drained: "r_main s = InShutdown \<Longrightarrow> r_inflight s = 0 \<Longrightarrow> role_step s (server_returned e s)"
| timed_out: "r_main s = InShutdown \<Longrightarrow> 0 < r_inflight s \<Longrightarrow> role_step s (server_returned (Some deadline) s)"
| worker: "i < length (r_workers s) \<Longrightarrow> worker_step (ctx_done s) (r_workers s ! i) w \<Longrightarrow>
    role_step s (s\<lparr>r_workers := (r_workers s)[i := w]\<rparr>)"
| pool_stopped: "r_main s = PoolWait e \<Longrightarrow> set (r_workers s) \<subseteq> {Exited} \<Longrightarrow>
    role_step s (s\<lparr>r_main := Returned e, r_trace := r_trace s @ [StopPool]\<rparr>)"

text \<open>A role as it starts: what \<open>Run\<close> launches in each mode.\<close>

definition role_init :: "App \<Rightarrow> role" where
  "role_init a =
     (let server = (c_Mode (a_cfg a) = ''server''); alone = (c_Mode (a_cfg a) = ''worker'') in
      \<lparr>r_pool = (\<not> server), r_signal = False, r_cancel = False, r_listener = (if alone then Closed else Serving),
       r_inflight = 0, r_main = (if alone then PoolWait None else Selecting),
       r_workers = (if server then [] else replicate (nat (concurrency (a_pool a))) Begin),
       r_trace = (if server then [] else [StartPool]) @ (if alone then [] else [Listen])\<rparr>)"

abbreviation reaches :: "role \<Rightarrow> role \<Rightarrow> bool" where
  "reaches \<equiv> role_step\<^sup>*\<^sup>*"

inductive_cases worker_stepE: "worker_step dead w w'"
inductive_simps worker_step_Exited: "worker_step dead Exited w"

text \<open>A turn of the loop, as \<open>Worker\<close> has it, is a path of these places: back to the top, or out where the context is done.\<close>

lemma worker_turn_path:
  assumes "worker_turn claim disp ctx_err woken s = Some (l, s')"
  shows "(\<lambda>w w'. \<exists>dead. (dead \<longrightarrow> ctx_err \<or> woken) \<and> worker_step dead w w')\<^sup>*\<^sup>* Begin (case l of Return \<Rightarrow> Exited | Continue \<Rightarrow> Begin)"
    (is "?R\<^sup>*\<^sup>* _ _")
proof -
  have live: "?R Begin (Claiming True)" "?R (Claiming True) Dispatching" "?R (Claiming True) Begin" "?R Dispatching Begin"
      "?R (Claiming True) Pausing" "?R Pausing Begin"
    using worker_step.intros(1-6) [of False] by (auto intro!: exI [of _ False])
  have gone: "?R (Claiming True) Exited" if "ctx_err \<or> woken"
    using that claim_failed [of True True] by (auto intro!: exI [of _ True])
  show ?thesis
  proof (cases l)
    case Return
    then have "ctx_err \<or> woken" using assms by (auto simp: worker_turn_def split: prod.splits sum.splits option.splits if_splits)
    with live(1) gone Return show ?thesis by (auto intro: converse_rtranclp_into_rtranclp)
  next
    case Continue
    with live(1,3) show ?thesis by (auto intro: converse_rtranclp_into_rtranclp)
  qed
qed

subsection \<open>Invariants\<close>

text \<open>
  In every state of a role: a role that has left the \<open>select\<close> no longer serves; one that waits for its
  pool after serving has cancelled it; a worker is gone only where the context is done; one that
  returned has no worker left, and no request where \<open>Shutdown\<close> gave no error.
\<close>

definition role_inv :: "bool \<Rightarrow> role \<Rightarrow> bool" where
  "role_inv alone s \<longleftrightarrow>
     (r_main s \<noteq> Selecting \<longrightarrow> r_listener s \<noteq> Serving)
     \<and> (\<forall>e. r_main s = PoolWait e \<longrightarrow> r_pool s \<and> (alone \<or> r_cancel s) \<and> (e = None \<longrightarrow> r_inflight s = 0))
     \<and> (Exited \<in> set (r_workers s) \<longrightarrow> ctx_done s)
     \<and> (\<forall>e. r_main s = Returned e \<longrightarrow> set (r_workers s) \<subseteq> {Exited} \<and> (e = None \<longrightarrow> r_inflight s = 0))
     \<and> (\<not> r_pool s \<longrightarrow> r_workers s = [])
     \<and> (r_main s = Selecting \<or> r_main s = InShutdown \<longrightarrow> \<not> alone)"

lemma role_inv_init: "role_inv (c_Mode (a_cfg a) = ''worker'') (role_init a)"
  by (auto simp: role_inv_def role_init_def Let_def ctx_done_def)

lemma worker_exits: "worker_step dead w Exited \<Longrightarrow> w \<noteq> Exited \<Longrightarrow> dead"
  by (auto elim: worker_stepE split: if_splits)

lemma role_inv_step:
  assumes "role_step s s'" and "role_inv alone s"
  shows "role_inv alone s'"
  using assms
proof (cases rule: role_step.cases)
  case (worker i w)
  have "ctx_done s" if "Exited \<in> set ((r_workers s)[i := w])"
  proof (cases "Exited \<in> set (r_workers s)")
    case True
    with assms(2) show ?thesis by (simp add: role_inv_def)
  next
    case False
    then have "w = Exited" using that set_update_subset_insert [of "r_workers s" i w] by auto
    moreover have "r_workers s ! i \<noteq> Exited" using False nth_mem [OF worker(2)] by metis
    ultimately show ?thesis using worker_exits worker(3) by blast
  qed
  moreover have "r_main s \<noteq> Returned e" for e
  proof
    assume "r_main s = Returned e"
    then have "set (r_workers s) \<subseteq> {Exited}" using assms(2) by (simp add: role_inv_def)
    with nth_mem [OF worker(2)] have "r_workers s ! i = Exited" by blast
    with worker(3) show False by (simp add: worker_step_Exited)
  qed
  ultimately show ?thesis using assms(2) worker by (auto simp: role_inv_def ctx_done_def)
qed (auto simp: role_inv_def ctx_done_def server_returned_def split: if_splits)

lemma role_inv_reach: "reaches (role_init a) s \<Longrightarrow> role_inv (c_Mode (a_cfg a) = ''worker'') s"
  by (induction rule: rtranclp_induct) (auto intro: role_inv_init role_inv_step)

text \<open>
  C22: what has happened when a role returns. However requests, signals, failures of the listener
  and the workers interleave: every worker of the pool has left its loop, so the store that
  is closed next has no user left; nothing is being served, and where the role returns no error no request is
  in flight. A worker leaves its loop only after the context was cancelled.
\<close>

theorem role_returns_after_pool:
  assumes "reaches (role_init a) s"
  shows "(\<forall>e. r_main s = Returned e \<longrightarrow>
      set (r_workers s) \<subseteq> {Exited} \<and> r_listener s \<noteq> Serving \<and> (e = None \<longrightarrow> r_inflight s = 0))
    \<and> (Exited \<in> set (r_workers s) \<longrightarrow> ctx_done s)"
  using role_inv_reach [OF assms] by (auto simp: role_inv_def)

subsection \<open>Stopping\<close>

fun worker_weight :: "worker_pc \<Rightarrow> nat" where
  "worker_weight Exited = 0"
| "worker_weight (Claiming b) = (if b then 4 else 1)"
| "worker_weight Begin = 2"
| "worker_weight Dispatching = 3"
| "worker_weight Pausing = 3"

fun main_weight :: "role_pc \<Rightarrow> nat" where
  "main_weight Selecting = 3"
| "main_weight InShutdown = 2"
| "main_weight (PoolWait e) = 1"
| "main_weight (Returned e) = 0"

definition role_weight :: "role \<Rightarrow> nat" where
  "role_weight s = main_weight (r_main s) + r_inflight s + (if r_signal s then 0 else 1) + sum_list (map worker_weight (r_workers s))"

lemma worker_step_weight: "worker_step True w w' \<Longrightarrow> worker_weight w' < worker_weight w"
  by (erule worker_stepE) auto

lemma role_step_weight:
  assumes "role_step s s'" and "ctx_done s" and "r_main s \<noteq> Selecting" and "r_listener s \<noteq> Serving"
  shows "role_weight s' < role_weight s \<and> ctx_done s' \<and> r_main s' \<noteq> Selecting \<and> r_listener s' \<noteq> Serving"
  using assms
proof (cases rule: role_step.cases)
  case (worker i w)
  have "worker_weight w < worker_weight (r_workers s ! i)" using worker_step_weight worker(3) assms(2) by simp
  then have "sum_list (map worker_weight ((r_workers s)[i := w])) < sum_list (map worker_weight (r_workers s))"
    using worker(2) elem_le_sum_list [of i "map worker_weight (r_workers s)"] by (simp add: map_update sum_list_update)
  with worker assms show ?thesis by (simp add: role_weight_def ctx_done_def)
qed (auto simp: role_weight_def ctx_done_def server_returned_def)

lemma role_run_weight:
  "(role_step ^^ n) s s' \<Longrightarrow> ctx_done s \<Longrightarrow> r_main s \<noteq> Selecting \<Longrightarrow> r_listener s \<noteq> Serving \<Longrightarrow>
   n + role_weight s' \<le> role_weight s \<and> ctx_done s' \<and> r_main s' \<noteq> Selecting"
proof (induction n arbitrary: s)
  case (Suc n)
  from Suc.prems(1) obtain t where t: "role_step s t" "(role_step ^^ n) t s'" by (metis relpowp_Suc_D2)
  from role_step_weight [OF t(1)] Suc.prems Suc.IH [OF t(2)] show ?case by fastforce
qed simp

lemma role_weight_bound: "r_main s \<noteq> Selecting \<Longrightarrow> role_weight s \<le> 4 * length (r_workers s) + r_inflight s + 3"
proof -
  assume a: "r_main s \<noteq> Selecting"
  have "worker_weight w \<le> 4" for w by (cases w) simp_all
  then have "sum_list (map worker_weight ws) \<le> 4 * length ws" for ws
    by (induction ws) (simp_all add: add_mono)
  moreover have "main_weight (r_main s) \<le> 2" using a by (cases "r_main s") simp_all
  ultimately have "main_weight (r_main s) + sum_list (map worker_weight (r_workers s)) \<le> 2 + 4 * length (r_workers s)"
    by (intro add_mono)
  then show ?thesis by (simp add: role_weight_def)
qed

text \<open>A worker that is not gone, a \<open>Shutdown\<close> and a wait for the pool can always go on.\<close>

lemma role_progress:
  assumes "\<forall>e. r_main s \<noteq> Returned e" and "r_main s \<noteq> Selecting"
  shows "\<exists>s'. role_step s s'"
proof (cases "r_main s")
  case InShutdown
  then show ?thesis using drained timed_out by blast
next
  case (PoolWait e)
  show ?thesis
  proof (cases "set (r_workers s) \<subseteq> {Exited}")
    case True
    with PoolWait pool_stopped show ?thesis by blast
  next
    case False
    then obtain w where "w \<in> set (r_workers s)" "w \<noteq> Exited" by blast
    then obtain i where i: "i < length (r_workers s)" "r_workers s ! i \<noteq> Exited" by (metis in_set_conv_nth)
    then have "\<exists>w. worker_step (ctx_done s) (r_workers s ! i) w"
      by (cases "r_workers s ! i") (auto intro: worker_step.intros)
    with i worker show ?thesis by blast
  qed
qed (use assms in auto)

text \<open>
  C13: a stop always completes. Once the context is done, or serving has ended in a role that also has a pool,
  and the role has left the \<open>select\<close>, which it then always can, no schedule makes it run for ever: a run has at most four
  steps for each worker, one for each request in flight and three more, and a run that cannot go on has returned.
\<close>

theorem stop_completes:
  assumes "reaches (role_init a) s"
    and "ctx_done s \<or> c_Mode (a_cfg a) \<noteq> ''worker'' \<and> (\<exists>e. r_main s = PoolWait e)"
  shows "(r_main s = Selecting \<longrightarrow> (\<exists>s'. role_step s s' \<and> r_main s' = InShutdown))
    \<and> (r_main s \<noteq> Selecting \<longrightarrow>
        (\<forall>n s'. (role_step ^^ n) s s' \<longrightarrow>
           n \<le> 4 * length (r_workers s) + r_inflight s + 3
           \<and> ((\<nexists>s''. role_step s' s'') \<longrightarrow> (\<exists>e. r_main s' = Returned e))))"
proof (intro conjI impI allI)
  have over: "ctx_done s" using assms(2) role_inv_reach [OF assms(1)] by (auto simp: role_inv_def ctx_done_def)
  show "\<exists>s'. role_step s s' \<and> r_main s' = InShutdown" if "r_main s = Selecting"
    using woken_ctx [of s] that over by fastforce
  fix n s'
  assume m: "r_main s \<noteq> Selecting" and run: "(role_step ^^ n) s s'"
  have l: "r_listener s \<noteq> Serving" using role_inv_reach [OF assms(1)] m by (simp add: role_inv_def)
  note w = role_run_weight [OF run over m l]
  from w role_weight_bound [OF m] show "n \<le> 4 * length (r_workers s) + r_inflight s + 3" by linarith
  show "\<exists>e. r_main s' = Returned e" if "\<nexists>s''. role_step s' s''" using that role_progress [of s'] w by blast
qed

subsection \<open>Outcomes\<close>

text \<open>How far a role has come in what it does, by its place.\<close>

definition launched :: "App \<Rightarrow> action list" where
  "launched a = (if c_Mode (a_cfg a) = ''server'' then [] else [StartPool]) @ (if c_Mode (a_cfg a) = ''worker'' then [] else [Listen])"

definition served :: "App \<Rightarrow> action list \<Rightarrow> bool" where
  "served a tr \<longleftrightarrow> c_Mode (a_cfg a) \<noteq> ''worker'' \<and> (\<exists>l. tr = launched a @ l @ [Shutdown] \<and> (l = [] \<or> (\<exists>m. l = [LogError m])))"

definition trace_ok :: "App \<Rightarrow> role \<Rightarrow> bool" where
  "trace_ok a s \<longleftrightarrow> r_pool s = (c_Mode (a_cfg a) \<noteq> ''server'') \<and>
     (case r_main s of
        Selecting \<Rightarrow> c_Mode (a_cfg a) \<noteq> ''worker'' \<and> r_trace s = launched a
      | InShutdown \<Rightarrow> served a (r_trace s)
      | PoolWait e \<Rightarrow> r_pool s \<and> (if c_Mode (a_cfg a) = ''worker'' then e = None \<and> r_trace s = launched a else served a (r_trace s))
      | Returned e \<Rightarrow> \<exists>re. Run a re = (e, r_trace s))"

lemma served_Run:
  assumes "served a tr"
  shows "\<exists>re. Run a re = (e, tr @ (if c_Mode (a_cfg a) = ''server'' then [] else [StopPool]))"
proof -
  from assms obtain l where l: "c_Mode (a_cfg a) \<noteq> ''worker''" "tr = launched a @ l @ [Shutdown]" "l = [] \<or> (\<exists>m. l = [LogError m])"
    by (auto simp: served_def)
  then obtain se where "l = (case se of CtxCancelled \<Rightarrow> [] | ListenFailed m \<Rightarrow> [LogError m])"
    by (metis serve_end.case)
  with l have "Run a \<lparr>re_serve = se, re_shutdown = e\<rparr> = (e, tr @ (if c_Mode (a_cfg a) = ''server'' then [] else [StopPool]))"
    by (simp add: Run_def runServer_def runAll_def launched_def)
  then show ?thesis by blast
qed

lemma trace_ok_step: "role_step s s' \<Longrightarrow> trace_ok a s \<Longrightarrow> trace_ok a s'"
proof (induction rule: role_step.induct)
  case (woken_ctx s)
  then show ?case by (auto simp: trace_ok_def served_def)
next
  case (woken_err s m)
  then show ?case by (auto simp: trace_ok_def served_def)
next
  case (drained s e)
  then show ?case using served_Run [of a "r_trace s" e] by (auto simp: trace_ok_def server_returned_def served_def split: if_splits)
next
  case (timed_out s)
  then show ?case using served_Run [of a "r_trace s" "Some deadline"]
    by (auto simp: trace_ok_def server_returned_def served_def split: if_splits)
next
  case (pool_stopped s e)
  then show ?case using served_Run [of a "r_trace s" e] by (auto simp: trace_ok_def Run_def launched_def split: if_splits)
qed (auto simp: trace_ok_def split: role_pc.splits)

lemma trace_ok_reach: "reaches (role_init a) s \<Longrightarrow> trace_ok a s"
proof (induction rule: rtranclp_induct)
  case base
  show ?case by (simp add: trace_ok_def role_init_def launched_def Let_def)
qed (rule trace_ok_step)

text \<open>A pool whose context is done can empty.\<close>

lemma pool_empties:
  "ctx_done s \<Longrightarrow> reaches (s\<lparr>r_workers := replicate k Exited @ replicate m Begin\<rparr>) (s\<lparr>r_workers := replicate (k + m) Exited\<rparr>)"
proof (induction m arbitrary: k)
  case (Suc m)
  let ?s = "\<lambda>w. s\<lparr>r_workers := replicate k Exited @ w # replicate m Begin\<rparr>"
  have step: "role_step (?s w) (?s w')" if "worker_step True w w'" for w w'
    using worker [of k "?s w" w'] that Suc.prems by (simp add: ctx_done_def nth_append list_update_append)
  have "reaches (?s Begin) (?s Exited)"
    using step [OF top [of True, simplified]] step [OF claim_failed [of True, simplified]] by (rule converse_rtranclp_into_rtranclp [OF _ r_into_rtranclp])
  moreover have "reaches (?s Exited) (s\<lparr>r_workers := replicate (k + Suc m) Exited\<rparr>)"
    using Suc.IH [of "Suc k"] Suc.prems by (simp add: replicate_app_Cons_same)
  ultimately show ?case by simp
qed simp

lemma pool_returns:
  assumes "ctx_done s" and "r_main s = PoolWait e" and "r_workers s = replicate m Begin"
  shows "\<exists>s'. reaches s s' \<and> r_main s' = Returned e \<and> r_trace s' = r_trace s @ [StopPool]"
proof -
  let ?t = "s\<lparr>r_workers := replicate m Exited\<rparr>"
  have "reaches s ?t" using pool_empties [OF assms(1), of 0 m] assms(3) by (cases s) simp
  moreover have "role_step ?t (?t\<lparr>r_main := Returned e, r_trace := r_trace ?t @ [StopPool]\<rparr>)"
    using assms(2) by (intro pool_stopped) auto
  ultimately have "reaches s (?t\<lparr>r_main := Returned e, r_trace := r_trace ?t @ [StopPool]\<rparr>)"
    by (rule rtranclp.rtrancl_into_rtrancl)
  then show ?thesis by (intro exI [of _ "?t\<lparr>r_main := Returned e, r_trace := r_trace ?t @ [StopPool]\<rparr>"]) simp
qed

lemma server_run:
  assumes "c_Mode (a_cfg a) \<noteq> ''worker''"
  shows "\<exists>s. reaches (role_init a) s \<and> r_main s = InShutdown \<and> r_inflight s = 0 \<and> r_workers s = r_workers (role_init a)
    \<and> r_pool s = r_pool (role_init a)
    \<and> r_trace s = launched a @ (case se of CtxCancelled \<Rightarrow> [] | ListenFailed m \<Rightarrow> [LogError m]) @ [Shutdown]"
proof -
  let ?i = "role_init a"
  have i: "r_main ?i = Selecting" "r_listener ?i = Serving" "r_inflight ?i = 0" "\<not> r_signal ?i" "r_trace ?i = launched a"
    using assms by (simp_all add: role_init_def Let_def launched_def)
  show ?thesis
  proof (cases se)
    case CtxCancelled
    have 1: "role_step ?i (?i\<lparr>r_signal := True\<rparr>)" using i(4) by (rule signal)
    have 2: "role_step (?i\<lparr>r_signal := True\<rparr>)
        ((?i\<lparr>r_signal := True\<rparr>)\<lparr>r_main := InShutdown, r_listener := Closed, r_trace := launched a @ [Shutdown]\<rparr>)"
      using woken_ctx [of "?i\<lparr>r_signal := True\<rparr>"] i by (simp add: ctx_done_def)
    from 1 2 have "reaches ?i ((?i\<lparr>r_signal := True\<rparr>)\<lparr>r_main := InShutdown, r_listener := Closed, r_trace := launched a @ [Shutdown]\<rparr>)"
      by (meson converse_rtranclp_into_rtranclp r_into_rtranclp)
    then show ?thesis using i CtxCancelled by (fastforce intro!: exI [where x = "(?i\<lparr>r_signal := True\<rparr>)\<lparr>r_main := InShutdown, r_listener := Closed, r_trace := launched a @ [Shutdown]\<rparr>"])
  next
    case (ListenFailed m)
    let ?j = "?i\<lparr>r_listener := ListenErr m\<rparr>"
    have 1: "role_step ?i ?j" using i(2) by (rule listen_failed)
    have 2: "role_step ?j (?j\<lparr>r_main := InShutdown, r_trace := launched a @ [LogError m, Shutdown]\<rparr>)"
      using woken_err [of ?j m] i by simp
    from 1 2 have "reaches ?i (?j\<lparr>r_main := InShutdown, r_trace := launched a @ [LogError m, Shutdown]\<rparr>)"
      by (meson converse_rtranclp_into_rtranclp r_into_rtranclp)
    then show ?thesis using i ListenFailed by (fastforce intro!: exI [where x = "?j\<lparr>r_main := InShutdown, r_trace := launched a @ [LogError m, Shutdown]\<rparr>"])
  qed
qed

lemma Run_realised: "\<exists>s. reaches (role_init a) s \<and> r_main s = Returned (fst (Run a re)) \<and> r_trace s = snd (Run a re)"
proof (cases "c_Mode (a_cfg a) = ''worker''")
  case True
  let ?s = "(role_init a)\<lparr>r_signal := True\<rparr>"
  have "role_step (role_init a) ?s" by (rule signal) (simp add: role_init_def Let_def)
  moreover obtain s' where "reaches ?s s'" "r_main s' = Returned None" "r_trace s' = [StartPool, StopPool]"
    using pool_returns [of ?s None "nat (concurrency (a_pool a))"] True by (auto simp: role_init_def Let_def ctx_done_def)
  ultimately show ?thesis using True by (auto simp: Run_def intro!: exI [of _ s'] intro: converse_rtranclp_into_rtranclp)
next
  case False
  obtain s where s: "reaches (role_init a) s" "r_main s = InShutdown" "r_inflight s = 0" "r_workers s = r_workers (role_init a)"
      "r_pool s = r_pool (role_init a)"
      "r_trace s = launched a @ (case re_serve re of CtxCancelled \<Rightarrow> [] | ListenFailed m \<Rightarrow> [LogError m]) @ [Shutdown]"
    using server_run [OF False] by blast
  let ?t = "server_returned (re_shutdown re) s"
  have t: "reaches (role_init a) ?t" using s(1) drained [OF s(2,3), of "re_shutdown re"] by (rule rtranclp.rtrancl_into_rtrancl)
  show ?thesis
  proof (cases "c_Mode (a_cfg a) = ''server''")
    case True
    with s t show ?thesis
      by (auto intro!: exI [of _ ?t] simp: server_returned_def role_init_def Let_def Run_def runServer_def launched_def)
  next
    case all: False
    then obtain s' where "reaches ?t s'" "r_main s' = Returned (re_shutdown re)" "r_trace s' = r_trace s @ [StopPool]"
      using pool_returns [of ?t "re_shutdown re" "nat (concurrency (a_pool a))"] s
      by (auto simp: server_returned_def role_init_def Let_def ctx_done_def)
    with t s(6) all False show ?thesis
      by (auto intro!: exI [of _ s'] simp: Run_def runAll_def runServer_def launched_def)
  qed
qed


text \<open>A worker process with two workers, and its end after a signal.\<close>

definition worker_app :: App where
  "worker_app = \<lparr>a_cfg = (loadConfig demo_unicode (\<lambda>_. ''''))\<lparr>c_Mode := ''worker''\<rparr>, a_queue = NewPostgres default_config,
     a_proc = demo_processor, a_pool = NewPool 2\<rparr>"

lemma worker_app_init:
  "r_main (role_init worker_app) = PoolWait None" "r_workers (role_init worker_app) = [Begin, Begin]" "\<not> r_signal (role_init worker_app)"
  "r_trace (role_init worker_app) = [StartPool]" "r_inflight (role_init worker_app) = 0"
  by (simp_all add: role_init_def worker_app_def Let_def NewPool_def eval_nat_numeral)

lemma worker_app_signal: "reaches (role_init worker_app) ((role_init worker_app)\<lparr>r_signal := True\<rparr>)"
  by (rule r_into_rtranclp) (rule signal [OF worker_app_init(3)])

theorem role_returns_after_pool_witness:
  "\<exists>s. reaches (role_init worker_app) s \<and> r_main s = Returned None \<and> set (r_workers s) \<subseteq> {Exited}"
proof -
  have "r_workers (role_init worker_app) = replicate 2 Begin" by (simp add: worker_app_init eval_nat_numeral)
  then obtain s where "reaches ((role_init worker_app)\<lparr>r_signal := True\<rparr>) s" "r_main s = Returned None"
    using pool_returns [of "(role_init worker_app)\<lparr>r_signal := True\<rparr>" None 2] by (auto simp: worker_app_init ctx_done_def)
  moreover from this worker_app_signal have "reaches (role_init worker_app) s" by simp
  ultimately show ?thesis using role_returns_after_pool [of worker_app s] by blast
qed

theorem stop_completes_witness:
  "Collect ((role_step ^^ 12) ((role_init worker_app)\<lparr>r_signal := True\<rparr>)) = {}"
proof -
  have "n \<le> 11" if "(role_step ^^ n) ((role_init worker_app)\<lparr>r_signal := True\<rparr>) s'" for n s'
    using stop_completes [OF worker_app_signal] that by (auto simp: worker_app_init ctx_done_def)
  then show ?thesis by fastforce
qed

end
