(* ===== verification/Pools.thy ===== *)
theory Pools
  imports App
begin

text \<open>
  The connection pools a process opens and closes: \<open>New\<close> and \<open>Close\<close> of \<open>store.go\<close>, and the functions of \<open>init.go\<close> and
  \<open>main.go\<close> that call them. Each function has, beside its result in theory \<open>App\<close>, the calls it makes, in
  their order; a deferred \<open>Close\<close> runs when \<open>main\<close> returns, and \<open>os.Exit\<close> does not run it.
\<close>

datatype pool_op = OpenPool | ClosePool

text \<open>\<open>store.New\<close>: a pool whose first ping fails is closed again.\<close>

definition New_pools :: "attempt \<Rightarrow> pool_op list" where
  "New_pools a =
     (case at_pool a of Some _ \<Rightarrow> []
      | None \<Rightarrow> (case at_ping a of Some _ \<Rightarrow> [OpenPool, ClosePool] | None \<Rightarrow> [OpenPool]))"

definition Close_pools :: "pool_op list" where
  "Close_pools = [ClosePool]"

fun connect_pools :: "(nat \<Rightarrow> attempt) \<Rightarrow> nat \<Rightarrow> nat \<Rightarrow> pool_op list" where
  "connect_pools tries i 0 = []"
| "connect_pools tries i (Suc k) =
     (let a = tries i in
      if at_ctx a then []
      else (case store_New a of
         Inr _ \<Rightarrow> New_pools a
       | Inl err \<Rightarrow> New_pools a @ (if at_cancel a then [] else connect_pools tries (Suc i) k)))"

definition newApp_pools ::
  "(string \<Rightarrow> 'd \<Rightarrow> go_error + 'd) \<Rightarrow> sql_file list \<Rightarrow> (nat \<Rightarrow> attempt) \<Rightarrow> mig_faults \<Rightarrow> 'd mig \<Rightarrow> pool_op list" where
  "newApp_pools run files tries mf s =
     connect_pools tries 0 attempts @
     (case connectWithRetry tries of
        Inl _ \<Rightarrow> []
      | Inr _ \<Rightarrow> (case fst (Migrate run files mf s) of Inl _ \<Rightarrow> Close_pools | Inr _ \<Rightarrow> []))"

definition App_Close :: "App \<Rightarrow> pool_op list" where
  "App_Close a = Close_pools"

definition main_pools ::
  "unicode \<Rightarrow> http \<Rightarrow> (string \<Rightarrow> 'd \<Rightarrow> go_error + 'd) \<Rightarrow> sql_file list \<Rightarrow> env \<Rightarrow> (nat \<Rightarrow> attempt) \<Rightarrow> mig_faults
    \<Rightarrow> run_env \<Rightarrow> 'd mig \<Rightarrow> pool_op list" where
  "main_pools U net run files env tries mf re s =
     newApp_pools run files tries mf s @
     (case fst (newApp U net run files tries mf (loadConfig U env) s) of
        Inl _ \<Rightarrow> []
      | Inr app \<Rightarrow> (case fst (Run app re) of Some _ \<Rightarrow> [] | None \<Rightarrow> App_Close app))"

text \<open>
  What becomes of a process's pool: whether one is open. Opening a second one or closing one that is not
  open is no value.
\<close>

fun pool_run :: "bool \<Rightarrow> pool_op list \<Rightarrow> bool option" where
  "pool_run b [] = Some b"
| "pool_run b (OpenPool # ops) = (if b then None else pool_run True ops)"
| "pool_run b (ClosePool # ops) = (if b then pool_run False ops else None)"

lemma pool_run_append: "pool_run b (xs @ ys) = Option.bind (pool_run b xs) (\<lambda>b'. pool_run b' ys)"
  by (induction b xs rule: pool_run.induct) simp_all

lemma New_pools_run: "pool_run False (New_pools a) = Some (\<not> isl (store_New a))"
  by (simp add: New_pools_def store_New_def split: option.split)

lemma connect_pools_run: "pool_run False (connect_pools tries i k) = Some (\<not> isl (connect_loop tries i k e))"
proof (induction k arbitrary: i e)
  case (Suc k)
  then show ?case
    using New_pools_run [of "tries i"] by (auto simp: Let_def pool_run_append split: sum.splits)
qed simp

text \<open>
  C34: what becomes of the connection pools. Whatever the tries to connect, the migrations and the role meet, a process never has two
  pools open and never closes one twice; every failed start-up has closed what it opened; and at exit
  a pool is left open exactly where the start-up succeeded and \<open>Run\<close> returned an error, because \<open>os.Exit\<close> skips the deferred \<open>Close\<close>.
\<close>

theorem pools_released:
  "pool_run False (newApp_pools run files tries mf s) = Some (\<not> isl (fst (newApp U net run files tries mf c s)))
   \<and> pool_run False (main_pools U net run files env tries mf re s) =
     Some ((\<exists>n. connectWithRetry tries = Inr n) \<and> fst (Migrate run files mf s) = Inr ()
       \<and> c_Mode (loadConfig U env) \<noteq> ''worker'' \<and> re_shutdown re \<noteq> None)"
proof -
  have n: "pool_run False (newApp_pools run files tries mf s) = Some (\<not> isl (fst (newApp U net run files tries mf c s)))" for c
    using connect_pools_run [of tries 0 attempts None]
    by (auto simp: newApp_pools_def pool_run_append connectWithRetry_def newApp_def Close_pools_def split: sum.splits prod.splits)
  show ?thesis
    using n [of c] n [of "loadConfig U env"]
    by (auto simp: main_pools_def pool_run_append App_Close_def Close_pools_def newApp_def Run_def runAll_def runServer_def
        split: sum.splits prod.splits option.splits)
qed

end
