(* ===== verification/Embedded.thy ===== *)
theory Embedded
  imports Migrate
begin

text \<open>
  The files that are compiled into the program: \<open>migrations.FS\<close> and the fixtures of package \<open>samples\<close>. What the build embeds is a
  parameter, the names with their contents; the accessors are those of \<open>samples.go\<close>. What a glob lists can be
  read, so the branch of \<open>Migrate\<close> for a missing file is never taken.
\<close>

type_synonym embed_FS = "(string \<times> string) list"

text \<open>\<open>embed.FS.ReadFile\<close>.\<close>

definition ReadFile :: "embed_FS \<Rightarrow> string \<Rightarrow> go_error + string" where
  "ReadFile fs name =
     (case map_of fs name of None \<Rightarrow> Inl (ErrText (''open '' @ name @ '': file does not exist'')) | Some b \<Rightarrow> Inr b)"

definition Read :: "embed_FS \<Rightarrow> string \<Rightarrow> go_error + string" where
  "Read fsys name = ReadFile fsys name"

definition Names :: "embed_FS \<Rightarrow> string list" where
  "Names fsys = sort (filter (\<lambda>name. suffix ''.json'' name \<and> CHR ''/'' \<notin> set name) (map fst fsys))"

lemma ReadFile_ok: "\<not> isl (ReadFile fs name) \<longleftrightarrow> name \<in> fst ` set fs"
  using map_of_eq_None_iff [of fs name] by (cases "map_of fs name") (auto simp: ReadFile_def)

lemma Names_Read: "name \<in> set (Names fsys) \<Longrightarrow> \<not> isl (Read fsys name)"
  by (simp add: Names_def Read_def ReadFile_ok)

lemma migrations_readable: "f \<in> set (glob_sorted fs) \<Longrightarrow> map_of fs f \<noteq> None"
  by (auto simp: glob_sorted_def map_of_eq_None_iff)

end
