(* ===== verification/Fencing.thy ===== *)
theory Fencing
  imports System
begin

text \<open>
  What the lease does not protect from: a worker that outlives its lease (the model may take longer than
  the lease lasts) still answers the queue, and its answer is not tied to its claim.
\<close>

text \<open>A log with one row and no facts yet, and a claim, an acknowledgement and a failure of its job.\<close>

definition one_row :: "Postgres \<Rightarrow> timestamptz \<Rightarrow> raw_row \<Rightarrow> (nat \<Rightarrow> pc) \<Rightarrow> sys" where
  "one_row q now r pcs = \<lparr>s_now = now, s_q = q, s_db = \<lparr>raw_events = [r], normalized_events = [], entities = []\<rparr>, s_pc = pcs\<rparr>"

definition job_of :: "raw_row \<Rightarrow> Job" where
  "job_of r = \<lparr>j_ID = rr_id r, j_Payload = rr_raw_payload r, j_Attempts = rr_attempts r + 1\<rparr>"

lemma job_of_ID [simp]: "j_ID (job_of r) = rr_id r"
  by (simp add: job_of_def)

lemma claimed_ID [simp]: "rr_id (claimed P now l r) = rr_id r"
  by (simp add: claimed_def)

lemma claim_one:
  assumes "claimable now r" and "rr_attempts r < 2147483647" and "pcs w = Idle"
  shows "sys_step U P (one_row q now r pcs)
    (one_row q now (claimed P now (sint (Lease (cfg q))) r) (pcs(w := Handling (job_of r))))"
proof -
  let ?s = "one_row q now r pcs"
  have "Queue_Claim P NoFault (s_now ?s) [] PollTimeout (s_q ?s) (s_db ?s) = (Inr (Some (job_of r)), q,
      \<lparr>raw_events = [claimed P now (sint (Lease (cfg q))) r], normalized_events = [], entities = []\<rparr>)"
    using assms(1,2) by (simp add: one_row_def job_of_def Queue_Claim_def Store_Claim_def claim_stmt_def update_where_def)
  from claim [OF _ this, where w = w] assms(3) show ?thesis by (simp add: one_row_def)
qed

lemma tick_one: "now \<le> t \<Longrightarrow> sys_step U P (one_row q now r pcs) (one_row q t r pcs)"
  using tick [of "one_row q now r pcs" t U P] by (simp add: one_row_def)

lemma ack_one:
  assumes "raw_events (s_db s) = [r]" and "s_pc s w = Answering job (Inr ())" and "rr_id r = j_ID job"
  shows "sys_step U P s (s\<lparr>s_db := (s_db s)\<lparr>raw_events := [r\<lparr>rr_status := StatusProcessed, rr_error := None, rr_lease_until := None\<rparr>]\<rparr>,
    s_pc := (s_pc s)(w := Idle)\<rparr>)"
  by (rule answered [OF assms(2), where f = NoFault])
    (simp add: answer_def dispatch_def Ack_def MarkProcessed_def update_raw_def update_where_def assms)

lemma fail_one:
  assumes "raw_events (s_db s) = [r]" and "s_pc s w = Answering job (Inl err)" and "rr_id r = j_ID job" and "IsPermanent err"
  shows "sys_step U P s (s\<lparr>s_db := (s_db s)\<lparr>raw_events := [dead_letter (Error err) r]\<rparr>, s_pc := (s_pc s)(w := Idle)\<rparr>)"
  by (rule answered [OF assms(2), where f = NoFault])
    (simp add: answer_def dispatch_def Queue_Fail_def Store_Fail_def update_raw_def update_where_def assms)

text \<open>
  The second worker runs the pipeline to its end and acknowledges; the first still holds its job.
\<close>

lemma second_worker:
  assumes "verdict U p job = Inr (res, n)" and "rr_id r = j_ID job" and "pcs w = Handling job" and "v \<noteq> w" and "pcs v = Handling job'"
    and "n_Classification n = ClassInvoice"
  shows "\<exists>s r' f. sys_reach U P (one_row q now r pcs) s \<and> raw_events (s_db s) = [r'] \<and> rr_id r' = rr_id r
    \<and> rr_status r' = StatusProcessed \<and> normalized_events (s_db s) = [f] \<and> nr_raw_event_id f = rr_id r
    \<and> entities (s_db s) \<noteq> [] \<and> s_pc s v = Handling job'"
proof -
  let ?s = "one_row q now r pcs"
  define d where "d = snd (Handle U P p (no_faults now) job (s_db ?s))"
  have j: "j_ID job \<in> rr_id ` set (raw_events (s_db ?s))" using assms(2) by (simp add: one_row_def)
  have h: "Handle U P p (no_faults now) job (s_db ?s) = (Inr (), d)" by (simp add: d_def Handle_clean [OF assms(1) j])
  let ?t = "?s\<lparr>s_db := d, s_pc := (s_pc ?s)(w := Answering job (Inr ()))\<rparr>"
  have reach: "sys_reach U P ?s ?t"
    by (rule handler_runs [OF _ _ h]) (use assms(3) in \<open>simp_all add: one_row_def no_faults_def\<close>)
  have raw: "raw_events d = [r]" using Handle_raw [of U P p "no_faults now" job "s_db ?s"] by (simp add: d_def one_row_def)
  have facts: "normalized_events d = [new_norm P now (j_ID job) n (res_Model res) (res_PromptVer res)]"
    using Handle_clean_facts [OF assms(1) j] by (simp add: d_def one_row_def select_by_def)
  have "entity_view d (n_EntityKey n) \<noteq> None"
    using Handle_clean_view [OF assms(1) j] assms(6)
    by (simp add: d_def one_row_def db_ok_def unique_on_def step_fact_def entity_view_def select_by_def split: option.splits)
  then have ents: "entities d \<noteq> []" by (auto simp: entity_view_def select_by_def)
  have "sys_step U P ?t (?t\<lparr>s_db := (s_db ?t)\<lparr>raw_events := [r\<lparr>rr_status := StatusProcessed, rr_error := None, rr_lease_until := None\<rparr>]\<rparr>,
    s_pc := (s_pc ?t)(w := Idle)\<rparr>)"
    by (rule ack_one) (use raw assms(2) in simp_all)
  from sys_next [OF reach this] show ?thesis
    by (rule exI [THEN exE]) (use assms facts ents in \<open>auto simp: one_row_def new_norm_def\<close>)
qed

text \<open>
  The run: the row of a webhook is claimed by one worker, its lease expires, and a second worker
  claims it again; both now hold the job.
\<close>

definition late_row :: raw_row where
  "late_row = new_raw demo_pg 10 ''id1'' (payload_hash ''{}'') ''{}'' (TrimSpace '' maersk'')"

definition late_queue :: Postgres where
  "late_queue = Notify (NewPostgres default_config)"

definition late_row1 :: raw_row where
  "late_row1 = claimed demo_pg 10 (sint (Lease (cfg late_queue))) late_row"

definition late_row2 :: raw_row where
  "late_row2 = claimed demo_pg 1000000000 (sint (Lease (cfg late_queue))) late_row1"

definition late_pcs :: "nat \<Rightarrow> pc" where
  "late_pcs = (\<lambda>_. Idle)(0 := Handling (job_of late_row), 1 := Handling (job_of late_row1))"

lemma late_rows:
  "rr_id late_row = ''id1''" "rr_attempts late_row = 0" "claimable 10 late_row"
  "rr_id late_row1 = ''id1''" "rr_raw_payload late_row1 = ''{}''" "rr_attempts late_row1 = 1" "claimable 1000000000 late_row1"
proof -
  have lease: "sint (Lease (cfg late_queue)) = 30000000000"
    by (simp add: late_queue_def Notify_def default_config_values sint_seconds)
  have r: "rr_id late_row = ''id1''" "rr_raw_payload late_row = ''{}''" "rr_attempts late_row = 0"
    "rr_status late_row = StatusPending" "rr_lease_until late_row = None"
    by (simp_all add: late_row_def new_raw_def demo_pg_def)
  then show "rr_id late_row = ''id1''" "rr_attempts late_row = 0" "claimable 10 late_row" by (simp_all add: claimable_def)
  show "rr_id late_row1 = ''id1''" "rr_raw_payload late_row1 = ''{}''" "rr_attempts late_row1 = 1" "claimable 1000000000 late_row1"
    by (simp_all only: late_row1_def claimed_def lease) (simp_all add: r claimable_def demo_pg_def)
qed

lemma both_hold:
  "sys_reach demo_unicode demo_pg (sys_init default_config 10) (one_row late_queue 1000000000 late_row2 late_pcs)"
proof -
  let ?reach = "sys_reach demo_unicode demo_pg (sys_init default_config 10)"
  let ?pc = "(\<lambda>_. Idle)(0 := Handling (job_of late_row))"
  have "demo_sys = one_row late_queue 10 late_row (\<lambda>_. Idle)"
    by (simp add: demo_sys_def sys_init_def one_row_def empty_db_def late_row_def late_queue_def)
  with demo_sys_reach have "?reach (one_row late_queue 10 late_row (\<lambda>_. Idle))" by simp
  from sys_next [OF this claim_one [where w = 0]] have "?reach (one_row late_queue 10 late_row1 ?pc)"
    by (simp add: late_row1_def late_rows(2,3))
  from sys_next [OF this tick_one [of _ 1000000000]] have "?reach (one_row late_queue 1000000000 late_row1 ?pc)" by simp
  from sys_next [OF this claim_one [where w = 1]] show ?thesis
    by (simp add: late_row2_def late_pcs_def late_rows(6,7))
qed

lemma second_settles:
  "\<exists>s r f. sys_reach demo_unicode demo_pg (one_row late_queue 1000000000 late_row2 late_pcs) s
    \<and> raw_events (s_db s) = [r] \<and> rr_id r = rr_id late_row2 \<and> rr_status r = StatusProcessed
    \<and> normalized_events (s_db s) = [f] \<and> nr_raw_event_id f = rr_id late_row2
    \<and> entities (s_db s) \<noteq> [] \<and> s_pc s 0 = Handling (job_of late_row)"
proof (rule second_worker [where w = 1])
  show "verdict demo_unicode demo_processor (job_of late_row1) =
      Inr (\<lparr>res_Response = demo_invoice, res_Model = ''m'', res_PromptVer = ''v1''\<rparr>, demo_fact)"
    by (simp add: verdict_def demo_processor_def job_of_def late_rows demo_invoice_apply)
qed (simp_all add: late_row2_def late_pcs_def demo_fact_def)

text \<open>
  C36: a late answer is not fenced. The system can reach a state in which an event was processed by one
  worker, its fact stored and its entity written, and from there in one step a state in which the
  event is dead-lettered nevertheless and nothing else of the database has changed: the answer
  of another worker, whose lease had expired, settles the row by its id alone.
\<close>

theorem stale_worker_overwrites:
  "\<exists>s s' r r' f. sys_reach demo_unicode demo_pg (sys_init default_config 10) s
    \<and> raw_events (s_db s) = [r] \<and> rr_status r = StatusProcessed
    \<and> normalized_events (s_db s) = [f] \<and> nr_raw_event_id f = rr_id r \<and> entities (s_db s) \<noteq> []
    \<and> sys_step demo_unicode demo_pg s s'
    \<and> s_db s' = (s_db s)\<lparr>raw_events := [r']\<rparr> \<and> rr_id r' = rr_id r \<and> rr_status r' = StatusFailed"
proof -
  obtain s r f where reach: "sys_reach demo_unicode demo_pg (one_row late_queue 1000000000 late_row2 late_pcs) s"
    and s: "raw_events (s_db s) = [r]" "rr_id r = rr_id late_row2" "rr_status r = StatusProcessed"
      "normalized_events (s_db s) = [f]" "nr_raw_event_id f = rr_id late_row2" "entities (s_db s) \<noteq> []"
    and pc: "s_pc s 0 = Handling (job_of late_row)" using second_settles by blast
  let ?p = "demo_processor\<lparr>p_llm := \<lambda>_. Inl (APIError 400 False ''too late'')\<rparr>"
  let ?err = "Permanentf ''llm: '' (APIError 400 False ''too late'')"
  let ?s4 = "s\<lparr>s_pc := (s_pc s)(0 := Answering (job_of late_row) (Inl ?err))\<rparr>"
  let ?r5 = "dead_letter (Error ?err) r"
  let ?s5 = "?s4\<lparr>s_db := (s_db ?s4)\<lparr>raw_events := [?r5]\<rparr>, s_pc := (s_pc ?s4)(0 := Idle)\<rparr>"
  have id: "rr_id r = rr_id late_row" by (simp add: s(2) late_row2_def late_rows(1,4))
  have "verdict demo_unicode ?p (job_of late_row) = Inl ?err" by (simp add: verdict_def)
  from reject [OF pc this, of demo_pg] have "sys_reach demo_unicode demo_pg (sys_init default_config 10) ?s4"
    by (rule sys_next [OF sys_reach_trans [OF reach both_hold]])
  moreover have "sys_step demo_unicode demo_pg ?s4 ?s5"
    by (rule fail_one [where job = "job_of late_row"]) (simp_all add: s(1) id IsPermanent_def Permanentf_def)
  ultimately show ?thesis
    by (intro exI [where x = ?s4] exI [where x = ?s5] exI [where x = r] exI [where x = ?r5] exI [where x = f])
      (use s in \<open>simp add: dead_letter_def\<close>)
qed

end
