(* ===== verification/Runs.thy ===== *)
theory Runs
  imports System
begin

text \<open>
  The loop of a worker, as theory \<open>Worker\<close> has it, is one of the behaviours of the interleaved system: every turn,
  with whatever faults it meets, is a path of steps of one worker. What is shown of all states the system
  can reach therefore holds after any number of turns.
\<close>

text \<open>The times of a turn: the claim, the handler's statements, the answer.\<close>

definition timely :: "turn_env \<Rightarrow> bool" where
  "timely env \<longleftrightarrow> t_now env \<le> h_now (t_handle env) \<and> h_now (t_handle env) \<le> t_later env"

lemma tick_to: "s_now s \<le> t \<Longrightarrow> sys_reach U P s (s\<lparr>s_now := t\<rparr>)"
  by (rule sys_reach_step) (rule tick)

text \<open>A claimed job is handled and answered.\<close>

lemma job_runs:
  assumes pc: "s_pc s w = Handling job" and now: "s_now s \<le> h_now (t_handle env)" "h_now (t_handle env) \<le> t_later env"
    and d: "pg_dispatch U P p (cfg (s_q s)) env job (s_db s) = Some d'"
  shows "sys_reach U P s (s\<lparr>s_now := t_later env, s_db := d', s_pc := (s_pc s)(w := Idle)\<rparr>)"
proof -
  obtain out d1 where h: "Handle U P p (t_handle env) job (s_db s) = (out, d1)" by fastforce
  let ?s1 = "s\<lparr>s_now := h_now (t_handle env)\<rparr>"
  let ?s2 = "?s1\<lparr>s_db := d1, s_pc := (s_pc ?s1)(w := Answering job out)\<rparr>"
  let ?s3 = "?s2\<lparr>s_now := t_later env\<rparr>"
  have "sys_reach U P s ?s1" using now(1) by (rule tick_to)
  moreover have "sys_reach U P ?s1 ?s2" by (rule handler_runs [where env = "t_handle env"]) (use pc h in simp_all)
  moreover have "sys_reach U P ?s2 ?s3" by (rule tick_to) (use now(2) in simp)
  moreover have "answer P (cfg (s_q s)) (t_answer env) (t_later env) (t_pick env) job out d1 = Some d'"
    using d h by (simp add: answer_def pg_dispatch_def dispatch_def)
  then have "sys_step U P ?s3 (?s3\<lparr>s_db := d', s_pc := (s_pc ?s3)(w := Idle)\<rparr>)"
    by (intro answered [where job = job and out = out]) simp_all
  ultimately have "sys_reach U P s (?s3\<lparr>s_db := d', s_pc := (s_pc ?s3)(w := Idle)\<rparr>)"
    by (meson sys_next sys_reach_trans)
  then show ?thesis by simp
qed

lemma turn_runs:
  assumes idle: "s_pc s w = Idle" and now: "s_now s \<le> t_now env" "timely env"
    and turn: "pg_turn U P p env (s_q s, s_db s) = Some (l, q', d')"
  shows "\<exists>t \<le> t_later env. sys_reach U P s (s\<lparr>s_now := t, s_q := q', s_db := d'\<rparr>)"
proof -
  let ?s1 = "s\<lparr>s_now := t_now env\<rparr>"
  have 1: "sys_reach U P s ?s1" using now(1) by (rule tick_to)
  obtain res q1 d1 where c: "Queue_Claim P (t_claim env) (t_now env) (t_locked env) (t_wake env) (s_q s) (s_db s) = (res, q1, d1)"
    by (metis prod_cases3)
  show ?thesis
  proof (cases "\<exists>job. res = Inr (Some job)")
    case True
    then obtain job where res: "res = Inr (Some job)" by blast
    let ?s2 = "?s1\<lparr>s_q := q1, s_db := d1, s_pc := (s_pc ?s1)(w := Handling job)\<rparr>"
    have "sys_step U P ?s1 ?s2" by (rule claim [where f = "t_claim env" and locked = "t_locked env" and wk = "t_wake env"])
        (use idle c res in simp_all)
    with 1 have 2: "sys_reach U P s ?s2" by (rule sys_next)
    have d: "pg_dispatch U P p (cfg q1) env job d1 = Some d'" "q' = q1"
      using turn c res by (auto simp: pg_turn_def worker_turn_def)
    then have "sys_reach U P ?s2 (?s2\<lparr>s_now := t_later env, s_db := d', s_pc := (s_pc ?s2)(w := Idle)\<rparr>)"
      by (intro job_runs) (use now(2) in \<open>simp_all add: timely_def\<close>)
    with 2 have "sys_reach U P s (?s2\<lparr>s_now := t_later env, s_db := d', s_pc := (s_pc ?s2)(w := Idle)\<rparr>)"
      by (meson sys_reach_trans)
    moreover have "?s2\<lparr>s_now := t_later env, s_db := d', s_pc := (s_pc ?s2)(w := Idle)\<rparr> = s\<lparr>s_now := t_later env, s_q := q', s_db := d'\<rparr>"
      using idle d(2) by (cases s) (simp add: fun_upd_idem)
    ultimately show ?thesis by auto
  next
    case False
    then have "res = Inr None \<or> isl res" by (cases res) (auto simp: not_None_eq)
    moreover have "q' = q1" "d' = d1"
      using turn c False by (auto simp: pg_turn_def worker_turn_def split: sum.splits option.splits if_splits)
    ultimately have "sys_step U P ?s1 (?s1\<lparr>s_q := q', s_db := d'\<rparr>)"
      by (intro no_claim [where w = w and f = "t_claim env" and locked = "t_locked env" and wk = "t_wake env" and res = res])
        (use idle c in simp_all)
    with 1 have "sys_reach U P s (?s1\<lparr>s_q := q', s_db := d'\<rparr>)" by (rule sys_next)
    with now(2) show ?thesis by (intro exI [of _ "t_now env"]) (simp add: timely_def)
  qed
qed

lemma worker_runs:
  assumes "s_pc s w = Idle" and "\<forall>e \<in> set envs. timely e \<and> s_now s \<le> t_now e" and "sorted_wrt (\<lambda>a b. t_later a \<le> t_now b) envs"
    and "worker U P p envs (s_q s, s_db s) = Some (l, q', d')"
  shows "\<exists>t. sys_reach U P s (s\<lparr>s_now := t, s_q := q', s_db := d'\<rparr>)"
  using assms
proof (induction envs arbitrary: s)
  case Nil
  then have "s\<lparr>s_now := s_now s, s_q := q', s_db := d'\<rparr> = s" by auto
  then show ?case using sys_refl [of U P s] by metis
next
  case (Cons e envs)
  obtain l1 q1 d1 where turn: "pg_turn U P p e (s_q s, s_db s) = Some (l1, q1, d1)"
    using Cons.prems(4) by (auto split: option.splits)
  then obtain t where t: "t \<le> t_later e" "sys_reach U P s (s\<lparr>s_now := t, s_q := q1, s_db := d1\<rparr>)" (is "sys_reach U P s ?s1")
    using turn_runs [OF Cons.prems(1) _ _ turn] Cons.prems(2) by auto
  show ?case
  proof (cases l1)
    case Return
    with turn Cons.prems(4) t(2) show ?thesis by auto
  next
    case Continue
    with turn Cons.prems(4) have "worker U P p envs (s_q ?s1, s_db ?s1) = Some (l, q', d')" by simp
    moreover have "\<forall>e' \<in> set envs. timely e' \<and> s_now ?s1 \<le> t_now e'" using Cons.prems(2,3) t(1) by auto
    ultimately obtain u where "sys_reach U P ?s1 (?s1\<lparr>s_now := u, s_q := q', s_db := d'\<rparr>)"
      using Cons.IH [of ?s1] Cons.prems(1,3) by auto
    from sys_reach_trans [OF this t(2)] show ?thesis by auto
  qed
qed

lemma reach_cfg: "sys_reach U P (sys_init c t) s \<Longrightarrow> cfg (s_q s) = cfg (NewPostgres c)"
proof (induction rule: sys_reach.induct)
  case sys_refl
  then show ?case by (simp add: sys_init_def)
next
  case (sys_next s s')
  have r: "cfg q' = cfg (s_q s)" if "Routes U P env r (s_q s, s_db s) = (rp, q', d')" for env r rp q' d'
    using that Routes_other [OF _ that]
    by (cases "rq_method r = ''POST'' \<and> rq_path r = [''webhooks'']")
      (auto simp: Routes_webhooks ingest_def Notify_def split: option.splits if_splits prod.splits sum.splits)
  have q: "cfg q' = cfg (s_q s)" if "Queue_Claim P f now locked wk (s_q s) (s_db s) = (res, q', d')" for f now locked wk res q' d'
    using that by (auto simp: Queue_Claim_def split: prod.splits sum.splits option.splits wake.splits)
  from sys_next(2,3) show ?case by (cases rule: sys_step.cases) (auto dest: r q)
qed

subsection \<open>The property\<close>

text \<open>
  C18: the loop of a worker is a behaviour of the system. Where a worker of a reachable state is idle, every run of its
  loop, however many turns it takes and whatever faults, answers of the model and
  cancellations they meet, ends with a queue and a database of a reachable state, in which the other
  workers are where they were. So no turn of the loop leaves the states about which the invariants speak.
\<close>

theorem worker_loop_is_a_run:
  assumes "sys_reach U P (sys_init c t) s" and "s_pc s w = Idle" and "\<forall>e \<in> set envs. timely e \<and> s_now s \<le> t_now e"
    and "sorted_wrt (\<lambda>a b. t_later a \<le> t_now b) envs" and "worker U P p envs (s_q s, s_db s) = Some (l, q', d')"
  shows "\<exists>s'. sys_reach U P (sys_init c t) s' \<and> s_q s' = q' \<and> s_db s' = d' \<and> s_pc s' = s_pc s"
proof -
  obtain u where "sys_reach U P s (s\<lparr>s_now := u, s_q := q', s_db := d'\<rparr>)"
    using worker_runs [OF assms(2-5)] by blast
  from sys_reach_trans [OF this assms(1)] show ?thesis by (intro exI [of _ "s\<lparr>s_now := u, s_q := q', s_db := d'\<rparr>"]) simp
qed

text \<open>A claim that fails, and then a turn in which the answer is lost.\<close>

definition demo_turns :: "turn_env list" where
  "demo_turns = [(clean_env 20)\<lparr>t_claim := FaultBefore ''refused''\<rparr>, (clean_env 30)\<lparr>t_answer := FaultAfter ''reset''\<rparr>]"

theorem worker_loop_is_a_run_witness:
  "\<exists>l q' d' s'. worker demo_unicode demo_pg demo_processor demo_turns (s_q demo_sys, s_db demo_sys) = Some (l, q', d')
    \<and> sys_reach demo_unicode demo_pg (sys_init default_config 10) s' \<and> s_db s' = d'"
proof -
  have pc: "s_pc demo_sys 0 = Idle" and now: "s_now demo_sys = 10" by (simp_all add: demo_sys_def sys_init_def)
  have env: "\<forall>e \<in> set demo_turns. timely e \<and> s_now demo_sys \<le> t_now e" "sorted_wrt (\<lambda>a b. t_later a \<le> t_now b) demo_turns"
    by (auto simp: demo_turns_def timely_def clean_env_def no_faults_def now)
  have "pg_dispatch demo_unicode demo_pg demo_processor (cfg (NewPostgres default_config)) env
      \<lparr>j_ID = i, j_Payload = b, j_Attempts = 1\<rparr> d \<noteq> None" for env i b d
    using pg_dispatch_total [of "\<lparr>j_ID = i, j_Payload = b, j_Attempts = 1\<rparr>" demo_unicode demo_pg demo_processor default_config env d]
    by fastforce
  then have "worker demo_unicode demo_pg demo_processor demo_turns (s_q demo_sys, s_db demo_sys) \<noteq> None"
    by (auto simp: demo_turns_def demo_sys_def clean_env_def pg_turn_def worker_turn_def Queue_Claim_def Store_Claim_def claim_stmt_def
        new_raw_def claimable_def Notify_def simp del: not_None_eq split: option.split)
  then obtain l q' d' where w: "worker demo_unicode demo_pg demo_processor demo_turns (s_q demo_sys, s_db demo_sys) = Some (l, q', d')"
    by (metis not_None_eq prod_cases3)
  from worker_loop_is_a_run [OF demo_sys_reach pc env w] w show ?thesis by blast
qed

end
