(* ===== verification/Pristine.thy ===== *)
theory Pristine
  imports System
begin

text \<open>
  A row that is still pending has not been touched: no delivery was counted, no error or lease was written and
  no fact is stored for it. This holds in every state of the system, because a worker only works on a job
  whose row it, or another worker before it, has claimed, and no statement makes a row pending again.
\<close>

definition pristine :: "db \<Rightarrow> bool" where
  "pristine d \<longleftrightarrow> (\<forall>r \<in> set (raw_events d). rr_status r = StatusPending \<longrightarrow>
     rr_attempts r = 0 \<and> rr_error r = None \<and> rr_lease_until r = None \<and> \<not> has_fact d (rr_id r))"

definition started :: "db \<Rightarrow> string \<Rightarrow> bool" where
  "started d eid \<longleftrightarrow> (\<exists>r \<in> set (raw_events d). rr_id r = eid \<and> rr_status r \<noteq> StatusPending)"

fun pc_job :: "pc \<Rightarrow> Job option" where
  "pc_job Idle = None"
| "pc_job (Handling job) = Some job"
| "pc_job (Persisting job res n) = Some job"
| "pc_job (Projecting job n) = Some job"
| "pc_job (Answering job out) = Some job"

text \<open>A step of the database that starts what it touches.\<close>

definition starts :: "db \<Rightarrow> db \<Rightarrow> bool" where
  "starts d d' \<longleftrightarrow> pristine d' \<and> (\<forall>eid. started d eid \<longrightarrow> started d' eid)"

lemma starts_refl [simp]: "starts d d \<longleftrightarrow> pristine d"
  by (simp add: starts_def)

lemma starts_db_call: "pristine d \<Longrightarrow> starts d (snd (f d)) \<Longrightarrow> starts d (snd (db_call flt f mk d))"
  using db_call_state [of flt f mk d] by auto

lemma started_row:
  assumes "db_ok d" and "started d (rr_id r)" and "r \<in> set (raw_events d)"
  shows "rr_status r \<noteq> StatusPending"
  using assms unique_onD [of rr_id "raw_events d"] by (auto simp: started_def db_ok_def)

lemma starts_update:
  assumes "pristine d" and "\<And>r. r \<in> set (raw_events d) \<Longrightarrow> rr_id r = eid \<Longrightarrow> rr_status (f r) \<noteq> StatusPending"
    and "\<And>r. rr_id (f r) = rr_id r"
  shows "starts d (d\<lparr>raw_events := update_where (\<lambda>r. rr_id r = eid) f (raw_events d)\<rparr>)"
proof -
  have "pristine (d\<lparr>raw_events := update_where (\<lambda>r. rr_id r = eid) f (raw_events d)\<rparr>)"
    using assms(1,2) by (auto simp: pristine_def set_update_where has_fact_def)
  moreover have "started (d\<lparr>raw_events := update_where (\<lambda>r. rr_id r = eid) f (raw_events d)\<rparr>) e" if "started d e" for e
  proof -
    obtain r where r: "r \<in> set (raw_events d)" "rr_id r = e" "rr_status r \<noteq> StatusPending"
      using \<open>started d e\<close> by (auto simp: started_def)
    then show ?thesis
      using assms(2) [of r] assms(3) [of r] unfolding started_def
      by (intro bexI [of _ "if rr_id r = eid then f r else r"]) (auto simp: set_update_where)
  qed
  ultimately show ?thesis by (simp add: starts_def)
qed

lemma starts_insert: "db_ok d \<Longrightarrow> pristine d \<Longrightarrow> starts d (snd (InsertRaw P f1 f2 now nid h body src d))"
  unfolding InsertRaw_state
proof (rule starts_db_call)
  assume ok: "db_ok d" and p: "pristine d"
  have "\<not> has_fact d nid" if "nid \<notin> rr_id ` set (raw_events d)"
    using ok that by (auto simp: has_fact_def db_ok_def)
  with p show "starts d (snd (insert_raw_stmt P now nid h body src d))"
    by (auto simp: insert_raw_stmt_def starts_def pristine_def started_def new_raw_def has_fact_def)
qed

lemma starts_claim: "pristine d \<Longrightarrow> starts d (snd (Store_Claim P f now lease locked d))"
  unfolding Store_Claim_state
  by (rule starts_db_call) (auto simp: claim_stmt_def claimed_def intro!: starts_update split: option.splits)

lemma claim_started:
  assumes "Queue_Claim P f now locked w q d = (Inr (Some job), q', d')"
  shows "started d' (j_ID job)"
proof -
  obtain raw where c: "Store_Claim P f now (sint (Lease (cfg q))) locked d = (Inr (Some raw), d')" "j_ID job = re_ID raw"
    using assms by (auto simp: Queue_Claim_def split: prod.splits sum.splits option.splits wake.splits)
  from c(1) show ?thesis
  proof (rule Store_Claim_ok)
    fix r
    assume f: "first_by rr_received_at (filter (\<lambda>r. claimable now r \<and> rr_id r \<notin> set locked) (raw_events d)) = Some r"
      and e: "raw = \<lparr>re_ID = rr_id r, re_Payload = rr_raw_payload r, re_Attempts = rr_attempts r + 1\<rparr>"
      and d: "d' = d\<lparr>raw_events := update_where (\<lambda>r'. rr_id r' = rr_id r) (claimed P now (sint (Lease (cfg q)))) (raw_events d)\<rparr>"
    from f have "r \<in> set (raw_events d)" by (auto dest: first_by_SomeD)
    then show ?thesis unfolding started_def d using c(2) e
      by (intro bexI [of _ "claimed P now (sint (Lease (cfg q))) r"]) (auto simp: set_update_where claimed_def intro!: image_eqI [of _ _ r])
  qed
qed

lemma starts_answer:
  assumes "answer P c f now pick job out d = Some d'" and "db_ok d" and "pristine d" and "started d (j_ID job)"
  shows "starts d d'"
  using assms(1)
proof (rule answer_state)
  have np: "rr_status r \<noteq> StatusPending" if "r \<in> set (raw_events d)" "rr_id r = j_ID job" for r
    using started_row [OF assms(2) _ that(1)] assms(4) that(2) by simp
  show "starts d d'" if "d' = snd (Ack f (j_ID job) d)"
    unfolding that Ack_def MarkProcessed_def using assms(3)
    by (intro starts_db_call) (auto simp: update_raw_def intro: starts_update)
  show "starts d d'" if "d' = snd (Queue_Fail f (j_ID job) reason d)" for reason
    unfolding that Queue_Fail_def Store_Fail_def using assms(3)
    by (intro starts_db_call) (auto simp: update_raw_def dead_letter_def intro: starts_update)
  show "starts d d'" if "d' = snd (RetryOrFail P f now (j_ID job) (j_Attempts job) (MaxAttempts c) b reason d)" for b reason
    unfolding that RetryOrFail_def using assms(3) np
    by (auto simp: update_raw_def dead_letter_def intro!: starts_db_call starts_update)
qed

lemma starts_persist:
  assumes "db_ok d" and "pristine d" and "started d (j_ID job)"
  shows "starts d (snd (persist P env job res n d))"
  unfolding persist_def InsertNormalized_def
proof (rule starts_db_call [OF assms(2)])
  have "rr_id r \<noteq> j_ID job" if "r \<in> set (raw_events d)" "rr_status r = StatusPending" for r
    using started_row [OF assms(1) _ that(1)] assms(3) that(2) by auto
  then show "starts d (snd (insert_normalized_stmt (new_norm P (h_now env) (j_ID job) n (res_Model res) (res_PromptVer res)) d))"
    using assms(2) by (auto simp: insert_normalized_stmt_def starts_def pristine_def started_def has_fact_def new_norm_def)
qed

lemma starts_project: "pristine d \<Longrightarrow> starts d (snd (project P env n d))"
  by (simp add: starts_def pristine_def started_def has_fact_def)

definition calm :: "sys \<Rightarrow> bool" where
  "calm s \<longleftrightarrow> pristine (s_db s) \<and> (\<forall>w job. pc_job (s_pc s w) = Some job \<longrightarrow> started (s_db s) (j_ID job))"

lemma calm_job: "calm s \<Longrightarrow> pc_job (s_pc s w) = Some job \<Longrightarrow> started (s_db s) (j_ID job)"
  by (auto simp: calm_def)

lemma calm_step:
  assumes "sys_step U P s s'" and "db_ok (s_db s)" and "calm s"
  shows "calm s'"
  using assms
proof (induction rule: sys_step.induct)
  case (request env s r rp q' d')
  from request.hyps(2) have "starts (s_db s) d'"
    by (rule Routes_state) (use request.prems in \<open>auto simp: starts_insert calm_def\<close>)
  with request.prems(2) show ?case by (auto simp: calm_def starts_def)
next
  case (claim s w f locked wk job q' d')
  have "starts (s_db s) d'"
    using claim Queue_Claim_state [of P f "s_now s" locked wk "s_q s" "s_db s"] starts_claim by (auto simp: calm_def)
  with claim.prems(2) claim_started [OF claim.hyps(2)] show ?case by (auto simp: calm_def starts_def)
next
  case (no_claim s w f locked wk res q' d')
  have "starts (s_db s) d'"
    using no_claim Queue_Claim_state [of P f "s_now s" locked wk "s_q s" "s_db s"] starts_claim by (auto simp: calm_def)
  with no_claim.prems(2) show ?case by (auto simp: calm_def starts_def)
next
  case (reject s w job p err)
  with calm_job [of s w job] show ?case by (auto simp: calm_def)
next
  case (accept s w job p res n)
  with calm_job [of s w job] show ?case by (auto simp: calm_def)
next
  case (persist_ok s w job res n env d')
  then have "starts (s_db s) d'" "started (s_db s) (j_ID job)"
    using starts_persist [of "s_db s" job P env res n] calm_job [of s w job] by (auto simp: calm_def)
  with persist_ok.prems(2) show ?case by (auto simp: calm_def starts_def)
next
  case (persist_err s w job res n env err d')
  then have "starts (s_db s) d'" "started (s_db s) (j_ID job)"
    using starts_persist [of "s_db s" job P env res n] calm_job [of s w job] by (auto simp: calm_def)
  with persist_err.prems(2) show ?case by (auto simp: calm_def starts_def)
next
  case (project_ok s w job n env d')
  then have "starts (s_db s) d'" "started (s_db s) (j_ID job)"
    using starts_project [of "s_db s" P env n] calm_job [of s w job] by (auto simp: calm_def)
  with project_ok.prems(2) show ?case by (auto simp: calm_def starts_def)
next
  case (project_err s w job n env err d')
  then have "starts (s_db s) d'" "started (s_db s) (j_ID job)"
    using starts_project [of "s_db s" P env n] calm_job [of s w job] by (auto simp: calm_def)
  with project_err.prems(2) show ?case by (auto simp: calm_def starts_def)
next
  case (answered s w job out f pick d')
  then have "starts (s_db s) d'"
    using calm_job [of s w job] by (intro starts_answer [OF answered.hyps(2)]) (auto simp: calm_def)
  with answered.prems(2) show ?case by (auto simp: calm_def starts_def)
qed (auto simp: calm_def split: if_splits)

lemma reach_calm:
  assumes "sys_reach U P (sys_init c t) s" and "unicode_ok U"
  shows "calm s"
  using assms(1)
proof (induction rule: sys_reach.induct)
  case sys_refl
  then show ?case by (simp add: calm_def pristine_def sys_init_def empty_db_def)
next
  case (sys_next s s')
  with reachable_inv [OF _ assms(2)] calm_step show ?case by (auto simp: db_inv_def)
qed

end
