(* ===== verification/Wire.thy ===== *)
theory Wire
  imports Ingest
begin

text \<open>
  What a client of the HTTP boundary receives: the calls the handlers make on a \<open>ResponseWriter\<close>, the server's
  own writer, and the recorder that \<open>withLogging\<close> puts around it at debug level. A handler's answer, the status and
  value of theory \<open>Ingest\<close>, becomes calls by \<open>respond\<close>. The writers meet the locale \<open>response_writer\<close>, in which it is shown
  once that wrapping a writer does not change what reaches the client.
\<close>

subsection \<open>Writers\<close>

text \<open>The methods of \<open>http.ResponseWriter\<close>; \<open>Header().Set\<close> is one call.\<close>

record 'w ResponseWriter =
  rw_Set :: "string \<Rightarrow> string \<Rightarrow> 'w \<Rightarrow> 'w"
  rw_WriteHeader :: "nat \<Rightarrow> 'w \<Rightarrow> 'w"
  rw_Write :: "bytes \<Rightarrow> 'w \<Rightarrow> 'w"

text \<open>
  The server's writer: the header map, the status and headers once they are sent, and the body.
  The first status counts and a write without one sends 200; the answer to \<open>HEAD\<close> has no body.
\<close>

record conn =
  c_head :: bool
  c_header :: "(string \<times> string) list"
  c_sent :: "(nat \<times> (string \<times> string) list) option"
  c_body :: bytes

definition Set :: "string \<Rightarrow> string \<Rightarrow> conn \<Rightarrow> conn" where
  "Set k v c = c\<lparr>c_header := map_set k v (c_header c)\<rparr>"

definition WriteHeader :: "nat \<Rightarrow> conn \<Rightarrow> conn" where
  "WriteHeader code c = (if c_sent c = None then c\<lparr>c_sent := Some (code, c_header c)\<rparr> else c)"

definition Write :: "bytes \<Rightarrow> conn \<Rightarrow> conn" where
  "Write b c =
     (let c' = WriteHeader StatusOK c in if c_head c' then c' else c'\<lparr>c_body := c_body c' @ b\<rparr>)"

definition conn_writer :: "conn ResponseWriter" where
  "conn_writer = \<lparr>rw_Set = Set, rw_WriteHeader = WriteHeader, rw_Write = Write\<rparr>"

definition fresh :: "string \<Rightarrow> conn" where
  "fresh method = \<lparr>c_head = (method = ''HEAD''), c_header = [], c_sent = None, c_body = []\<rparr>"

text \<open>\<open>responseRecorder\<close> around a writer: the embedded writer, the status, the buffer.\<close>

record 'w responseRecorder =
  rec_ResponseWriter :: 'w
  rec_status :: nat
  rec_body :: bytes

definition recorder_WriteHeader :: "'w ResponseWriter \<Rightarrow> nat \<Rightarrow> 'w responseRecorder \<Rightarrow> 'w responseRecorder" where
  "recorder_WriteHeader W code r =
     (let r' = r\<lparr>rec_status := code\<rparr> in
      r'\<lparr>rec_ResponseWriter := rw_WriteHeader W code (rec_ResponseWriter r')\<rparr>)"

definition recorder_Write :: "'w ResponseWriter \<Rightarrow> bytes \<Rightarrow> 'w responseRecorder \<Rightarrow> 'w responseRecorder" where
  "recorder_Write W b r =
     (let r' = r\<lparr>rec_body := rec_body r @ b\<rparr> in
      r'\<lparr>rec_ResponseWriter := rw_Write W b (rec_ResponseWriter r')\<rparr>)"

definition recorder :: "'w ResponseWriter \<Rightarrow> 'w responseRecorder ResponseWriter" where
  "recorder W = \<lparr>rw_Set = (\<lambda>k v r. r\<lparr>rec_ResponseWriter := rw_Set W k v (rec_ResponseWriter r)\<rparr>),
     rw_WriteHeader = recorder_WriteHeader W, rw_Write = recorder_Write W\<rparr>"

subsection \<open>Answers\<close>

text \<open>\<open>json.NewEncoder(w).Encode(v)\<close>: the text and a newline in one write, and nothing where the value is refused.\<close>

definition Encode :: "zone \<Rightarrow> 'w ResponseWriter \<Rightarrow> json \<Rightarrow> 'w \<Rightarrow> 'w" where
  "Encode Z W v w = (case Marshal Z v of None \<Rightarrow> w | Some s \<Rightarrow> rw_Write W (s @ [CHR 0x0A]) w)"

definition writeJSON_to :: "zone \<Rightarrow> 'w ResponseWriter \<Rightarrow> nat \<Rightarrow> json \<Rightarrow> 'w \<Rightarrow> 'w" where
  "writeJSON_to Z W status v w =
     Encode Z W v (rw_WriteHeader W status (rw_Set W ''Content-Type'' ''application/json'' w))"

text \<open>The library's own answers of the mux, written by \<open>http.Error\<close>.\<close>

definition http_Error :: "'w ResponseWriter \<Rightarrow> string \<Rightarrow> nat \<Rightarrow> 'w \<Rightarrow> 'w" where
  "http_Error W msg code w =
     rw_Write W (msg @ [CHR 0x0A]) (rw_WriteHeader W code
       (rw_Set W ''X-Content-Type-Options'' ''nosniff'' (rw_Set W ''Content-Type'' ''text/plain; charset=utf-8'' w)))"

definition mux_text :: "nat \<Rightarrow> string" where
  "mux_text code = (if code = StatusNotFound then ''404 page not found'' else ''Method Not Allowed'')"

definition respond :: "zone \<Rightarrow> 'w ResponseWriter \<Rightarrow> response \<Rightarrow> 'w \<Rightarrow> 'w" where
  "respond Z W rp w =
     (case rp_body rp of
        Some v \<Rightarrow> writeJSON_to Z W (rp_status rp) v w
      | None \<Rightarrow> http_Error W (mux_text (rp_status rp)) (rp_status rp) w)"

text \<open>The handler that \<open>Routes\<close> returns, on a connection. At debug level one entry is logged.\<close>

record log_entry =
  le_method :: string
  le_path :: "string list"
  le_status :: nat
  le_request :: bytes
  le_response :: bytes

definition ServeHTTP ::
  "zone \<Rightarrow> unicode \<Rightarrow> pg \<Rightarrow> api_env \<Rightarrow> request \<Rightarrow> conn \<Rightarrow> Postgres \<times> db \<Rightarrow> (conn \<times> log_entry list) \<times> Postgres \<times> db" where
  "ServeHTTP Z U P env r c s =
     (if \<not> a_debug env then
        (case mux U P env r s of (rp, s') \<Rightarrow> ((respond Z conn_writer rp c, []), s'))
      else
        (let reqBody = take maxBodyBytes (rq_body r);
             r' = r\<lparr>rq_body := reqBody, rq_body_err := False\<rparr>;
             rec = \<lparr>rec_ResponseWriter = c, rec_status = StatusOK, rec_body = []\<rparr>
         in case mux U P env r' s of (rp, s') \<Rightarrow>
              (let rec' = respond Z (recorder conn_writer) rp rec in
               ((rec_ResponseWriter rec',
                 [\<lparr>le_method = rq_method r, le_path = rq_path r, le_status = rec_status rec',
                   le_request = reqBody, le_response = rec_body rec'\<rparr>]), s'))))"

subsection \<open>Wrapping a writer\<close>

text \<open>
  \<open>W\<close> is a writer that hands every call on to the writer \<open>V\<close> it wraps, seen through \<open>under\<close>. What an
  answer does to the wrapped writer is then what it does to \<open>V\<close> alone.
\<close>

locale response_writer =
  fixes W :: "'w ResponseWriter" and V :: "'v ResponseWriter" and under :: "'w \<Rightarrow> 'v"
  assumes under_Set: "under (rw_Set W k x w) = rw_Set V k x (under w)"
    and under_WriteHeader: "under (rw_WriteHeader W code w) = rw_WriteHeader V code (under w)"
    and under_Write: "under (rw_Write W b w) = rw_Write V b (under w)"
begin

lemma under_Encode: "under (Encode Z W v w) = Encode Z V v (under w)"
  by (simp add: Encode_def under_Write split: option.split)

lemma under_respond: "under (respond Z W rp w) = respond Z V rp (under w)"
  by (simp add: respond_def writeJSON_to_def http_Error_def under_Encode under_Set under_WriteHeader under_Write
      split: option.split)

end

text \<open>A writer that also remembers the status and the bytes it was given.\<close>

locale capturing_writer = response_writer +
  fixes code :: "'a \<Rightarrow> nat" and captured :: "'a \<Rightarrow> bytes"
  assumes code_calls: "code (rw_Set W k x w) = code w" "code (rw_WriteHeader W n w) = n" "code (rw_Write W b w) = code w"
    and captured_calls: "captured (rw_Set W k x w) = captured w" "captured (rw_WriteHeader W n w) = captured w"
      "captured (rw_Write W b w) = captured w @ b"
begin

lemma captured_respond:
  "code (respond Z W rp w) = rp_status rp \<and>
   captured (respond Z W rp w) = captured w @
     (case rp_body rp of
        Some v \<Rightarrow> (case Marshal Z v of None \<Rightarrow> [] | Some s \<Rightarrow> s @ [CHR 0x0A])
      | None \<Rightarrow> mux_text (rp_status rp) @ [CHR 0x0A])"
  by (simp add: respond_def writeJSON_to_def http_Error_def Encode_def code_calls captured_calls split: option.split)

end

interpretation rec: capturing_writer "recorder W" W rec_ResponseWriter rec_status rec_body for W
  by unfold_locales (simp_all add: recorder_def recorder_WriteHeader_def recorder_Write_def)

lemma respond_fresh:
  "respond Z conn_writer rp (fresh m) =
     (let hs = (if rp_body rp = None then [(''Content-Type'', ''text/plain; charset=utf-8''), (''X-Content-Type-Options'', ''nosniff'')]
                else [(''Content-Type'', ''application/json'')]) in
      \<lparr>c_head = (m = ''HEAD''), c_header = hs, c_sent = Some (rp_status rp, hs),
       c_body = (if m = ''HEAD'' then []
                 else case rp_body rp of
                     Some v \<Rightarrow> (case Marshal Z v of None \<Rightarrow> [] | Some s \<Rightarrow> s @ [CHR 0x0A])
                   | None \<Rightarrow> mux_text (rp_status rp) @ [CHR 0x0A])\<rparr>)"
  by (auto simp: respond_def writeJSON_to_def http_Error_def Encode_def conn_writer_def fresh_def Set_def WriteHeader_def
      Write_def Let_def split: option.split)

lemma mux_debug: "mux U P (env\<lparr>a_debug := b\<rparr>) r = mux U P env r"
proof -
  have "a_fault1 (env\<lparr>a_debug := b\<rparr>) = a_fault1 env" "a_fault2 (env\<lparr>a_debug := b\<rparr>) = a_fault2 env"
    "a_now (env\<lparr>a_debug := b\<rparr>) = a_now env" "a_new_id (env\<lparr>a_debug := b\<rparr>) = a_new_id env" by simp_all
  then show ?thesis by (simp only: mux_def)
qed

lemma ServeHTTP_Routes:
  assumes "Routes U P env r s = (rp, s')"
  shows "fst (fst (ServeHTTP Z U P env r c s)) = respond Z conn_writer rp c" and "snd (ServeHTTP Z U P env r c s) = s'"
proof -
  have "mux U P env (withLogging (a_debug env) r) s = (rp, s')" using assms by (simp add: Routes_def)
  then show "fst (fst (ServeHTTP Z U P env r c s)) = respond Z conn_writer rp c" "snd (ServeHTTP Z U P env r c s) = s'"
    by (auto simp: ServeHTTP_def withLogging_def Let_def rec.under_respond split: if_splits)
qed

subsection \<open>Properties\<close>

text \<open>
  C24: the recorder is transparent and its log is true. For a request whose body is within the limit and read to its end,
  the answer a client gets, byte for byte, and the effects on the store and the queue are the
  same at debug level and above; the one entry logged names the request as it was received,
  the status that was sent and, except for \<open>HEAD\<close>, exactly the bytes of the answer.
\<close>

theorem debug_log_is_true:
  assumes "length (rq_body r) \<le> maxBodyBytes" and "\<not> rq_body_err r"
    and "ServeHTTP Z U P (env\<lparr>a_debug := True\<rparr>) r (fresh (rq_method r)) s = ((c, logged), s')"
  shows "ServeHTTP Z U P (env\<lparr>a_debug := False\<rparr>) r (fresh (rq_method r)) s = ((c, []), s')
    \<and> (\<exists>e hs. logged = [e] \<and> le_method e = rq_method r \<and> le_path e = rq_path r \<and> le_request e = rq_body r
        \<and> c_sent c = Some (le_status e, hs) \<and> (rq_method r \<noteq> ''HEAD'' \<longrightarrow> le_response e = c_body c))"
proof -
  have r: "r\<lparr>rq_body_err := False\<rparr> = r" using assms(2) by (cases r) simp
  obtain rp s1 where m: "mux U P env r s = (rp, s1)" by (cases "mux U P env r s")
  let ?rec = "respond Z (recorder conn_writer) rp \<lparr>rec_ResponseWriter = fresh (rq_method r), rec_status = StatusOK, rec_body = []\<rparr>"
  have c: "c = respond Z conn_writer rp (fresh (rq_method r))" "s' = s1"
      "logged = [\<lparr>le_method = rq_method r, le_path = rq_path r, le_status = rec_status ?rec, le_request = rq_body r,
         le_response = rec_body ?rec\<rparr>]"
    using assms(3) by (simp_all add: ServeHTTP_def mux_debug Let_def assms(1) r m rec.under_respond)
  have "ServeHTTP Z U P (env\<lparr>a_debug := False\<rparr>) r (fresh (rq_method r)) s = ((c, []), s')"
    by (simp add: ServeHTTP_def mux_debug m c)
  moreover have "c_sent c = Some (rp_status rp, c_header c)" by (simp add: c respond_fresh Let_def)
  moreover have "rq_method r \<noteq> ''HEAD'' \<Longrightarrow> rec_body ?rec = c_body c"
    by (simp add: rec.captured_respond c respond_fresh Let_def)
  ultimately show ?thesis by (simp add: c(3) rec.captured_respond)
qed

theorem debug_log_is_true_witness:
  "\<exists>c e s'. ServeHTTP (\<lambda>_. 0) demo_unicode demo_pg (demo_api\<lparr>a_debug := True\<rparr>) demo_webhook (fresh ''POST'')
      (NewPostgres default_config, empty_db) = ((c, [e]), s') \<and> le_request e = ''{}'' \<and> le_response e = c_body c"
proof -
  obtain c logged s' where s: "ServeHTTP (\<lambda>_. 0) demo_unicode demo_pg (demo_api\<lparr>a_debug := True\<rparr>) demo_webhook
      (fresh (rq_method demo_webhook)) (NewPostgres default_config, empty_db) = ((c, logged), s')" by (metis prod.exhaust)
  from debug_log_is_true [OF _ _ s] s show ?thesis by (auto simp: demo_webhook_def maxBodyBytes_def)
qed

text \<open>What the values of answers are made of: the floats among them are those of stored facts.\<close>

definition float_ok :: "float64 \<Rightarrow> bool" where
  "float_ok x \<longleftrightarrow> (case x of Fin q \<Rightarrow> round_double q = Fin q | _ \<Rightarrow> True)"

definition facts_ok :: "db \<Rightarrow> bool" where
  "facts_ok d \<longleftrightarrow> list_all (\<lambda>n. float_ok (nr_confidence n)) (normalized_events d)"

text \<open>The values of answers are flat objects whose floats are those of the facts.\<close>

lemma event_value: "(\<And>x. ev_Confidence v = Some x \<Longrightarrow> float_ok x) \<Longrightarrow> doubles (event_json v) \<and> depth_le 10000 (event_json v)"
proof -
  assume a: "\<And>x. ev_Confidence v = Some x \<Longrightarrow> float_ok x"
  have "doubles (VFloat x)" if "ev_Confidence v = Some x" for x using a [OF that] by (cases x) (simp_all add: float_ok_def)
  then show ?thesis by (auto simp: event_json_def omitempty_def time_json_def split: option.split)
qed

lemma entity_value: "doubles (entity_json e) \<and> depth_le 10000 (entity_json e)"
  by (simp add: entity_json_def nullable_def time_json_def split: option.split)

lemma flat_value: "doubles (VObj [(k, VStr s)]) \<and> depth_le 10000 (VObj [(k, VStr s)])"
  "doubles (accepted_json eid isNew) \<and> depth_le 10000 (accepted_json eid isNew)"
  by (simp_all add: accepted_json_def)

lemma GetEvent_facts:
  assumes "GetEvent P f eid d = (Inr (Some ev), d')" and "facts_ok d" and "ev_Confidence ev = Some x"
  shows "float_ok x"
proof -
  obtain row where ev: "ev = event_view row (select_by nr_raw_event_id (rr_id row) (normalized_events d))"
    using assms(1) by (cases f) (auto simp: GetEvent_def get_event_stmt_def split: option.splits if_splits)
  with assms(3) obtain n where "select_by nr_raw_event_id (rr_id row) (normalized_events d) = Some n" "x = nr_confidence n"
    by (auto simp: event_view_def)
  then show ?thesis using assms(2) by (auto simp: facts_ok_def list_all_iff dest: select_by_SomeD)
qed

lemma mux_value:
  assumes "mux U P env r (q, d) = (rp, s')" and "facts_ok d" and "rp_body rp = Some v"
  shows "doubles v \<and> depth_le 10000 v"
proof -
  have ev: "doubles v \<and> depth_le 10000 v" if "getEvent (GetEvent P f) y d = (rp, d')" for f y d'
    using that assms(2,3) GetEvent_facts [OF _ assms(2)] event_value flat_value
    by (fastforce simp: getEvent_def writeError_def writeJSON_def split: if_splits prod.splits sum.splits option.splits)
  have en: "doubles v \<and> depth_le 10000 v" if "getEntity U (GetEntity f) y d = (rp, d')" for f y d'
    using that assms(3) entity_value flat_value
    by (fastforce simp: getEntity_def writeError_def writeJSON_def split: prod.splits sum.splits option.splits)
  have he: "doubles v \<and> depth_le 10000 v" if "health (Ping f) d = (rp, d')" for f d'
    using that assms(3) flat_value by (auto simp: health_def writeJSON_def split: prod.splits sum.splits)
  have ig: "doubles v \<and> depth_le 10000 v" if "ingest ins r (q, d) = (rp, s')" for ins
    using that assms(3) flat_value
    by (fastforce simp: ingest_def writeError_def writeJSON_def split: if_splits prod.splits sum.splits option.splits)
  show ?thesis using assms(1,3) ev en he ig
    by (fastforce simp: mux_def Let_def split: list.splits if_splits prod.splits)
qed

text \<open>
  What a client receives. Every answer to a request other than \<open>HEAD\<close> carries the status
  the handler chose. Where the handler answered with a value that can be printed, the body is
  valid JSON, is labelled so, and reads back as that value; where the value cannot be printed, the body
  is empty; where the library answered, it is its text.
\<close>

lemma answer_bytes:
  assumes "Routes U P env r (q, d) = (rp, s')" and "facts_ok d" and "rq_method r \<noteq> ''HEAD''"
    and "ServeHTTP Z U P env r (fresh (rq_method r)) (q, d) = ((c, logged), s'')"
  shows "s'' = s' \<and> (\<exists>hs. c_sent c = Some (rp_status rp, hs)
    \<and> (case rp_body rp of
         Some v \<Rightarrow> hs = [(''Content-Type'', ''application/json'')]
           \<and> (if printable Z v then json_Valid (c_body c) \<and> parse_doc (c_body c) = Some (jval_of Z v) else c_body c = [])
       | None \<Rightarrow> c_body c = mux_text (rp_status rp) @ [CHR 0x0A]))"
proof -
  note s = ServeHTTP_Routes [OF assms(1), of Z "fresh (rq_method r)", unfolded assms(4), simplified]
  have n: "list_all json_space [CHR 0x0A]" by (simp add: json_space_def)
  have "json_Valid (t @ [CHR 0x0A]) \<and> parse_doc (t @ [CHR 0x0A]) = Some (jval_of Z v)"
    if "rp_body rp = Some v" "Marshal Z v = Some t" for v t
    using Marshal_parse_doc [OF that(2) _ _ n] mux_value [OF _ assms(2) that(1)] assms(1) by (simp add: Routes_def)
  moreover have "printable Z v \<longleftrightarrow> Marshal Z v \<noteq> None" for v by (simp add: Marshal_None)
  ultimately show ?thesis using s assms(3) by (auto simp: respond_fresh Let_def split: option.split)
qed

text \<open>
  C40: an entity that cannot be printed. Where the time of an entity's last event has no RFC 3339
  form in the process's zone, which the gate does not exclude, \<open>GET /entities/{key}\<close> answers 200 with an
  empty body labelled as JSON, at every log level.
\<close>

theorem unprintable_entity_is_empty:
  assumes "select_by e_EntityKey (CanonicalKey U key) (entities d) = Some e" and "e_LastEventTime e = Some t"
    and "MarshalTime Z (t * 1000) = None" and "rq_method r = ''GET''" and "rq_path r = [''entities'', key]" and "key \<noteq> ''''"
    and "a_fault1 env = NoFault"
  shows "fst (fst (ServeHTTP Z U P env r (fresh ''GET'') (q, d))) =
    \<lparr>c_head = False, c_header = [(''Content-Type'', ''application/json'')],
     c_sent = Some (StatusOK, [(''Content-Type'', ''application/json'')]), c_body = []\<rparr>"
proof -
  have "Routes U P env r (q, d) = (writeJSON StatusOK (entity_json e), q, d)"
    using assms by (simp add: Routes_def mux_def getEntity_def GetEntity_def get_entity_stmt_def)
  moreover have "Marshal Z (entity_json e) = None"
    unfolding Marshal_None using assms(2,3) by (simp add: entity_json_def nullable_def time_json_def)
  ultimately show ?thesis by (simp add: ServeHTTP_Routes(1) writeJSON_def respond_fresh Let_def)
qed

text \<open>The gate takes such a time: the last hour of the year 9999, written west of Greenwich.\<close>

lemma late_time: "parseEventTime ''9999-12-31T23:59:59-01:00'' = Some \<lparr>unix_sec = 253402304399, nanosec = 0\<rparr>"
  by (simp add: string_eval time_eval layout_eval)

definition late_entity :: Entity where
  "late_entity = \<lparr>e_EntityKey = ''K1'', e_Type = ClassShipment, e_CurrentState = ''PICKED_UP'', e_CurrentRank = 0,
     e_LastEventTime = Some (253402304399 * 1000000), e_AmountMinor = None, e_Currency = None, e_UpdatedAt = 0\<rparr>"

theorem unprintable_entity_is_empty_witness:
  "c_body (fst (fst (ServeHTTP (\<lambda>_. 0) demo_unicode demo_pg demo_api
     (demo_webhook\<lparr>rq_method := ''GET'', rq_path := [''entities'', ''K1'']\<rparr>) (fresh ''GET'')
     (NewPostgres default_config, empty_db\<lparr>entities := [late_entity]\<rparr>)))) = []"
proof -
  have "MarshalTime (\<lambda>_. 0) (253402304399 * 1000000 * 1000) = None" by code_simp
  moreover have "CanonicalKey demo_unicode ''K1'' = ''K1''"
    by (simp add: CanonicalKey_def string_eval demo_unicode_def)
  ultimately show ?thesis
    using unprintable_entity_is_empty [of demo_unicode "''K1''" "empty_db\<lparr>entities := [late_entity]\<rparr>" late_entity
        "253402304399 * 1000000" "\<lambda>_. 0" "demo_webhook\<lparr>rq_method := ''GET'', rq_path := [''entities'', ''K1'']\<rparr>" demo_api
        demo_pg "NewPostgres default_config"]
    by (simp add: late_entity_def demo_api_def)
qed

text \<open>The instant of a database timestamp.\<close>

definition instant :: "timestamptz \<Rightarrow> gotime" where
  "instant t = \<lparr>unix_sec = t div 1000000, nanosec = nat (t mod 1000000 * 1000)\<rparr>"

lemma printed_time:
  assumes "MarshalTime Z (t * 1000) = Some s" and "Z (t * 1000) mod 60 = 0"
  shows "parseEventTime s = Some (instant t)"
  using parseEventTime_MarshalTime [OF assms] mod_mult_mult2 [of t 1000 1000000] by (simp add: instant_def)

lemma Atoi_Itoa_int64: "- (2 ^ 63) \<le> n \<Longrightarrow> n < 2 ^ 63 \<Longrightarrow> Atoi (Itoa n) = Some n"
  using Atoi_Itoa [of n] digits_nonempty [of "nat (- n)"] digits_digit [of "nat (- n)"]
  by (cases "0 \<le> n") (simp_all add: Atoi_def Itoa_def dec_val_digits)

text \<open>
  C25: an entity is read back as it is stored. A client that gets 200 from \<open>GET /entities/{key}\<close> with a body reads from it
  the entity's key, type and state, its amount as the same integer, and times that denote the same
  instants to the microsecond, whatever the zone of the process, provided its offsets are whole minutes.
\<close>

theorem entity_reads_back:
  assumes "select_by e_EntityKey (CanonicalKey U key) (entities d) = Some e" and "key \<noteq> ''''"
    and "rq_method r = ''GET''" and "rq_path r = [''entities'', key]" and "a_fault1 env = NoFault"
    and "\<forall>t. Z t mod 60 = 0" and "\<forall>n. e_AmountMinor e = Some n \<longrightarrow> - (2 ^ 63) \<le> n \<and> n < 2 ^ 63"
    and "c_body (fst (fst (ServeHTTP Z U P env r (fresh ''GET'') (q, d)))) = body" and "body \<noteq> []"
  shows "\<exists>kvs. parse_doc body = Some (JObj kvs)
    \<and> map_of kvs ''entity_key'' = Some (JStr (to_valid (e_EntityKey e)))
    \<and> map_of kvs ''type'' = Some (JStr (to_valid (e_Type e)))
    \<and> map_of kvs ''current_state'' = Some (JStr (to_valid (e_CurrentState e)))
    \<and> dec_int64_ptr (the (map_of kvs ''amount_minor'')) None = (e_AmountMinor e, False)
    \<and> (\<exists>s. map_of kvs ''updated_at'' = Some (JStr s) \<and> parseEventTime s = Some (instant (e_UpdatedAt e)))
    \<and> (case e_LastEventTime e of None \<Rightarrow> map_of kvs ''last_event_time'' = Some JNull
       | Some t \<Rightarrow> \<exists>s. map_of kvs ''last_event_time'' = Some (JStr s) \<and> parseEventTime s = Some (instant t))"
proof -
  have "Routes U P env r (q, d) = (writeJSON StatusOK (entity_json e), q, d)"
    using assms(1-5) by (simp add: Routes_def mux_def getEntity_def GetEntity_def get_entity_stmt_def)
  then have b: "body = (case Marshal Z (entity_json e) of None \<Rightarrow> [] | Some s \<Rightarrow> s @ [CHR 0x0A])"
    using assms(8) by (simp add: ServeHTTP_Routes(1) writeJSON_def respond_fresh Let_def)
  then obtain s where m: "Marshal Z (entity_json e) = Some s" "body = s @ [CHR 0x0A]"
    using assms(9) by (auto split: option.splits)
  then have pr: "printable Z (entity_json e)" using Marshal_None [of Z "entity_json e"] by simp
  have p: "parse_doc body = Some (jval_of Z (entity_json e))"
    using Marshal_parse_doc(2) [OF m(1), of "[CHR 0x0A]"] entity_value m(2) by (simp add: json_space_def)
  have u: "parseEventTime (the (MarshalTime Z (e_UpdatedAt e * 1000))) = Some (instant (e_UpdatedAt e))"
    using pr printed_time assms(6) by (auto simp: entity_json_def time_json_def)
  have l: "parseEventTime (the (MarshalTime Z (t * 1000))) = Some (instant t)" if "e_LastEventTime e = Some t" for t
    using pr printed_time assms(6) that by (auto simp: entity_json_def time_json_def nullable_def)
  have k: "to_valid ''entity_key'' = ''entity_key''" "to_valid ''type'' = ''type''" "to_valid ''current_state'' = ''current_state''"
    "to_valid ''current_rank'' = ''current_rank''" "to_valid ''last_event_time'' = ''last_event_time''"
    "to_valid ''amount_minor'' = ''amount_minor''" "to_valid ''currency'' = ''currency''" "to_valid ''updated_at'' = ''updated_at''"
    by (simp_all add: to_valid_ascii is_ascii_def)
  have a: "dec_int64_ptr (jval_of Z (nullable VInt (e_AmountMinor e))) None = (e_AmountMinor e, False)"
    using assms(7) Atoi_Itoa_int64 by (auto simp: nullable_def split: option.split)
  show ?thesis using u l a
    by (simp add: p entity_json_def k time_json_def nullable_def split: option.split)
qed

definition paid_entity :: Entity where
  "paid_entity = \<lparr>e_EntityKey = ''K1'', e_Type = ClassInvoice, e_CurrentState = ''REFUNDED'', e_CurrentRank = 0,
     e_LastEventTime = None, e_AmountMinor = Some (- 5), e_Currency = None, e_UpdatedAt = 0\<rparr>"

theorem entity_reads_back_witness:
  "\<exists>kvs. parse_doc (c_body (fst (fst (ServeHTTP (\<lambda>_. 0) demo_unicode demo_pg demo_api
     (demo_webhook\<lparr>rq_method := ''GET'', rq_path := [''entities'', ''K1'']\<rparr>) (fresh ''GET'')
     (NewPostgres default_config, empty_db\<lparr>entities := [paid_entity]\<rparr>))))) = Some (JObj kvs)
   \<and> dec_int64_ptr (the (map_of kvs ''amount_minor'')) None = (Some (- 5), False)"
proof -
  let ?r = "demo_webhook\<lparr>rq_method := ''GET'', rq_path := [''entities'', ''K1'']\<rparr>" and ?d = "empty_db\<lparr>entities := [paid_entity]\<rparr>"
  have k: "CanonicalKey demo_unicode ''K1'' = ''K1''" by (simp add: CanonicalKey_def string_eval demo_unicode_def)
  have "MarshalTime (\<lambda>_. 0) (0 * 1000) \<noteq> None" by (simp add: MarshalTime_def jan1_formula Let_def split: prod.split)
  then have "printable (\<lambda>_. 0) (entity_json paid_entity)"
    by (simp add: entity_json_def paid_entity_def nullable_def time_json_def)
  then have m: "Marshal (\<lambda>_. 0) (entity_json paid_entity) \<noteq> None" by (simp add: Marshal_None)
  have "Routes demo_unicode demo_pg demo_api ?r (NewPostgres default_config, ?d) =
      (writeJSON StatusOK (entity_json paid_entity), NewPostgres default_config, ?d)"
    using k by (simp add: Routes_def mux_def getEntity_def GetEntity_def get_entity_stmt_def demo_api_def withLogging_def paid_entity_def)
  with m have "c_body (fst (fst (ServeHTTP (\<lambda>_. 0) demo_unicode demo_pg demo_api ?r (fresh ''GET'')
      (NewPostgres default_config, ?d)))) \<noteq> []"
    by (auto simp: ServeHTTP_Routes(1) writeJSON_def respond_fresh Let_def)
  with entity_reads_back [of demo_unicode "''K1''" ?d paid_entity ?r demo_api "\<lambda>_. 0" demo_pg "NewPostgres default_config"] k
  show ?thesis by (auto simp: paid_entity_def demo_api_def)
qed

end
