(* ===== verification/Service.thy ===== *)
theory Service
  imports System Wire
begin

text \<open>
  The service as a whole: the bytes that clients receive while requests and workers interleave. The hypothesis
  about the database is that a \<open>REAL\<close> column is read back as a double (\<open>float_ok\<close>).
\<close>

lemma facts_same: "normalized_events d' = normalized_events d \<Longrightarrow> facts_ok d' = facts_ok d"
  by (simp add: facts_ok_def)

lemma InsertRaw_facts: "normalized_events (snd (InsertRaw P f1 f2 now nid h body src d)) = normalized_events d"
  unfolding InsertRaw_state by (cases f1) (auto simp: insert_raw_stmt_def)

lemma Store_Claim_facts: "normalized_events (snd (Store_Claim P f now lease locked d)) = normalized_events d"
  by (cases f) (auto simp: Store_Claim_def claim_stmt_def Let_def split: option.splits if_splits)

lemma answer_facts: "answer P c f now pick job out d = Some d' \<Longrightarrow> normalized_events d' = normalized_events d"
  by (erule answer_state)
    (cases f; auto simp: Ack_def MarkProcessed_def Queue_Fail_def Store_Fail_def RetryOrFail_def update_raw_def)+

lemma persist_facts_ok:
  assumes "\<And>x. float_ok (real4 P x)" and "facts_ok d"
  shows "facts_ok (snd (persist P env job res n d))"
proof -
  have "facts_ok (snd (insert_normalized_stmt (new_norm P now i n m v) d))" for now i m v
    using assms by (simp add: insert_normalized_stmt_def facts_ok_def new_norm_def)
  then show ?thesis unfolding persist_def InsertNormalized_def
    using assms(2) by (metis db_call_state)
qed

lemma facts_ok_step:
  assumes "sys_step U P s s'" and "\<And>x. float_ok (real4 P x)" and "facts_ok (s_db s)"
  shows "facts_ok (s_db s')"
  using assms(1)
proof (cases rule: sys_step.cases)
  case (request env r rp q' d')
  from request(3) have "normalized_events d' = normalized_events (s_db s)"
    by (rule Routes_state) (simp_all add: InsertRaw_facts)
  with request(1) assms(3) show ?thesis by (simp add: facts_ok_def)
next
  case (claim w f locked wk job q' d')
  have "normalized_events d' = normalized_events (s_db s)"
    using claim(3) Queue_Claim_state [of P f "s_now s" locked wk "s_q s" "s_db s"] by (simp add: Store_Claim_facts)
  with claim(1) assms(3) show ?thesis by (simp add: facts_ok_def)
next
  case (no_claim w f locked wk res q' d')
  have "normalized_events d' = normalized_events (s_db s)"
    using no_claim(3) Queue_Claim_state [of P f "s_now s" locked wk "s_q s" "s_db s"] by (simp add: Store_Claim_facts)
  with no_claim(1) assms(3) show ?thesis by (simp add: facts_ok_def)
next
  case (persist_ok w job res n env d')
  with persist_facts_ok [OF assms(2,3), of env job res n] show ?thesis by simp
next
  case (persist_err w job res n env err d')
  with persist_facts_ok [OF assms(2,3), of env job res n] show ?thesis by simp
next
  case (project_ok w job n env d')
  with project_facts [of P env n "s_db s"] assms(3) show ?thesis by (simp add: facts_ok_def)
next
  case (project_err w job n env err d')
  with project_facts [of P env n "s_db s"] assms(3) show ?thesis by (simp add: facts_ok_def)
next
  case (answered w job out f pick d')
  with answer_facts [of P "cfg (s_q s)" f "s_now s" pick job out "s_db s" d'] assms(3) show ?thesis by (simp add: facts_ok_def)
qed (use assms(3) in simp_all)

lemma facts_ok_reach:
  assumes "sys_reach U P (sys_init c t) s" and "\<And>x. float_ok (real4 P x)"
  shows "facts_ok (s_db s)"
  using assms(1)
proof (induction rule: sys_reach.induct)
  case sys_refl
  then show ?case by (simp add: sys_init_def facts_ok_def empty_db_def)
qed (rule facts_ok_step [OF _ assms(2)])


text \<open>
  C12: what clients receive, at any time. In every state the system can reach, whatever its workers are doing, every answer to a request
  other than \<open>HEAD\<close> carries the status the handler chose. Where the handler answered with a value that
  can be printed, the body is valid JSON, is labelled so, and reads back as that value; where the value
  cannot be printed, the body is empty; where the library answered, it is its text.
\<close>

theorem answer_bytes_decode:
  assumes "sys_reach U P (sys_init cf t) s" and "\<forall>x. float_ok (real4 P x)"
    and "Routes U P env r (s_q s, s_db s) = (rp, s')" and "rq_method r \<noteq> ''HEAD''"
    and "ServeHTTP Z U P env r (fresh (rq_method r)) (s_q s, s_db s) = ((c, logged), s'')"
  shows "s'' = s' \<and> (\<exists>hs. c_sent c = Some (rp_status rp, hs)
    \<and> (case rp_body rp of
         Some v \<Rightarrow> hs = [(''Content-Type'', ''application/json'')]
           \<and> (if printable Z v then json_Valid (c_body c) \<and> parse_doc (c_body c) = Some (jval_of Z v) else c_body c = [])
       | None \<Rightarrow> c_body c = mux_text (rp_status rp) @ [CHR 0x0A]))"
  using facts_ok_reach [OF assms(1)] assms(2) by (intro answer_bytes [OF assms(3) _ assms(4,5)]) blast

text \<open>A database whose column keeps doubles, and a health check on the system as it starts.\<close>

definition double_pg :: pg where
  "double_pg = demo_pg\<lparr>real4 := (\<lambda>x. if float_ok x then x else Fin 0)\<rparr>"

lemma double_pg_ok: "\<forall>x. float_ok (real4 double_pg x)"
  by (simp add: double_pg_def float_ok_def round_double_def)

theorem answer_bytes_decode_witness:
  "parse_doc (c_body (fst (fst (ServeHTTP (\<lambda>_. 0) demo_unicode double_pg demo_api
      (demo_webhook\<lparr>rq_method := ''GET'', rq_path := [''healthz'']\<rparr>)
      (fresh ''GET'') (NewPostgres default_config, empty_db))))) = Some (JObj [(''status'', JStr ''ok'')])"
proof -
  let ?r = "demo_webhook\<lparr>rq_method := ''GET'', rq_path := [''healthz'']\<rparr>" and ?s = "sys_init default_config 10"
  obtain c logged s' where s: "ServeHTTP (\<lambda>_. 0) demo_unicode double_pg demo_api ?r (fresh (rq_method ?r))
      (s_q ?s, s_db ?s) = ((c, logged), s')" by (metis prod.exhaust)
  have "Routes demo_unicode double_pg demo_api ?r (s_q ?s, s_db ?s) =
      (writeJSON StatusOK (VObj [(''status'', VStr ''ok'')]), s_q ?s, s_db ?s)"
    by (simp add: Routes_def mux_def health_def Ping_def demo_api_def withLogging_def)
  from answer_bytes_decode [OF sys_refl double_pg_ok this _ s] s show ?thesis
    by (auto simp: writeJSON_def to_valid_ascii is_ascii_def sys_init_def)
qed

end
