(* ===== verification/Journey.thy ===== *)
theory Journey
  imports Runs Batch Pristine Service
begin

text \<open>
  The whole way of a webhook: from the request that is acknowledged, through the worker, to what a client
  reads back. It composes the routes (\<open>Ingest\<close>), the states the system can reach (\<open>System\<close>, \<open>Pristine\<close>) and the drained queue (\<open>Batch\<close>).
\<close>

text \<open>The leases of the rows in flight are over at each of the times.\<close>

definition leases_over :: "timestamptz list \<Rightarrow> db \<Rightarrow> bool" where
  "leases_over nows d \<longleftrightarrow> list_all (\<lambda>r. rr_status r = StatusProcessing \<longrightarrow>
     rr_attempts r < 2147483647 \<and> list_all (\<lambda>t. claimable t r) nows) (raw_events d)"

lemma due_reach:
  assumes "unicode_ok U" and "sys_reach U P (sys_init c t) s" and "leases_over nows (s_db s)"
  shows "due nows (s_db s)"
proof -
  have "0 \<le> rr_attempts r" if "r \<in> set (raw_events (s_db s))" for r
    using reachable_inv [OF assms(2,1)] that by (auto simp: db_inv_def log_ok_def row_ok_def)
  then show ?thesis
    using reachable_inv [OF assms(2,1)] reach_calm [OF assms(2,1)] assms(3)
    by (auto simp: due_def open_rows_def calm_def pristine_def db_inv_def leases_over_def list_all_iff claimable_def)
qed

lemma accepted_new:
  assumes "Routes U P env r (q, d) = (rp, q', d')" and "rq_method r = ''POST''" and "rq_path r = [''webhooks'']"
    and "rp_status rp = StatusAccepted" and "rp_body rp = Some (accepted_json eid True)"
  obtains body where "read_body (withLogging (a_debug env) r) = Some body"
    "d' = d\<lparr>raw_events := raw_events d @ [new_raw P (a_now env) eid (payload_hash body) body (TrimSpace (rq_source r))]\<rparr>"
    "eid \<notin> rr_id ` set (raw_events d)"
proof -
  let ?ins = "InsertRaw P (a_fault1 env) (a_fault2 env) (a_now env) (a_new_id env)"
  obtain body x where b: "read_body (withLogging (a_debug env) r) = Some body"
    and i: "?ins (payload_hash body) body (TrimSpace (rq_source r)) d = (x, d')" and x: "x = Inr (eid, True)"
    using assms unfolding Routes_webhooks [OF assms(2,3)]
    by (auto simp: ingest_def writeError_def writeJSON_def accepted_json_def split: option.splits if_splits prod.splits sum.splits)
  from i [unfolded x] show thesis by (rule InsertRaw_ok) (use b in \<open>auto intro: that\<close>)
qed

lemma drained_fact:
  assumes "rr_id x \<notin> nr_raw_event_id ` set (normalized_events d)" and "due nows d" and "x \<in> set (open_rows d)"
    and "length nows = length (open_rows d)"
    and "unique_on nr_raw_event_id (normalized_events d @ concat (map2 (new_facts U P p d) nows (in_order d)))" (is "unique_on _ ?ns")
  obtains t where "t \<in> set nows" "select_by nr_raw_event_id (rr_id x) ?ns =
    (case new_facts U P p d t x of [] \<Rightarrow> None | n # _ \<Rightarrow> Some n)"
proof -
  obtain i where i: "i < length (in_order d)" "in_order d ! i = x" using assms(3) by (metis in_set_conv_nth set_in_order)
  let ?t = "nows ! i"
  have t: "?t \<in> set nows" "(?t, x) \<in> set (zip nows (in_order d))"
    using i assms(4) by (auto simp: in_set_zip intro!: exI [of _ i])
  show thesis
  proof (cases "new_facts U P p d ?t x")
    case Nil
    have "rr_id x \<notin> nr_raw_event_id ` set ?ns"
    proof
      assume "rr_id x \<in> nr_raw_event_id ` set ?ns"
      then obtain u y where y: "y \<in> set (open_rows d)" "new_facts U P p d u y \<noteq> []" "rr_id y = rr_id x"
        using assms(1) by (fastforce dest: set_zip_rightD new_facts_id)
      with assms(2,3) have "y = x" by (auto simp: due_def db_ok_def open_rows_def dest: unique_onD)
      with y(2) Nil show False by (auto simp: new_facts_def split: sum.splits if_splits)
    qed
    with Nil t(1) show thesis by (intro that [of ?t]) (simp_all add: select_by_None)
  next
    case (Cons n ns)
    then have "n \<in> set ?ns" "nr_raw_event_id n = rr_id x" using t(2) new_facts_id [of n U P p d ?t x] by force+
    with select_by_mem [OF assms(5), of n] Cons t(1) show thesis by (intro that [of ?t]) simp_all
  qed
qed

text \<open>A fact has reached its entity: the entity exists, and a shipment stands at the fact's rank or beyond.\<close>

definition reached :: "Normalized \<Rightarrow> view \<Rightarrow> bool" where
  "reached n v \<longleftrightarrow> (case v (n_EntityKey n) of
     None \<Rightarrow> False
   | Some (ty, st, rank) \<Rightarrow> n_Classification n = ClassShipment \<longrightarrow> ShipmentRank (n_CanonicalState n) \<le> rank)"

lemma reached_step: "reached n v \<Longrightarrow> reached n (step_fact m v)"
  by (auto simp: reached_def step_fact_def split: option.splits)

lemma reached_now: "n_Classification n \<in> {ClassShipment, ClassInvoice} \<Longrightarrow> reached n (step_fact n v)"
  using step_shipment_reached [of n v] step_invoice_reached [of n v] by (auto simp: reached_def)

lemma reached_fold:
  assumes "verdict U p (row_job x) = Inr (res, n)" and "n_Classification n \<in> {ClassShipment, ClassInvoice}"
  shows "reached n v \<or> x \<in> set rs \<Longrightarrow> reached n (fold (settle_view U p) rs v)"
proof (induction rs arbitrary: v)
  case (Cons y rs)
  have "reached n (settle_view U p y v) \<or> x \<in> set rs"
    using Cons.prems assms reached_now [OF assms(2)] by (auto simp: settle_view_def reached_step split: sum.split)
  then show ?case using Cons.IH by simp
qed simp

text \<open>Reading an event back, when the store answers.\<close>

lemma Routes_event:
  assumes "uuidPattern eid" and "uuid_in P eid = rr_id x" and "select_by rr_id (rr_id x) (raw_events d) = Some x"
    and "a_fault1 env = NoFault" and "rq_method r = ''GET''" and "rq_path r = [''events'', eid]"
  shows "Routes U P env r (q, d) =
    (writeJSON StatusOK (event_json (event_view x (select_by nr_raw_event_id (rr_id x) (normalized_events d)))), q, d)"
proof -
  have "eid \<noteq> ''''" using assms(1) by (auto simp: uuidPattern_def)
  with assms show ?thesis by (simp add: Routes_def mux_def getEvent_def GetEvent_def get_event_stmt_def)
qed

text \<open>What a drained queue leaves of an open row without a fact.\<close>

lemma drained_row:
  assumes "due nows d" and "decisive p" and "config_ok (cfg q)" and "length nows = length (open_rows d)"
    and x: "x \<in> set (open_rows d)" and new: "rr_id x \<notin> nr_raw_event_id ` set (normalized_events d)"
  obtains d' u where "worker U P p (map clean_env nows) (q, d) = Some (Continue, q, d')"
    "select_by rr_id (rr_id x) (raw_events d') = Some (settled U p x)"
    "select_by nr_raw_event_id (rr_id x) (normalized_events d') = (case new_facts U P p d u x of [] \<Rightarrow> None | n # _ \<Rightarrow> Some n)"
    "\<forall>res n. verdict U p (row_job x) = Inr (res, n) \<and> n_Classification n \<in> {ClassShipment, ClassInvoice} \<longrightarrow> reached n (entity_view d')"
proof -
  from drain_exact [OF assms(1-4), of U P] obtain d' where
    w: "worker U P p (map clean_env nows) (q, d) = Some (Continue, q, d')" and ok: "db_ok d'"
    and raw: "raw_events d' = map (settle_row U p) (raw_events d)"
    and ns: "normalized_events d' = normalized_events d @ concat (map2 (new_facts U P p d) nows (in_order d))"
    and ents: "entity_view d' = fold (settle_view U p) (in_order d) (entity_view d)" by blast
  obtain u where u: "select_by nr_raw_event_id (rr_id x) (normalized_events d') =
      (case new_facts U P p d u x of [] \<Rightarrow> None | n # _ \<Rightarrow> Some n)"
    using drained_fact [OF new assms(1) x assms(4), of U P p] ok unfolding ns [symmetric] by (metis db_ok_def)
  have "settled U p x \<in> set (raw_events d')" using x unfolding raw by (force simp: settle_row_def open_rows_def)
  then have "select_by rr_id (rr_id x) (raw_events d') = Some (settled U p x)"
    using select_by_mem [of rr_id "raw_events d'" "settled U p x"] ok by (simp add: db_ok_def)
  moreover have "reached n (entity_view d')"
    if "verdict U p (row_job x) = Inr (res, n)" "n_Classification n \<in> {ClassShipment, ClassInvoice}" for res n
    unfolding ents using reached_fold [OF that] x by simp
  ultimately show thesis using w u by (intro that) auto
qed

text \<open>How the outcome of a row is shown.\<close>

lemma settled_view:
  assumes "ev = event_view (settled U p x) (case new_facts U P p d u x of [] \<Rightarrow> None | n # _ \<Rightarrow> Some n)"
    and "rr_id x \<notin> nr_raw_event_id ` set (normalized_events d)"
  shows "ev_ID ev = rr_id x \<and> ev_Attempts ev = rr_attempts x + 1
    \<and> (case verdict U p (row_job x) of
         Inl err \<Rightarrow> ev_Status ev = StatusFailed \<and> ev_Error ev = Some (Error err) \<and> ev_Classification ev = None
       | Inr (res, n) \<Rightarrow> ev_Status ev = StatusProcessed \<and> ev_Error ev = None
           \<and> ev_Classification ev = Some (n_Classification n) \<and> ev_EntityKey ev = nullif_empty (n_EntityKey n)
           \<and> ev_CanonicalState ev = nullif_empty (n_CanonicalState n) \<and> ev_Confidence ev = Some (real4 P (n_Confidence n)))"
  by (auto simp: assms event_view_def new_facts_def settled_def Let_def new_norm_def split: sum.split)

text \<open>
  C5: from a webhook to its outcome. In any state the system can reach, whatever crashed in it, let a webhook be
  acknowledged as new with the id \<open>eid\<close>. Then as many turns without faults of a worker process, with any settings and a
  model that decides every payload, as there are open rows, taken when the leases of the rows in flight are over, end in a database in which \<open>GET /events/{eid}\<close>
  answers 200 with what the model and the gate made of exactly this payload: PROCESSED with the fact's class,
  key, state and confidence, or FAILED with the reason; and a fact about a shipment or an invoice has reached its entity.
\<close>

theorem webhook_to_outcome:
  assumes "unicode_ok U" and "sys_reach U P (sys_init c t) s" and "leases_over nows (s_db s)"
    and "Routes U P env r (s_q s, s_db s) = (rp, q1, d1)" and "a_now env = s_now s"
    and "rq_method r = ''POST''" and "rq_path r = [''webhooks'']"
    and "rp_status rp = StatusAccepted" and "rp_body rp = Some (accepted_json eid True)"
    and "uuidPattern eid" and "uuid_in P eid = eid"
    and "decisive p" and "length nows = length (open_rows d1)"
    and "a_fault1 env' = NoFault" and "rq_method g = ''GET''" and "rq_path g = [''events'', eid]"
  shows "\<exists>body d2 ev. read_body (withLogging (a_debug env) r) = Some body
    \<and> worker U P p (map clean_env nows) (NewPostgres c', d1) = Some (Continue, NewPostgres c', d2)
    \<and> Routes U P env' g (q1, d2) = (writeJSON StatusOK (event_json ev), q1, d2)
    \<and> ev_ID ev = eid \<and> ev_Attempts ev = 1
    \<and> (case verdict U p \<lparr>j_ID = eid, j_Payload = jsonb P body, j_Attempts = 1\<rparr> of
         Inl err \<Rightarrow> ev_Status ev = StatusFailed \<and> ev_Error ev = Some (Error err) \<and> ev_Classification ev = None
       | Inr (res, n) \<Rightarrow> ev_Status ev = StatusProcessed \<and> ev_Error ev = None
           \<and> ev_Classification ev = Some (n_Classification n) \<and> ev_EntityKey ev = nullif_empty (n_EntityKey n)
           \<and> ev_CanonicalState ev = nullif_empty (n_CanonicalState n) \<and> ev_Confidence ev = Some (real4 P (n_Confidence n))
           \<and> (n_Classification n \<in> {ClassShipment, ClassInvoice} \<longrightarrow> reached n (entity_view d2)))"
proof -
  let ?s1 = "s\<lparr>s_q := q1, s_db := d1\<rparr>"
  have reach: "sys_reach U P (sys_init c t) ?s1" using sys_next [OF assms(2) request [OF assms(5,4)]] .
  from accepted_new [OF assms(4,6,7,8,9)] obtain body where
    b: "read_body (withLogging (a_debug env) r) = Some body"
    and d1: "d1 = (s_db s)\<lparr>raw_events := raw_events (s_db s) @ [new_raw P (a_now env) eid (payload_hash body) body (TrimSpace (rq_source r))]\<rparr>"
    by metis
  define x where "x = new_raw P (a_now env) eid (payload_hash body) body (TrimSpace (rq_source r))"
  have xf: "rr_id x = eid" "rr_attempts x = 0" "rr_status x = StatusPending"
    and job: "row_job x = \<lparr>j_ID = eid, j_Payload = jsonb P body, j_Attempts = 1\<rparr>"
    by (simp_all add: x_def new_raw_def row_job_def)
  have raw1: "raw_events d1 = raw_events (s_db s) @ [x]" by (simp add: d1 x_def)
  have x: "x \<in> set (open_rows d1)" by (simp add: open_rows_def raw1 xf)
  have over: "leases_over nows d1" using assms(3) by (simp add: leases_over_def raw1 xf)
  with due_reach [OF assms(1) reach] have due: "due nows d1" by simp
  have new: "rr_id x \<notin> nr_raw_event_id ` set (normalized_events d1)"
    using reach_calm [OF reach assms(1)] raw1 xf(3) by (auto simp: calm_def pristine_def has_fact_def)
  obtain d2 u where w: "worker U P p (map clean_env nows) (NewPostgres c', d1) = Some (Continue, NewPostgres c', d2)"
    and row: "select_by rr_id (rr_id x) (raw_events d2) = Some (settled U p x)"
    and fact: "select_by nr_raw_event_id (rr_id x) (normalized_events d2) = (case new_facts U P p d1 u x of [] \<Rightarrow> None | n # _ \<Rightarrow> Some n)"
    and ent: "\<forall>res n. verdict U p (row_job x) = Inr (res, n) \<and> n_Classification n \<in> {ClassShipment, ClassInvoice} \<longrightarrow> reached n (entity_view d2)"
    by (rule drained_row [where U = U and P = P, OF due assms(12) NewPostgres_ok assms(13) x new])
  define ev where "ev = event_view (settled U p x) (case new_facts U P p d1 u x of [] \<Rightarrow> None | n # _ \<Rightarrow> Some n)"
  have get: "Routes U P env' g (q1, d2) = (writeJSON StatusOK (event_json ev), q1, d2)"
    using Routes_event [OF assms(10) _ _ assms(14-16), of P "settled U p x" d2 U q1] assms(11) row fact xf(1) by (simp add: ev_def)
  have "ev_ID ev = eid \<and> ev_Attempts ev = 1
    \<and> (case verdict U p (row_job x) of
         Inl err \<Rightarrow> ev_Status ev = StatusFailed \<and> ev_Error ev = Some (Error err) \<and> ev_Classification ev = None
       | Inr (res, n) \<Rightarrow> ev_Status ev = StatusProcessed \<and> ev_Error ev = None
           \<and> ev_Classification ev = Some (n_Classification n) \<and> ev_EntityKey ev = nullif_empty (n_EntityKey n)
           \<and> ev_CanonicalState ev = nullif_empty (n_CanonicalState n) \<and> ev_Confidence ev = Some (real4 P (n_Confidence n))
           \<and> (n_Classification n \<in> {ClassShipment, ClassInvoice} \<longrightarrow> reached n (entity_view d2)))"
    using settled_view [OF ev_def new] ent xf(1,2) by (simp split: sum.splits prod.splits)
  with b w get show ?thesis unfolding job by blast
qed

definition demo_uuid :: string where
  "demo_uuid = ''6f1c2b30-0000-4000-8000-0000000000ab''"

lemma demo_uuid_ok: "uuidPattern demo_uuid" "uuid_in demo_pg demo_uuid = demo_uuid"
  by code_simp+

theorem webhook_to_outcome_witness:
  "\<exists>d1 d2 ev. snd (snd (Routes demo_unicode demo_pg (demo_api\<lparr>a_new_id := demo_uuid\<rparr>) demo_webhook
       (NewPostgres default_config, empty_db))) = d1
    \<and> worker demo_unicode demo_pg demo_processor [clean_env 20] (NewPostgres default_config, d1) =
       Some (Continue, NewPostgres default_config, d2)
    \<and> rp_body (fst (Routes demo_unicode demo_pg demo_api
       (demo_webhook\<lparr>rq_method := ''GET'', rq_path := [''events'', demo_uuid]\<rparr>) (Notify (NewPostgres default_config), d2))) =
       Some (event_json ev)
    \<and> ev_Status ev = StatusProcessed \<and> reached demo_fact (entity_view d2)"
proof -
  let ?env = "demo_api\<lparr>a_new_id := demo_uuid\<rparr>" and ?s = "sys_init default_config 10"
  let ?g = "demo_webhook\<lparr>rq_method := ''GET'', rq_path := [''events'', demo_uuid]\<rparr>"
  let ?d1 = "empty_db\<lparr>raw_events := [new_raw demo_pg 10 demo_uuid (payload_hash ''{}'') ''{}'' (TrimSpace '' maersk'')]\<rparr>"
  have serve: "Routes demo_unicode demo_pg ?env demo_webhook (s_q ?s, s_db ?s) =
      (writeJSON StatusAccepted (accepted_json demo_uuid True), Notify (NewPostgres default_config), ?d1)"
    by (simp add: Routes_webhooks demo_webhook_fields demo_valid demo_api_def ingest_def InsertRaw_def
        insert_raw_stmt_def empty_db_def sys_init_def)
  have pend: "length [20 :: timestamptz] = length (open_rows ?d1)" by (simp add: open_rows_def) (simp add: new_raw_def)
  have over: "leases_over [20] (s_db ?s)" by (simp add: leases_over_def sys_init_def empty_db_def)
  have v: "verdict demo_unicode demo_processor \<lparr>j_ID = demo_uuid, j_Payload = jsonb demo_pg ''{}'', j_Attempts = 1\<rparr> =
      Inr (\<lparr>res_Response = demo_invoice, res_Model = ''m'', res_PromptVer = ''v1''\<rparr>, demo_fact)"
    by (simp add: verdict_def demo_processor_def demo_invoice_apply demo_pg_def)
  have cls: "n_Classification demo_fact = ClassInvoice" by (simp add: demo_fact_def)
  from webhook_to_outcome [OF demo_unicode_ok sys_refl over serve _ _ _ _ _ demo_uuid_ok demo_decisive pend, of demo_api ?g default_config]
  obtain body d2 ev where r: "read_body (withLogging (a_debug ?env) demo_webhook) = Some body"
    "worker demo_unicode demo_pg demo_processor (map clean_env [20]) (NewPostgres default_config, ?d1) =
       Some (Continue, NewPostgres default_config, d2)"
    "Routes demo_unicode demo_pg demo_api ?g (Notify (NewPostgres default_config), d2) =
       (writeJSON StatusOK (event_json ev), Notify (NewPostgres default_config), d2)"
    "case verdict demo_unicode demo_processor \<lparr>j_ID = demo_uuid, j_Payload = jsonb demo_pg body, j_Attempts = 1\<rparr> of
       Inl err \<Rightarrow> ev_Status ev = StatusFailed \<and> ev_Error ev = Some (Error err) \<and> ev_Classification ev = None
     | Inr (res, n) \<Rightarrow> ev_Status ev = StatusProcessed \<and> ev_Error ev = None
         \<and> ev_Classification ev = Some (n_Classification n) \<and> ev_EntityKey ev = nullif_empty (n_EntityKey n)
         \<and> ev_CanonicalState ev = nullif_empty (n_CanonicalState n) \<and> ev_Confidence ev = Some (real4 demo_pg (n_Confidence n))
         \<and> (n_Classification n \<in> {ClassShipment, ClassInvoice} \<longrightarrow> reached n (entity_view d2))"
    by (auto simp: demo_api_def demo_webhook_def sys_init_def writeJSON_def)
  have "body = ''{}''" using r(1) by (simp add: demo_api_def demo_webhook_fields)
  with r(4) have "ev_Status ev = StatusProcessed" "reached demo_fact (entity_view d2)" by (simp_all add: v cls)
  with r serve show ?thesis by (intro exI [of _ ?d1] exI [of _ d2] exI [of _ ev]) (simp add: sys_init_def writeJSON_def)
qed

text \<open>
  C6: every event is settled in the end. From any state the system can reach, after whatever faults, crashes and lost answers,
  a single worker that from then on meets no faults and whose model decides every payload settles the
  whole log: with as many turns as there are open rows, taken after the leases of the rows in flight are over,
  every row ends PROCESSED with exactly one fact or FAILED with a recorded reason, no row is
  left open, and no payload has changed.
\<close>

theorem every_event_settles:
  assumes "unicode_ok U" and "sys_reach U P (sys_init c t) s" and "leases_over nows (s_db s)" and "sorted (s_now s # nows)"
    and "decisive p" and "length nows = length (open_rows (s_db s))"
  shows "\<exists>d'. worker U P p (map clean_env nows) (s_q s, s_db s) = Some (Continue, s_q s, d')
    \<and> map raw_core (raw_events d') = map raw_core (raw_events (s_db s)) \<and> open_rows d' = []
    \<and> (\<forall>r \<in> set (raw_events d').
         rr_status r = StatusProcessed \<and> (\<exists>n. filter (\<lambda>n. nr_raw_event_id n = rr_id r) (normalized_events d') = [n])
         \<or> rr_status r = StatusFailed \<and> rr_error r \<noteq> None)"
proof -
  have "config_ok (cfg (s_q s))" using reach_cfg [OF assms(2)] NewPostgres_ok by simp
  from drain_exact [OF due_reach [OF assms(1-3)] assms(5) this assms(6), of U P] obtain d' where
    w: "worker U P p (map clean_env nows) (s_q s, s_db s) = Some (Continue, s_q s, d')"
    and raw: "raw_events d' = map (settle_row U p) (raw_events (s_db s))" by blast
  let ?s0 = "s\<lparr>s_pc := (s_pc s)(0 := Idle)\<rparr>"
  have s0: "sys_reach U P (sys_init c t) ?s0" using sys_next [OF assms(2) crash] .
  have "\<exists>u. sys_reach U P ?s0 (?s0\<lparr>s_now := u, s_q := s_q s, s_db := d'\<rparr>)"
    by (rule worker_runs [where w = 0 and envs = "map clean_env nows" and p = p and l = Continue])
      (use assms(4) w in \<open>auto simp: timely_def clean_env_def no_faults_def sorted_wrt_map\<close>)
  then obtain u where "sys_reach U P (sys_init c t) (?s0\<lparr>s_now := u, s_q := s_q s, s_db := d'\<rparr>)"
    using sys_reach_trans [OF _ s0] by blast
  from reachable_inv [OF this assms(1)] have inv: "db_ok d'" "\<forall>r \<in> set (raw_events d'). row_ok d' r"
    by (simp_all add: db_inv_def log_ok_def)
  have closed: "open_rows d' = []" using raw by (rule settled_closed)
  have "rr_status r = StatusProcessed \<and> (\<exists>n. filter (\<lambda>n. nr_raw_event_id n = rr_id r) (normalized_events d') = [n])
      \<or> rr_status r = StatusFailed \<and> rr_error r \<noteq> None" if "r \<in> set (raw_events d')" for r
  proof -
    have row: "row_ok d' r" "rr_status r \<noteq> StatusPending" "rr_status r \<noteq> StatusProcessing"
      using inv(2) closed that by (auto simp: open_rows_def filter_empty_conv)
    with processed_fact [OF inv(1) row(1)] show ?thesis by (cases "rr_status r") (auto simp: row_ok_def)
  qed
  moreover have "map raw_core (raw_events d') = map raw_core (raw_events (s_db s))" by (simp add: raw settle_row_def)
  ultimately show ?thesis using w closed by blast
qed

text \<open>The state after a worker died with the row of the example in its hands.\<close>

definition demo_dead :: sys where
  "demo_dead = demo_sys\<lparr>s_db := snd (snd (Queue_Claim demo_pg NoFault 10 [] PollTimeout (s_q demo_sys) (s_db demo_sys)))\<rparr>"

lemma demo_dead_row:
  "raw_events (s_db demo_dead) = [claimed demo_pg 10 (sint (Lease (cfg (NewPostgres default_config))))
     (new_raw demo_pg 10 ''id1'' (payload_hash ''{}'') ''{}'' (TrimSpace '' maersk''))]"
  by (simp add: demo_dead_def demo_sys_def Queue_Claim_def Store_Claim_def claim_stmt_def Notify_def)
    (simp add: new_raw_def claimable_def)

lemma demo_dead_reach: "sys_reach demo_unicode demo_pg (sys_init default_config 10) demo_dead"
proof -
  let ?c = "Queue_Claim demo_pg NoFault 10 [] PollTimeout (s_q demo_sys) (s_db demo_sys)"
  obtain job d' where c: "?c = (Inr (Some job), s_q demo_sys, d')"
    by (simp add: demo_sys_def Queue_Claim_def Store_Claim_def claim_stmt_def Notify_def) (simp add: new_raw_def claimable_def)
  have pc: "s_pc demo_sys 0 = Idle" and now: "s_now demo_sys = 10" by (simp_all add: demo_sys_def sys_init_def)
  let ?s1 = "demo_sys\<lparr>s_q := s_q demo_sys, s_db := d', s_pc := (s_pc demo_sys)(0 := Handling job)\<rparr>"
  have "sys_step demo_unicode demo_pg demo_sys ?s1"
    by (rule claim [where f = NoFault and locked = "[]" and wk = PollTimeout]) (use pc now c in simp_all)
  with demo_sys_reach have "sys_reach demo_unicode demo_pg (sys_init default_config 10) ?s1" by (rule sys_next)
  from sys_next [OF this crash [where w = 0]] show ?thesis
    using pc c by (simp add: demo_dead_def fun_upd_idem)
qed

theorem every_event_settles_witness:
  "\<exists>d'. worker demo_unicode demo_pg demo_processor [clean_env 40000000] (s_q demo_dead, s_db demo_dead) =
      Some (Continue, s_q demo_dead, d') \<and> length (raw_events d') = 1 \<and> open_rows d' = []"
proof -
  have f: "rr_status (claimed P now l r) = StatusProcessing" "rr_attempts (claimed P now l (new_raw P now i h b src)) = 1"
    "rr_lease_until (claimed P now l r) = Some (now + make_interval P l)" for P now l r i h b src
    by (simp_all add: claimed_def new_raw_def)
  have over: "leases_over [40000000] (s_db demo_dead)"
    by (simp add: leases_over_def demo_dead_row f claimable_def default_config_values sint_seconds demo_pg_def)
  have "sorted [s_now demo_dead, 40000000]" "length [40000000 :: timestamptz] = length (open_rows (s_db demo_dead))"
    by (simp_all add: open_rows_def demo_dead_row f) (simp add: demo_dead_def demo_sys_def sys_init_def)
  from every_event_settles [OF demo_unicode_ok demo_dead_reach over this(1) demo_decisive this(2)] obtain d' where
    "worker demo_unicode demo_pg demo_processor [clean_env 40000000] (s_q demo_dead, s_db demo_dead) = Some (Continue, s_q demo_dead, d')"
    "map raw_core (raw_events d') = map raw_core (raw_events (s_db demo_dead))" "open_rows d' = []" by auto
  moreover from this(2) have "length (raw_events d') = 1" by (metis demo_dead_row length_map length_Cons list.size(3) One_nat_def)
  ultimately show ?thesis by blast
qed

end
