(* ===== verification/Redelivery.thy ===== *)
theory Redelivery
  imports Processor
begin

text \<open>
  What a redelivery does where the model gives another answer than the first time. The fact of an
  event is stored once, by the first run that gets that far; the projection follows the run that
  completes.
\<close>

definition project_down :: "timestamptz \<Rightarrow> string \<Rightarrow> handle_env" where
  "project_down now m = (no_faults now)\<lparr>h_begin := FaultBefore m, h_write := FaultBefore m\<rparr>"

lemma project_down_fails:
  assumes "n_Classification n \<in> {ClassShipment, ClassInvoice}"
  shows "\<exists>err. project P (project_down now m) n d = (Inl err, d)"
  using assms by (auto simp: project_def project_down_def no_faults_def ApplyShipment_def ApplyInvoice_def)

lemma persist_down: "persist P (project_down now m) job res n d = persist P (no_faults now) job res n d"
  by (simp add: persist_def project_down_def no_faults_def)

text \<open>
  C37: an entity that no fact accounts for. Where the projection of a job's first answer fails after its fact
  was stored, and the model answers differently when the job is delivered again, the second
  run succeeds: the fact kept is that of the first answer, the entities are moved by the second.
\<close>

theorem projection_follows_second_answer:
  assumes "db_ok d" and "j_ID job \<in> rr_id ` set (raw_events d)" and "j_ID job \<notin> nr_raw_event_id ` set (normalized_events d)"
    and "p_llm p1 (j_Payload job) = Inr res1" and "Apply U (p_norm p1) (res_Response res1) = Inr n1"
    and "n_Classification n1 \<in> {ClassShipment, ClassInvoice}"
    and "p_llm p2 (j_Payload job) = Inr res2" and "Apply U (p_norm p2) (res_Response res2) = Inr n2"
  shows "\<exists>err d1 d2. Handle U P p1 (project_down t1 m) job d = (Inl err, d1) \<and> \<not> IsPermanent err
    \<and> Handle U P p2 (no_faults t2) job d1 = (Inr (), d2)
    \<and> normalized_events d2 = normalized_events d @ [new_norm P t1 (j_ID job) n1 (res_Model res1) (res_PromptVer res1)]
    \<and> entity_view d2 = step_fact n2 (entity_view d)"
proof -
  have v1: "verdict U p1 job = Inr (res1, n1)" and v2: "verdict U p2 job = Inr (res2, n2)"
    using assms(4-8) by (simp_all add: verdict_def)
  let ?row = "new_norm P t1 (j_ID job) n1 (res_Model res1) (res_PromptVer res1)"
  define d1 where "d1 = d\<lparr>normalized_events := normalized_events d @ [?row]\<rparr>"
  have p: "persist P (project_down t1 m) job res1 n1 d = (Inr (), d1)"
    using assms(3) by (simp add: persist_down persist_clean [OF v1 assms(2)] d1_def flip: select_by_None)
  obtain err where q: "project P (project_down t1 m) n1 d1 = (Inl err, d1)" using project_down_fails [OF assms(6)] by blast
  have 1: "Handle U P p1 (project_down t1 m) job d = (Inl (Wrap ''project: '' err), d1)"
    by (simp add: Handle_accepted [OF v1] p q)
  have perm: "\<not> IsPermanent (Wrap ''project: '' err)" using project_error [of P "project_down t1 m" n1 d1 err] q by simp
  have ok1: "db_ok d1" using hand.keeps_ok [OF assms(1), of U P p1 "project_down t1 m" job] 1 by simp
  have i1: "j_ID job \<in> rr_id ` set (raw_events d1)" using assms(2) by (simp add: d1_def)
  have known: "select_by nr_raw_event_id (j_ID job) (normalized_events d1) \<noteq> None"
    by (simp add: select_by_None d1_def new_norm_def del: not_None_eq)
  let ?h = "Handle U P p2 (no_faults t2) job d1"
  have "fst ?h = Inr ()" by (simp add: Handle_clean [OF v2 i1])
  moreover have "normalized_events (snd ?h) = normalized_events d1" using Handle_clean_facts [OF v2 i1, of P t2] known by simp
  moreover have "entity_view (snd ?h) = step_fact n2 (entity_view d1)" by (rule Handle_clean_view [OF v2 i1 ok1])
  moreover have "entity_view d1 = entity_view d" by (simp add: entity_view_def d1_def)
  ultimately show ?thesis using 1 perm
    by (intro exI [of _ "Wrap ''project: '' err"] exI [of _ d1] exI [of _ "snd ?h"]) (simp add: prod_eq_iff d1_def)
qed

text \<open>The model reads another key from the same payload the second time.\<close>

definition second_processor :: Processor where
  "second_processor = demo_processor\<lparr>p_llm := (\<lambda>_. Inr \<lparr>res_Response = demo_invoice\<lparr>r_EntityKey := ''K2''\<rparr>,
     res_Model = ''m'', res_PromptVer = ''v1''\<rparr>)\<rparr>"

theorem projection_follows_second_answer_witness:
  "\<exists>d1 d2. snd (Handle demo_unicode demo_pg demo_processor (project_down 20 ''down'') demo_job (demo_log StatusProcessing)) = d1
    \<and> Handle demo_unicode demo_pg second_processor (no_faults 30) demo_job d1 = (Inr (), d2)
    \<and> map nr_entity_key (normalized_events d2) = [Some (n_EntityKey demo_fact)]
    \<and> entity_view d2 = step_fact (demo_fact\<lparr>n_EntityKey := ''K2''\<rparr>) (entity_view (demo_log StatusProcessing))"
proof -
  have a: "Apply demo_unicode (p_norm second_processor) (demo_invoice\<lparr>r_EntityKey := ''K2''\<rparr>) = Inr (demo_fact\<lparr>n_EntityKey := ''K2''\<rparr>)"
    by (simp add: Apply_def demo_invoice_def demo_fact_def second_processor_def demo_processor_def New_def string_eval demo_time
        CanonicalKey_def sanitizeMoney_def isAlpha_def IsInvoiceState_iff invoice_states_def demo_unicode_def)
  show ?thesis
    using projection_follows_second_answer [OF demo_log_ok(1), of demo_job StatusProcessing demo_processor
        "\<lparr>res_Response = demo_invoice, res_Model = ''m'', res_PromptVer = ''v1''\<rparr>" demo_unicode demo_fact second_processor
        "\<lparr>res_Response = demo_invoice\<lparr>r_EntityKey := ''K2''\<rparr>, res_Model = ''m'', res_PromptVer = ''v1''\<rparr>"
        "demo_fact\<lparr>n_EntityKey := ''K2''\<rparr>" demo_pg 20 "''down''" 30] a
    by (auto simp: demo_processor_def second_processor_def demo_job_def demo_invoice_apply demo_log_def demo_raw_def new_raw_def
        empty_db_def new_norm_def demo_fact_def)
qed

end
