(* ===== verification/Spec2Isabelle.thy ===== *)
theory Spec2Isabelle
  imports Roles Pools Embedded Fencing Journey Redelivery
begin

text \<open>
  Verification of the webhook ingestor.

  The program (Go, under \<open>src/\<close>) accepts vendor webhooks over HTTP, keeps each body once in a raw log in
  PostgreSQL, and lets a pool of workers turn every stored body into a normalized fact with the help
  of a language model and project the fact onto entities (shipments and invoices). The parts
  share only the database: the server inserts rows, workers claim them under a lease, call the
  model, check its answer at a gate, store the fact, advance the entity and answer the queue. A
  failure of any statement, a lost answer, a crash and a redelivery are ordinary events.

  \<^bold>\<open>Theories and what they model.\<close>

  \<^item> \<open>Prelude\<close>: tables as lists of rows, the SQL statements on them, and a call over a connection that fails
    before or after it took effect (\<open>db_call\<close>).
  \<^item> \<open>Go_Strings\<close>, \<open>Go_Base\<close>, \<open>Go_Time\<close>, \<open>Go_Num\<close>, \<open>Go_Json\<close>, \<open>Go_Decode\<close>, \<open>Go_Json_Parse\<close>, \<open>Go_Hash\<close>: what the code uses of the language
    and its library: byte strings and UTF-8, errors and their chains, doubles, time layouts, the
    parsers of \<open>strconv\<close> and \<open>time.ParseDuration\<close> with correct rounding and overflow checks, the scanner behind
    \<open>json.Valid\<close>, the decoding of \<open>json.Unmarshal\<close> (field matching, null, wrong types, repeated keys, slices that are
    reused) and SHA-256. \<open>Go_Json_Parse\<close> shows that the decoder reads exactly what the scanner accepts.
  \<^item> \<open>Go_Format\<close>, \<open>Go_Clock\<close>, \<open>Go_Encode\<close>: the other direction. The shortest decimal of a double, RFC 3339 times with the
    calendar, and \<open>json.Marshal\<close>; what is printed is read back: as the same double, as the same instant, as the
    same value.
  \<^item> \<open>Domain_Model\<close> (\<open>internal/model\<close>): the lifecycles, the ranks and the data records.
  \<^item> \<open>LLM_Client\<close> (\<open>llm.go\<close>): the answer record and \<open>Retryable\<close>. \<open>Spec\<close> (\<open>llm/spec\<close>): the embedded schema and its decoding at start-up.
    \<open>Providers\<close> (\<open>openai.go\<close>, \<open>ollama.go\<close>): both HTTP clients, each branch of \<open>Normalize\<close>, and the bytes of their requests. \<open>Mock\<close> (\<open>mock.go\<close>): the keyword rules.
  \<^item> \<open>Normalize\<close> (\<open>internal/normalize\<close>): the gate \<open>Apply\<close> and its helpers.
  \<^item> \<open>Store\<close> (\<open>raw.go\<close>, \<open>normalized.go\<close>, \<open>entity.go\<close>): the tables as the record \<open>db\<close> and every repository method, statement by
    statement; \<open>Store_Inv\<close>: the invariants of the tables and that each method keeps them; \<open>Raw_Log\<close> and
    \<open>Projection\<close>: the properties of the two halves. \<open>Migrate\<close> (\<open>store.go\<close>): the migrations.
  \<^item> \<open>Queue\<close> (\<open>internal/queue\<close>): the queue over the raw log, with its channel and its backoff on 64-bit words.
  \<^item> \<open>Processor\<close>, \<open>Worker\<close>, \<open>Delivery\<close> (\<open>internal/processor\<close>, \<open>internal/worker\<close>): the pipeline \<open>Handle\<close>, \<open>dispatch\<close>, a turn of a worker, and
    what repeated failures lead to. \<open>Batch\<close>: the abstract batch that a drained queue amounts to (\<open>settle_row\<close>, \<open>new_facts\<close>, \<open>settle_view\<close> over the
    rows \<open>in_order\<close>) and that the loop implements it. \<open>Redelivery\<close>: what a second, different answer of the model does.
  \<^item> \<open>Ingest\<close> (\<open>internal/ingest\<close>): the routes and handlers, up to the value that is answered. \<open>Wire\<close>: the calls on the
    \<open>ResponseWriter\<close>, the recorder and log entry of the debug level, and the bytes and headers a client receives.
  \<^item> \<open>System\<close>: any number of workers and requests interleaved at the granularity of statements
    (\<open>sys_step\<close>), with a clock, faults, arbitrary answers of the model and crashes. \<open>Fencing\<close>: what its leases do not
    protect from. \<open>Service\<close>: the bytes clients receive in any state of the system. \<open>Pristine\<close>: a row that is still pending was never
    touched. \<open>Runs\<close>: the worker's loop is one of the behaviours of this system. \<open>Journey\<close>: the whole way of a webhook, composed of these.
  \<^item> \<open>App\<close> (\<open>config.go\<close>, \<open>init.go\<close>, \<open>main.go\<close>): configuration, choice of the client, start-up, roles and exit codes.
    \<open>Roles\<close>: the goroutines of a running process and how they stop (\<open>role_step\<close>). \<open>Pools\<close>: the connection pools a process opens and closes.
  \<^item> \<open>Embedded\<close> (\<open>internal/samples\<close>, \<open>migrations\<close>): the accessors of embedded files.

  \<^bold>\<open>Interfaces.\<close> The contracts between parts are locales, each interpreted on the model's own definitions:
  \<open>durable_op\<close> (a store operation keeps the tables sound and the log append-only), \<open>ingest_store\<close> (what the
  handlers rely on of the store), \<open>work_queue\<close> and its extension \<open>consumer\<close> (what workers rely on of the queue),
  \<open>convergent\<close> (updates that commute), \<open>llm_client\<close> (what the pipeline relies on of a model client),
  interpreted for OpenAI, Ollama, the mock and for whichever of them the configuration selects, and \<open>response_writer\<close> with its
  extension \<open>capturing_writer\<close> (a writer around another), interpreted for the recorder.

  \<^bold>\<open>What is shown.\<close>

  \<^item> Over the interleaved system: no stored event is lost, an acknowledged one is kept for good, payloads
    and facts are append-only and ranks never decrease, the tables stay sound.
  \<^item> End to end: an acknowledged webhook is answered later with what the model and the gate made of exactly its
    payload, and from every reachable state, whatever crashed, a worker without faults settles the whole log once the leases are over.
  \<^item> Delivery: a claim is exclusive while its lease runs; the loop of a worker refines the interleaved system; a drained
    queue equals a batch in order of arrival; a failing row is dead-lettered by exactly the delivery that reaches the cap; the pipeline is idempotent, resumes
    after any interruption with the effect of one clean run, and refines an abstract step.
  \<^item> The gate: what every accepted fact satisfies and exactly which answers are rejected. The shipment
    projection converges under any order and repetition; invoices move along their transitions.
  \<^item> The clients: which failures are permanent, that the numbers of an answer are in range, that the schema
    sent to the model and the code that reads its answers agree, that the payload reaches the model, what the mock achieves.
  \<^item> The boundary: a 202 means the body is stored; every answer's bytes are valid JSON that reads back as the value,
    an entity with the same amount and instants; the debug level changes nothing for bodies within the
    limit and logs what was sent.
  \<^item> Start-up: migrations are applied exactly once and in order over any sequence of failing starts,
    connecting ends, settings reach the queue exactly, what becomes of the connection pools, and when the process exits with 0. Stopping: a role returns
    only after its pool, and always does so within a bounded number of steps once it is told to stop.
  \<^item> Behaviour a reader of the comments would not expect is stated as it is: an uncapped crash loop, a
    late answer that dead-letters a processed event, an invoice projection that depends on the order of arrival, a shipment that overwrites an
    invoice of the same key, an entity that no fact accounts for, a debug level that truncates bodies, an empty answer
    with status 200 for a time that cannot be printed, a failed listener that exits with 0, an error exit that
    skips the deferred close of the pool.

  \<^bold>\<open>Bounds.\<close> Go's \<open>int64\<close> values are 64-bit words where the code computes with them (backoff) and integers with
  their range checks where they are only parsed or stored. No definition takes fuel: parsers and loops end
  by the length of their input (\<open>duration_terms\<close>, \<open>parse_value\<close>, whose tests of length always succeed by
  \<open>parse_shorter\<close>), by the number of tries (\<open>connect_loop\<close>), or by the list of turns a worker is given.

  \<^bold>\<open>Parameters.\<close> The Unicode case tables, the conversions of PostgreSQL, the effect of a migration's SQL, the network
  with its answers, the text of a JSON error, the prompt, the clock, the local zone and the faults of each call are
  arguments; hypotheses about them are named (\<open>unicode_ok\<close>; \<open>float_ok\<close>: the confidence column is read as a double).

  \<^bold>\<open>Not modelled.\<close> Log output other than the entry of the debug level; the text of a duration; the HTTP server below the handler
  (connections, chunking, its date and length headers, redirects of paths that are not clean, the header \<open>Allow\<close> of a 405);
  the connections of a pool; the contents of the embedded SQL and JSON files; and PostgreSQL itself beyond the statements above: \<open>JSONB\<close> is the
  parameter \<open>jsonb\<close>, and the sign of a zero confidence is not kept.
\<close>

end
